(* ===== verification/Prelude.thy ===== *)
theory Prelude
  imports Main "HOL-Library.AList" "HOL-Library.Word" "HOL-Library.Code_Target_Nat"
begin

text \<open>
  What every theory of the development shares: the names for Rust's \<open>Result\<close>, the fixed-width
  integers, the collections of rules that the component proofs pass to the simplifier and the
  generic facts on lists, options and association lists.
\<close>

section \<open>Results and integers\<close>

text \<open>Rust's \<open>Result<T, E>\<close> is the sum type with the error on the left.\<close>

abbreviation Ok :: "'a \<Rightarrow> 'e + 'a" where "Ok \<equiv> Inr"
abbreviation Err :: "'e \<Rightarrow> 'e + 'a" where "Err \<equiv> Inl"

type_synonym u64 = "64 word"

definition map_err :: "('e \<Rightarrow> 'f) \<Rightarrow> 'e + 'a \<Rightarrow> 'f + 'a" where
  "map_err f r = (case r of Inl e \<Rightarrow> Inl (f e) | Inr x \<Rightarrow> Inr x)"

definition ok :: "'e + 'a \<Rightarrow> 'a option" where
  "ok r = (case r of Inl _ \<Rightarrow> None | Inr x \<Rightarrow> Some x)"

lemma map_err_simps [simp]: "map_err f (Inl e) = Inl (f e)" "map_err f (Inr x) = Inr x"
  by (simp_all add: map_err_def)

lemma map_err_eq_Inr [simp]: "map_err f r = Inr x \<longleftrightarrow> r = Inr x"
  by (cases r) simp_all

lemma ok_simps [simp]: "ok (Inl e) = None" "ok (Inr x) = Some x"
  by (simp_all add: ok_def)

text \<open>Saturating arithmetic on \<open>u64\<close> and the reading of a length as \<open>u64\<close>.\<close>

definition u64_max :: u64 where
  "u64_max = 18446744073709551615"

definition sat_add :: "u64 \<Rightarrow> u64 \<Rightarrow> u64" where
  "sat_add a b = (if uint a + uint b < 2 ^ 64 then a + b else u64_max)"

definition sat_mul :: "u64 \<Rightarrow> u64 \<Rightarrow> u64" where
  "sat_mul a b = (if uint a * uint b < 2 ^ 64 then a * b else u64_max)"

lemma u64_bound: "unat (m :: u64) < 2 ^ 64"
  using unsigned_less [of m, where 'a = nat] by simp

lemma unat_sat_add: "unat (sat_add a b) = min (2 ^ 64 - 1) (unat a + unat b)"
proof -
  have "uint a + uint b < 2 ^ 64 \<longleftrightarrow> unat a + unat b < 2 ^ 64"
    by (simp add: uint_nat del: of_nat_unat flip: of_nat_add)
  then show ?thesis by (auto simp: sat_add_def unat_word_ariths u64_max_def)
qed

lemma unat_sat_mul: "unat (sat_mul a b) = min (2 ^ 64 - 1) (unat a * unat b)"
proof -
  have "uint a * uint b < 2 ^ 64 \<longleftrightarrow> unat a * unat b < 2 ^ 64"
    by (simp add: uint_nat del: of_nat_unat flip: of_nat_mult)
  then show ?thesis by (auto simp: sat_mul_def unat_word_ariths u64_max_def)
qed

section \<open>Collections\<close>

named_theorems io_simps \<open>how a computation steps\<close>
named_theorems returns_intros \<open>compositional rules for what a computation returns\<close>
named_theorems keeps_intros \<open>compositional rules for invariants of computations\<close>
named_theorems path_simps \<open>how the paths of the slots decompose\<close>

section \<open>Lists and association lists\<close>

lemma map_of_filter_key: "map_of (filter (\<lambda>x. P (fst x)) al) k = (if P k then map_of al k else None)"
  by (induction al) auto

lemma map_of_append_filtered:
  "map_of (filter (\<lambda>x. P (fst x)) al @ filter (\<lambda>x. \<not> P (fst x)) bl) k =
     (if P k then map_of al k else map_of bl k)"
  using map_of_filter_key [of P al k] map_of_filter_key [of "\<lambda>x. \<not> P x" bl k]
  by (auto simp: map_add_def split: option.splits)

lemma map_of_alist_update [simp]: "map_of (AList.update k v al) = (map_of al)(k \<mapsto> v)"
  by (rule update_conv')

lemma map_of_alist_delete [simp]: "map_of (AList.delete k al) = (map_of al)(k := None)"
  by (rule delete_conv')

lemma in_fst_iff_map_of: "k \<in> fst ` set al \<longleftrightarrow> map_of al k \<noteq> None"
  by (simp add: map_of_eq_None_iff)

end
