(* ===== verification/Rust_Text.thy ===== *)
theory Rust_Text
  imports Prelude
begin

text \<open>
  The operations of Rust's \<open>str\<close> that the agent and the installer use. A \<open>string\<close> is the UTF-8
  encoding of the Rust string, byte by byte, so that \<open>trim\<close> and \<open>split_whitespace\<close> see the
  multi-byte white space of Unicode as Rust does.
\<close>

section \<open>Prefixes, suffixes and searching\<close>

definition strip_prefix :: "string \<Rightarrow> string \<Rightarrow> string option" where
  "strip_prefix p s = (if take (length p) s = p then Some (drop (length p) s) else None)"

definition starts_with :: "string \<Rightarrow> string \<Rightarrow> bool" where
  "starts_with p s \<longleftrightarrow> take (length p) s = p"

definition ends_with :: "string \<Rightarrow> string \<Rightarrow> bool" where
  "ends_with p s \<longleftrightarrow> starts_with (rev p) (rev s)"

definition strip_suffix :: "string \<Rightarrow> string \<Rightarrow> string option" where
  "strip_suffix p s = map_option rev (strip_prefix (rev p) (rev s))"

fun contains :: "string \<Rightarrow> string \<Rightarrow> bool" where
  "contains p [] \<longleftrightarrow> p = []"
| "contains p (c # s) \<longleftrightarrow> starts_with p (c # s) \<or> contains p s"

definition split_once :: "char \<Rightarrow> string \<Rightarrow> (string \<times> string) option" where
  "split_once c s =
     (case dropWhile (\<lambda>x. x \<noteq> c) s of
        [] \<Rightarrow> None
      | _ # r \<Rightarrow> Some (takeWhile (\<lambda>x. x \<noteq> c) s, r))"

lemma starts_with_iff: "starts_with p s \<longleftrightarrow> (\<exists>r. s = p @ r)"
  unfolding starts_with_def by (metis append_eq_conv_conj append_take_drop_id)

lemma ends_with_iff: "ends_with p s \<longleftrightarrow> (\<exists>r. s = r @ p)"
  unfolding ends_with_def starts_with_iff
  by (metis append_eq_appendI rev_append rev_rev_ident)

lemma strip_prefix_Some_iff [simp]: "strip_prefix p s = Some r \<longleftrightarrow> s = p @ r"
  unfolding strip_prefix_def by (metis append_eq_conv_conj option.inject option.distinct(1))

lemma strip_suffix_Some_iff [simp]: "strip_suffix p s = Some r \<longleftrightarrow> s = r @ p"
proof -
  have "strip_suffix p s = Some r \<longleftrightarrow> strip_prefix (rev p) (rev s) = Some (rev r)"
    by (auto simp: strip_suffix_def simp del: strip_prefix_Some_iff)
  also have "\<dots> \<longleftrightarrow> rev s = rev (r @ p)" by simp
  finally show ?thesis by (simp only: rev_is_rev_conv)
qed

lemma starts_with_append [simp]: "starts_with p (p @ r)"
  by (simp add: starts_with_def)

lemma ends_with_append [simp]: "ends_with p (r @ p)"
  by (auto simp: ends_with_iff)

lemma split_once_Some_iff:
  "split_once c s = Some (a, b) \<longleftrightarrow> s = a @ c # b \<and> c \<notin> set a"
proof
  assume "split_once c s = Some (a, b)"
  then obtain d where d: "dropWhile (\<lambda>x. x \<noteq> c) s = d # b" and a: "a = takeWhile (\<lambda>x. x \<noteq> c) s"
    by (auto simp: split_once_def split: list.splits)
  have "d = c" using d by (metis (full_types) dropWhile_eq_Cons_conv)
  moreover have "s = a @ d # b" using d a by (metis takeWhile_dropWhile_id)
  moreover have "c \<notin> set a" using a by (auto dest: set_takeWhileD)
  ultimately show "s = a @ c # b \<and> c \<notin> set a" by simp
next
  assume s: "s = a @ c # b \<and> c \<notin> set a"
  then have "dropWhile (\<lambda>x. x \<noteq> c) s = c # b" and "takeWhile (\<lambda>x. x \<noteq> c) s = a"
    by (auto simp: dropWhile_append1 takeWhile_append1 dropWhile_append takeWhile_append)
  then show "split_once c s = Some (a, b)" by (simp add: split_once_def)
qed

lemma split_once_None_iff: "split_once c s = None \<longleftrightarrow> c \<notin> set s"
proof (cases "c \<in> set s")
  case True
  then have "dropWhile (\<lambda>x. x \<noteq> c) s \<noteq> []" by (auto simp: dropWhile_eq_Nil_conv)
  with True show ?thesis by (auto simp: split_once_def split: list.splits)
next
  case False
  then have "dropWhile (\<lambda>x. x \<noteq> c) s = []" by (auto simp: dropWhile_eq_Nil_conv)
  then have "split_once c s = None" unfolding split_once_def by (simp only: list.case)
  with False show ?thesis by blast
qed

lemma contains_iff: "contains p s \<longleftrightarrow> (\<exists>a b. s = a @ p @ b)"
proof (induction s)
  case Nil
  then show ?case by auto
next
  case (Cons c s)
  show ?case
  proof
    assume "contains p (c # s)"
    then consider r where "c # s = p @ r" | a b where "s = a @ p @ b"
      by (auto simp: Cons.IH starts_with_iff)
    then show "\<exists>a b. c # s = a @ p @ b"
      by cases (metis append_Nil, metis append_Cons)
  next
    assume "\<exists>a b. c # s = a @ p @ b"
    then obtain a b where ab: "c # s = a @ p @ b" by blast
    show "contains p (c # s)"
    proof (cases a)
      case Nil
      with ab have "starts_with p (c # s)" by simp
      then show ?thesis by simp
    next
      case (Cons d a')
      with ab have "s = a' @ p @ b" by simp
      then have "contains p s" using Cons.IH by blast
      then show ?thesis by simp
    qed
  qed
qed

section \<open>ASCII classes\<close>

definition byte :: "char \<Rightarrow> nat" where
  "byte c = of_char c"

definition is_ascii_digit :: "char \<Rightarrow> bool" where
  "is_ascii_digit c \<longleftrightarrow> 48 \<le> byte c \<and> byte c \<le> 57"

definition is_ascii_alphanumeric :: "char \<Rightarrow> bool" where
  "is_ascii_alphanumeric c \<longleftrightarrow>
     is_ascii_digit c \<or> (65 \<le> byte c \<and> byte c \<le> 90) \<or> (97 \<le> byte c \<and> byte c \<le> 122)"

definition to_ascii_lowercase :: "string \<Rightarrow> string" where
  "to_ascii_lowercase s = map (\<lambda>c. if 65 \<le> byte c \<and> byte c \<le> 90 then char_of (byte c + 32) else c) s"

definition to_ascii_uppercase :: "string \<Rightarrow> string" where
  "to_ascii_uppercase s = map (\<lambda>c. if 97 \<le> byte c \<and> byte c \<le> 122 then char_of (byte c - 32) else c) s"

definition eq_ignore_ascii_case :: "string \<Rightarrow> string \<Rightarrow> bool" where
  "eq_ignore_ascii_case a b \<longleftrightarrow> to_ascii_lowercase a = to_ascii_lowercase b"

section \<open>White space\<close>

text \<open>The UTF-8 encodings of the code points with the Unicode property \<open>White_Space\<close>.\<close>

definition white :: "string list" where
  "white =
     [[CHR 0x20], [CHR 0x09], [CHR 0x0A], [CHR 0x0B], [CHR 0x0C], [CHR 0x0D],
      [CHR 0xC2, CHR 0x85], [CHR 0xC2, CHR 0xA0], [CHR 0xE1, CHR 0x9A, CHR 0x80],
      [CHR 0xE2, CHR 0x80, CHR 0x80], [CHR 0xE2, CHR 0x80, CHR 0x81],
      [CHR 0xE2, CHR 0x80, CHR 0x82], [CHR 0xE2, CHR 0x80, CHR 0x83],
      [CHR 0xE2, CHR 0x80, CHR 0x84], [CHR 0xE2, CHR 0x80, CHR 0x85],
      [CHR 0xE2, CHR 0x80, CHR 0x86], [CHR 0xE2, CHR 0x80, CHR 0x87],
      [CHR 0xE2, CHR 0x80, CHR 0x88], [CHR 0xE2, CHR 0x80, CHR 0x89],
      [CHR 0xE2, CHR 0x80, CHR 0x8A], [CHR 0xE2, CHR 0x80, CHR 0xA8],
      [CHR 0xE2, CHR 0x80, CHR 0xA9], [CHR 0xE2, CHR 0x80, CHR 0xAF],
      [CHR 0xE2, CHR 0x81, CHR 0x9F], [CHR 0xE3, CHR 0x80, CHR 0x80]]"

fun strip_any :: "string list \<Rightarrow> string \<Rightarrow> string option" where
  "strip_any [] s = None"
| "strip_any (p # ps) s = (case strip_prefix p s of Some r \<Rightarrow> Some r | None \<Rightarrow> strip_any ps s)"

lemma strip_any_Some: "strip_any ps s = Some r \<Longrightarrow> \<exists>p \<in> set ps. s = p @ r"
  by (induction ps) (auto split: option.splits)

lemma strip_any_None: "strip_any ps s = None \<longleftrightarrow> (\<forall>p \<in> set ps. \<not> starts_with p s)"
  by (induction ps) (auto simp: strip_prefix_def starts_with_def split: option.splits)

lemma strip_any_shorter: "strip_any ps s = Some r \<Longrightarrow> length r < length s \<or> [] \<in> set ps"
  using strip_any_Some [of ps s r] by auto

text \<open>\<open>trim_seqs\<close> removes any of \<open>ps\<close> from the front for as long as one is there.\<close>

function trim_seqs :: "string list \<Rightarrow> string \<Rightarrow> string" where
  "trim_seqs ps s =
     (case strip_any ps s of None \<Rightarrow> s | Some r \<Rightarrow> if length r < length s then trim_seqs ps r else s)"
  by pat_completeness auto
termination by (relation "measure (length \<circ> snd)") auto

declare trim_seqs.simps [simp del]

definition trim :: "string \<Rightarrow> string" where
  "trim s = rev (trim_seqs (map rev white) (rev (trim_seqs white s)))"

text \<open>\<open>str::trim_matches\<close> with a single character.\<close>

definition trim_matches :: "char \<Rightarrow> string \<Rightarrow> string" where
  "trim_matches c s = rev (dropWhile (\<lambda>x. x = c) (rev (dropWhile (\<lambda>x. x = c) s)))"

function split_white :: "string \<Rightarrow> string \<Rightarrow> string list" where
  "split_white acc [] = [acc]"
| "split_white acc (c # s) =
     (case strip_any white (c # s) of
        Some r \<Rightarrow> if length r \<le> length s then acc # split_white [] r else [acc]
      | None \<Rightarrow> split_white (acc @ [c]) s)"
  by pat_completeness auto
termination by (relation "measure (length \<circ> snd)") auto

declare split_white.simps [simp del]

definition split_whitespace :: "string \<Rightarrow> string list" where
  "split_whitespace s = filter (\<lambda>x. x \<noteq> []) (split_white [] s)"

text \<open>
  \<open>str::lines\<close>: pieces end at a newline, a carriage return right before it is dropped, and an
  empty last piece is no line.
\<close>

definition strip_cr :: "string \<Rightarrow> string" where
  "strip_cr s = (case strip_suffix [CHR 0x0D] s of Some r \<Rightarrow> r | None \<Rightarrow> s)"

fun lines_from :: "string \<Rightarrow> string \<Rightarrow> string list" where
  "lines_from acc [] = (if acc = [] then [] else [acc])"
| "lines_from acc (c # s) =
     (if c = CHR 0x0A then strip_cr acc # lines_from [] s else lines_from (acc @ [c]) s)"

definition str_lines :: "string \<Rightarrow> string list" where
  "str_lines s = lines_from [] s"

lemma trim_seqs_id: "\<forall>p \<in> set ps. \<not> starts_with p s \<Longrightarrow> trim_seqs ps s = s"
  by (subst trim_seqs.simps) (simp add: strip_any_None [THEN iffD2])

lemma trim_seqs_nonempty:
  "trim_seqs ps s = t \<Longrightarrow> [] \<notin> set ps \<Longrightarrow> \<forall>p \<in> set ps. \<not> starts_with p t"
proof (induction ps s arbitrary: t rule: trim_seqs.induct)
  case (1 ps s)
  show ?case
  proof (cases "strip_any ps s")
    case None
    with 1 show ?thesis by (simp add: trim_seqs.simps [of ps s] strip_any_None)
  next
    case (Some r)
    with 1(3) have "length r < length s" using strip_any_shorter by blast
    with 1 Some show ?thesis by (simp add: trim_seqs.simps [of ps s])
  qed
qed

section \<open>Numbers\<close>

definition digit_val :: "char \<Rightarrow> nat" where
  "digit_val c = byte c - 48"

definition decimal :: "string \<Rightarrow> nat" where
  "decimal s = foldl (\<lambda>n c. 10 * n + digit_val c) 0 s"

text \<open>
  \<open>str::parse\<close> into an unsigned integer of \<open>w\<close> bits: one leading plus sign is accepted, the rest
  are digits, and a value that does not fit is an error.
\<close>

definition parse_uint :: "nat \<Rightarrow> string \<Rightarrow> nat option" where
  "parse_uint w s =
     (let ds = (case s of c # r \<Rightarrow> if c = CHR ''+'' \<and> r \<noteq> [] then r else s | [] \<Rightarrow> s)
      in if ds \<noteq> [] \<and> list_all is_ascii_digit ds \<and> decimal ds < 2 ^ w then Some (decimal ds) else None)"

text \<open>\<open>Display\<close> of an unsigned integer.\<close>

fun show_nat :: "nat \<Rightarrow> string" where
  "show_nat n = (if n < 10 then [char_of (48 + n)] else show_nat (n div 10) @ [char_of (48 + n mod 10)])"

declare show_nat.simps [simp del]

lemma byte_char_of: "(n::nat) < 256 \<Longrightarrow> byte (char_of n) = n"
  by (simp add: byte_def)

lemma byte_less [simp]: "byte c < 256"
  unfolding byte_def by (rule nat_of_char_less_256)

lemma byte_eq_iff [simp]: "byte a = byte b \<longleftrightarrow> a = b"
  by (simp add: byte_def)

lemma decimal_snoc [simp]: "decimal (s @ [c]) = 10 * decimal s + digit_val c"
  by (simp add: decimal_def)

lemma digit_val_char_of: "(n::nat) < 10 \<Longrightarrow> digit_val (char_of (48 + n)) = n"
  by (simp add: digit_val_def byte_char_of)

lemma is_ascii_digit_char_of: "(n::nat) < 10 \<Longrightarrow> is_ascii_digit (char_of (48 + n))"
  by (simp add: is_ascii_digit_def byte_char_of)

lemma show_nat_digits: "show_nat n \<noteq> [] \<and> list_all is_ascii_digit (show_nat n)"
proof (induction n rule: show_nat.induct)
  case (1 n)
  then show ?case
    by (subst show_nat.simps) (subst (1) show_nat.simps, auto simp: is_ascii_digit_char_of)
qed

lemma decimal_show_nat [simp]: "decimal (show_nat n) = n"
proof (induction n rule: show_nat.induct)
  case (1 n)
  show ?case
  proof (cases "n < 10")
    case True
    then show ?thesis
      using digit_val_char_of [of n] by (simp add: show_nat.simps [of n] decimal_def)
  next
    case False
    with 1 have "decimal (show_nat (n div 10)) = n div 10" by simp
    then have "decimal (show_nat n) = 10 * (n div 10) + digit_val (char_of (48 + n mod 10))"
      using False by (simp add: show_nat.simps [of n])
    also have "\<dots> = n" using digit_val_char_of [of "n mod 10"] by simp
    finally show ?thesis .
  qed
qed

lemma parse_show_nat: "n < 2 ^ w \<Longrightarrow> parse_uint w (show_nat n) = Some n"
proof -
  assume n: "n < 2 ^ w"
  obtain c r where s: "show_nat n = c # r" using show_nat_digits [of n] by (cases "show_nat n") auto
  with show_nat_digits [of n] have "is_ascii_digit c" by simp
  then have "c \<noteq> CHR ''+''" by (auto simp: is_ascii_digit_def byte_def)
  with n s show_nat_digits [of n] decimal_show_nat [of n] show ?thesis
    by (simp add: parse_uint_def Let_def)
qed

lemma parse_uint_bound: "parse_uint w s = Some n \<Longrightarrow> n < 2 ^ w"
  by (auto simp: parse_uint_def Let_def split: if_splits)

section \<open>UTF-8 and \<open>Debug\<close>\<close>

definition cont :: "char \<Rightarrow> nat \<Rightarrow> nat \<Rightarrow> bool" where
  "cont c lo hi \<longleftrightarrow> lo \<le> byte c \<and> byte c \<le> hi"

text \<open>Well-formed UTF-8, as \<open>fs::read_to_string\<close> demands.\<close>

fun utf8_valid :: "string \<Rightarrow> bool" where
  "utf8_valid [] = True"
| "utf8_valid (a # s) =
     (let x = byte a in
      if x < 0x80 then utf8_valid s
      else if 0xC2 \<le> x \<and> x \<le> 0xDF then
        (case s of b # t \<Rightarrow> cont b 0x80 0xBF \<and> utf8_valid t | _ \<Rightarrow> False)
      else if 0xE0 \<le> x \<and> x \<le> 0xEF then
        (case s of b # c # t \<Rightarrow>
           cont b (if x = 0xE0 then 0xA0 else 0x80) (if x = 0xED then 0x9F else 0xBF) \<and>
           cont c 0x80 0xBF \<and> utf8_valid t
         | _ \<Rightarrow> False)
      else if 0xF0 \<le> x \<and> x \<le> 0xF4 then
        (case s of b # c # d # t \<Rightarrow>
           cont b (if x = 0xF0 then 0x90 else 0x80) (if x = 0xF4 then 0x8F else 0xBF) \<and>
           cont c 0x80 0xBF \<and> cont d 0x80 0xBF \<and> utf8_valid t
         | _ \<Rightarrow> False)
      else False)"

definition hex_digit :: "nat \<Rightarrow> char" where
  "hex_digit n = char_of (if n < 10 then 48 + n else 87 + n)"

text \<open>
  \<open>Debug\<close> of a string: the quotes, the escapes and the ASCII control characters. Bytes outside
  ASCII are kept, as \<open>Debug\<close> keeps printable characters.
\<close>

definition debug_char :: "char \<Rightarrow> string" where
  "debug_char c =
     (if c = CHR 0x22 then [CHR 0x5C, CHR 0x22]
      else if c = CHR 0x5C then [CHR 0x5C, CHR 0x5C]
      else if c = CHR 0x0A then [CHR 0x5C, CHR ''n'']
      else if c = CHR 0x0D then [CHR 0x5C, CHR ''r'']
      else if c = CHR 0x09 then [CHR 0x5C, CHR ''t'']
      else if c = CHR 0x00 then [CHR 0x5C, CHR ''0'']
      else if byte c < 16 then [CHR 0x5C, CHR ''u'', CHR 0x7B, hex_digit (byte c), CHR 0x7D]
      else if byte c < 32 \<or> byte c = 127 then
        [CHR 0x5C, CHR ''u'', CHR 0x7B, hex_digit (byte c div 16), hex_digit (byte c mod 16), CHR 0x7D]
      else [c])"

definition debug_str :: "string \<Rightarrow> string" where
  "debug_str s = [CHR 0x22] @ concat (map debug_char s) @ [CHR 0x22]"

text \<open>\<open>[String]::join\<close>.\<close>

fun str_join :: "string \<Rightarrow> string list \<Rightarrow> string" where
  "str_join sep [] = []"
| "str_join sep [x] = x"
| "str_join sep (x # xs) = x @ sep @ str_join sep xs"

text \<open>
  \<open>String::from_utf8_lossy\<close>: the longest beginning of a character that its bytes allow is replaced
  by U+FFFD, and decoding goes on behind it.
\<close>

definition replacement :: string where
  "replacement = [CHR 0xEF, CHR 0xBF, CHR 0xBD]"

fun lossy :: "string \<Rightarrow> string" where
  "lossy [] = []"
| "lossy (a # s) =
     (let x = byte a in
      if x < 0x80 then a # lossy s
      else if 0xC2 \<le> x \<and> x \<le> 0xDF then
        (case s of
           b # t \<Rightarrow> if cont b 0x80 0xBF then a # b # lossy t else replacement @ lossy s
         | [] \<Rightarrow> replacement)
      else if 0xE0 \<le> x \<and> x \<le> 0xEF then
        (case s of
           b # t \<Rightarrow>
             if cont b (if x = 0xE0 then 0xA0 else 0x80) (if x = 0xED then 0x9F else 0xBF)
             then (case t of
                 c # u \<Rightarrow> if cont c 0x80 0xBF then a # b # c # lossy u else replacement @ lossy t
               | [] \<Rightarrow> replacement)
             else replacement @ lossy s
         | [] \<Rightarrow> replacement)
      else if 0xF0 \<le> x \<and> x \<le> 0xF4 then
        (case s of
           b # t \<Rightarrow>
             if cont b (if x = 0xF0 then 0x90 else 0x80) (if x = 0xF4 then 0x8F else 0xBF)
             then (case t of
                 c # u \<Rightarrow>
                   if cont c 0x80 0xBF
                   then (case u of
                       d # v \<Rightarrow> if cont d 0x80 0xBF then a # b # c # d # lossy v else replacement @ lossy u
                     | [] \<Rightarrow> replacement)
                   else replacement @ lossy t
               | [] \<Rightarrow> replacement)
             else replacement @ lossy s
         | [] \<Rightarrow> replacement)
      else replacement @ lossy s)"

declare lossy.simps(2) [simp del]

lemma lossy_valid: "utf8_valid s \<Longrightarrow> lossy s = s"
proof (induction "length s" arbitrary: s rule: less_induct)
  case less
  show ?case
  proof (cases s)
    case (Cons a r)
    define x where "x = byte a"
    note lossy_a = lossy.simps(2) [of a r, unfolded Let_def x_def [symmetric]]
    note valid = less.prems [unfolded Cons utf8_valid.simps(2) Let_def x_def [symmetric]]
    have shorter: "utf8_valid t \<Longrightarrow> length t < length s \<Longrightarrow> lossy t = t" for t
      by (rule less.hyps)
    consider "x < 0x80" | "\<not> x < 0x80" "0xC2 \<le> x \<and> x \<le> 0xDF"
      | "\<not> x < 0x80" "\<not> x \<le> 0xDF" "0xE0 \<le> x \<and> x \<le> 0xEF"
      | "\<not> x < 0x80" "\<not> x \<le> 0xDF" "\<not> x \<le> 0xEF" "0xF0 \<le> x \<and> x \<le> 0xF4"
      using valid by (auto split: if_splits)
    then show ?thesis
    proof cases
      case 1
      with valid have "utf8_valid r" by simp
      with 1 shorter [of r] show ?thesis unfolding Cons lossy_a by simp
    next
      case 2
      with valid obtain b t where "r = b # t" "cont b 0x80 0xBF" "utf8_valid t"
        by (auto split: list.splits)
      with 2 shorter [of t] show ?thesis unfolding Cons lossy_a by simp
    next
      case 3
      with valid obtain b c t where "r = b # c # t" "cont c 0x80 0xBF" "utf8_valid t"
        "cont b (if x = 0xE0 then 0xA0 else 0x80) (if x = 0xED then 0x9F else 0xBF)"
        by (simp split: list.splits)
      with 3 shorter [of t] show ?thesis unfolding Cons lossy_a by simp
    next
      case 4
      with valid obtain b c d t where "r = b # c # d # t" "cont c 0x80 0xBF" "cont d 0x80 0xBF" "utf8_valid t"
        "cont b (if x = 0xF0 then 0x90 else 0x80) (if x = 0xF4 then 0x8F else 0xBF)"
        by (simp split: list.splits)
      with 4 shorter [of t] show ?thesis unfolding Cons lossy_a by simp
    qed
  qed simp
qed

definition ascii :: "string \<Rightarrow> bool" where
  "ascii s \<longleftrightarrow> list_all (\<lambda>c. byte c < 0x80) s"

lemma ascii_valid: "ascii s \<Longrightarrow> utf8_valid s"
  by (induction s) (auto simp: ascii_def)

lemma lossy_ascii: "ascii s \<Longrightarrow> lossy s = s"
  by (simp add: lossy_valid ascii_valid)

end
