(* ===== verification/World.thy ===== *)
theory World
  imports Rust_Text
begin

text \<open>
  The world the agent acts on and the computations that act on it: the file system with its
  volatile and its durable side, injected failures and power cuts, the clock, and the primitive
  operations of \<open>std::fs\<close> that the sources call.
\<close>

section \<open>Computations\<close>

datatype io_kind = NotFound | AlreadyExists | InvalidData | WouldBlock | OtherIo

datatype io_error = IoError (kind: io_kind) (io_text: string)

text \<open>
  What the environment does to the next primitive operation: nothing, fail it with an error after
  the first \<open>n\<close> bytes of its work, or cut the power after them.
\<close>

datatype fault = Fine | Fails io_error nat | Cut nat

text \<open>Why a computation did not return: the power went, Rust panicked, the process waits for a
  lock that is never released, or the fuel of a polling loop ran out.\<close>

datatype stop = PowerLoss | Panicked string | Blocked | NoFuel

datatype 'a outcome = Done 'a | Stopped stop

type_synonym path = string

text \<open>A file's bytes as the running system reads them, and the bytes that are on disk.\<close>

record inode =
  cached :: string
  synced :: string
  mode :: nat

text \<open>
  \<open>live\<close> is the name space the running system sees and \<open>older\<close> the earlier versions of it that a
  power loss may bring back, newest first: an operation on names pushes the version before it, and
  flushing a directory makes its names agree in all of them. \<open>outside\<close> is the state of everything
  that the external programs keep for themselves, \<open>console\<close> what was printed.
\<close>

record 'e world =
  live :: "(path \<times> nat) list"
  older :: "(path \<times> nat) list list"
  inodes :: "nat \<Rightarrow> inode"
  fresh :: nat
  dirs :: "path list"
  faults :: "fault list"
  clock :: nat
  lock_taken :: bool
  lock_fd :: "nat option"
  console :: "string list"
  outside :: 'e

type_synonym ('e, 'a) io = "'e world \<Rightarrow> 'a outcome \<times> 'e world"

definition ret :: "'a \<Rightarrow> ('e, 'a) io" where
  "ret x w = (Done x, w)"

definition stop :: "stop \<Rightarrow> ('e, 'a) io" where
  "stop s w = (Stopped s, w)"

definition reads :: "('e world \<Rightarrow> 'a) \<Rightarrow> ('e, 'a) io" where
  "reads f w = (Done (f w), w)"

definition bind :: "('e, 'a) io \<Rightarrow> ('a \<Rightarrow> ('e, 'b) io) \<Rightarrow> ('e, 'b) io" where
  "bind m f w = (case m w of (Done x, w') \<Rightarrow> f x w' | (Stopped s, w') \<Rightarrow> (Stopped s, w'))"

text \<open>\<open>println!\<close> and \<open>eprintln!\<close>.\<close>

definition say :: "string \<Rightarrow> ('e, unit) io" where
  "say line w = (Done (), w\<lparr>console := console w @ [line]\<rparr>)"

text \<open>Rust's \<open>?\<close>: go on with the value, or return the error.\<close>

definition and_then :: "('e, 'x + 'a) io \<Rightarrow> ('a \<Rightarrow> ('e, 'x + 'b) io) \<Rightarrow> ('e, 'x + 'b) io" where
  "and_then m f = bind m (\<lambda>r. case r of Inl e \<Rightarrow> ret (Inl e) | Inr x \<Rightarrow> f x)"

definition mapping_err :: "('x \<Rightarrow> 'y) \<Rightarrow> ('e, 'x + 'a) io \<Rightarrow> ('e, 'y + 'a) io" where
  "mapping_err f m = bind m (\<lambda>r. ret (map_err f r))"

lemma ret_apply [io_simps]: "ret x w = (Done x, w)"
  by (simp add: ret_def)

lemma stop_apply [io_simps]: "stop s w = (Stopped s, w)"
  by (simp add: stop_def)

lemma reads_apply [io_simps]: "reads f w = (Done (f w), w)"
  by (simp add: reads_def)

lemma bind_ret [simp]: "bind (ret x) f = f x"
  by (simp add: bind_def ret_def fun_eq_iff)

lemma bind_reads [io_simps]: "bind (reads f) g w = g (f w) w"
  by (simp add: bind_def reads_def)

lemma bind_run:
  "m w = (Done x, w') \<Longrightarrow> bind m f w = f x w'" "m w = (Stopped s, w') \<Longrightarrow> bind m f w = (Stopped s, w')"
  by (simp_all add: bind_def)

lemma and_then_run:
  "m w = (Done (Inr x), w') \<Longrightarrow> and_then m g w = g x w'"
  "m w = (Done (Inl e), w') \<Longrightarrow> and_then m g w = (Done (Inl e), w')"
  "m w = (Stopped s, w') \<Longrightarrow> and_then m g w = (Stopped s, w')"
  by (simp_all add: and_then_def bind_def ret_def)

lemma bind_assoc: "bind (bind m f) g = bind m (\<lambda>x. bind (f x) g)"
  by (auto simp: bind_def fun_eq_iff split: prod.splits outcome.splits)

lemma and_then_ret [simp]: "and_then (ret (Inr x)) f = f x" "and_then (ret (Inl e)) f = ret (Inl e)"
  by (simp_all add: and_then_def)

lemma bind_Done_iff:
  "bind m f w = (Done y, w'') \<longleftrightarrow> (\<exists>x w'. m w = (Done x, w') \<and> f x w' = (Done y, w''))"
  by (auto simp: bind_def split: prod.splits outcome.splits)

lemma and_then_Ok_iff:
  "and_then m f w = (Done (Inr y), w'') \<longleftrightarrow>
     (\<exists>x w'. m w = (Done (Inr x), w') \<and> f x w' = (Done (Inr y), w''))"
  by (auto simp: and_then_def bind_def ret_def split: prod.splits outcome.splits sum.splits)

lemma mapping_err_Ok_iff:
  "mapping_err g m w = (Done (Inr y), w') \<longleftrightarrow> m w = (Done (Inr y), w')"
  by (auto simp: mapping_err_def bind_def ret_def split: prod.splits outcome.splits sum.splits)

subsection \<open>Specifications\<close>

text \<open>
  \<open>hoare P m Q C\<close>: started where \<open>P\<close> holds, \<open>m\<close> returns a result and a world that satisfy \<open>Q\<close>, or
  it stops (power loss included) in a world that satisfies \<open>C\<close>.
\<close>

definition hoare ::
  "('e world \<Rightarrow> bool) \<Rightarrow> ('e, 'a) io \<Rightarrow> ('a \<Rightarrow> 'e world \<Rightarrow> bool) \<Rightarrow> ('e world \<Rightarrow> bool) \<Rightarrow> bool" where
  "hoare P m Q C \<longleftrightarrow>
     (\<forall>w. P w \<longrightarrow>
        (\<forall>r w'. m w = (Done r, w') \<longrightarrow> Q r w') \<and> (\<forall>s w'. m w = (Stopped s, w') \<longrightarrow> C w'))"

lemma hoareI:
  assumes "\<And>w r w'. P w \<Longrightarrow> m w = (Done r, w') \<Longrightarrow> Q r w'"
    and "\<And>w s w'. P w \<Longrightarrow> m w = (Stopped s, w') \<Longrightarrow> C w'"
  shows "hoare P m Q C"
  using assms by (simp add: hoare_def)

lemma hoareD: "hoare P m Q C \<Longrightarrow> P w \<Longrightarrow> m w = (Done r, w') \<Longrightarrow> Q r w'"
  by (simp add: hoare_def)

lemma hoareD_stop: "hoare P m Q C \<Longrightarrow> P w \<Longrightarrow> m w = (Stopped s, w') \<Longrightarrow> C w'"
  by (simp add: hoare_def)

lemma hoare_weaken:
  assumes "hoare P m Q C" "\<And>w. P' w \<Longrightarrow> P w" "\<And>r w. Q r w \<Longrightarrow> Q' r w" "\<And>w. C w \<Longrightarrow> C' w"
  shows "hoare P' m Q' C'"
  using assms unfolding hoare_def by blast

lemma hoare_weaken_result:
  assumes "hoare P m (\<lambda>r. case r of Inl e \<Rightarrow> E e | Inr x \<Rightarrow> A x) C" and "\<And>w. P' w \<Longrightarrow> P w"
    and "\<And>e w. E e w \<Longrightarrow> Q (Inl e) w" and "\<And>x w. A x w \<Longrightarrow> Q (Inr x) w" and "\<And>w. C w \<Longrightarrow> C' w"
  shows "hoare P' m Q C'"
  using assms(1)
proof (rule hoare_weaken)
  show "Q r w" if "(case r of Inl e \<Rightarrow> E e | Inr x \<Rightarrow> A x) w" for r w
    using that assms(3,4) by (cases r) simp_all
qed (use assms in auto)

lemma hoare_ret: "(\<And>w. P w \<Longrightarrow> Q x w) \<Longrightarrow> hoare P (ret x) Q C"
  by (simp add: hoare_def ret_def)

lemma hoare_stop: "(\<And>w. P w \<Longrightarrow> C w) \<Longrightarrow> hoare P (stop s) Q C"
  by (simp add: hoare_def stop_def)

lemma hoare_reads: "(\<And>w. P w \<Longrightarrow> Q (f w) w) \<Longrightarrow> hoare P (reads f) Q C"
  by (simp add: hoare_def reads_def)

lemma hoare_bind:
  assumes "hoare P m R C" and "\<And>x. hoare (R x) (f x) Q C"
  shows "hoare P (bind m f) Q C"
proof (rule hoareI)
  fix w r w'
  assume P: "P w" and "bind m f w = (Done r, w')"
  then obtain x w1 where m: "m w = (Done x, w1)" and f: "f x w1 = (Done r, w')"
    by (auto simp: bind_Done_iff)
  from hoareD [OF assms(2) hoareD [OF assms(1) P m] f] show "Q r w'" .
next
  fix w s w'
  assume P: "P w" and "bind m f w = (Stopped s, w')"
  then consider "m w = (Stopped s, w')" | x w1 where "m w = (Done x, w1)" "f x w1 = (Stopped s, w')"
    by (auto simp: bind_def split: prod.splits outcome.splits)
  then show "C w'"
  proof cases
    case 1
    from hoareD_stop [OF assms(1) P 1] show ?thesis .
  next
    case 2
    from hoareD_stop [OF assms(2) hoareD [OF assms(1) P 2(1)] 2(2)] show ?thesis .
  qed
qed

lemma hoare_and_then:
  assumes "hoare P m (\<lambda>r. case r of Inl e \<Rightarrow> Q (Inl e) | Inr x \<Rightarrow> R x) C"
    and "\<And>x. hoare (R x) (f x) Q C"
  shows "hoare P (and_then m f) Q C"
  unfolding and_then_def
  by (rule hoare_bind [OF assms(1)]) (auto intro: hoare_ret assms(2) split: sum.split)

lemma hoare_mapping_err:
  assumes "hoare P m (\<lambda>r. Q (map_err f r)) C"
  shows "hoare P (mapping_err f m) Q C"
  unfolding mapping_err_def by (rule hoare_bind [OF assms]) (rule hoare_ret)

text \<open>An invariant that a computation keeps whether it returns or stops.\<close>

definition keeps :: "('e world \<Rightarrow> bool) \<Rightarrow> ('e, 'a) io \<Rightarrow> bool" where
  "keeps I m \<longleftrightarrow> (\<forall>w. I w \<longrightarrow> I (snd (m w)))"

lemma keeps_iff_hoare: "keeps I m \<longleftrightarrow> hoare I m (\<lambda>_. I) I"
proof
  assume "keeps I m"
  then have "\<And>w r w'. I w \<Longrightarrow> m w = (r, w') \<Longrightarrow> I w'" by (force simp: keeps_def)
  then show "hoare I m (\<lambda>_. I) I" by (intro hoareI) blast+
next
  assume h: "hoare I m (\<lambda>_. I) I"
  show "keeps I m"
    unfolding keeps_def
  proof (intro allI impI)
    fix w
    assume "I w"
    obtain r w' where m: "m w = (r, w')" by (cases "m w")
    have "I w'"
      using hoareD [OF h \<open>I w\<close>] hoareD_stop [OF h \<open>I w\<close>] m by (cases r) blast+
    with m show "I (snd (m w))" by simp
  qed
qed

lemma keepsD: "keeps I m \<Longrightarrow> I w \<Longrightarrow> m w = (r, w') \<Longrightarrow> I w'"
  by (force simp: keeps_def)

lemma keeps_ret [keeps_intros]: "keeps I (ret x)"
  by (simp add: keeps_def ret_def)

lemma keeps_stop [keeps_intros]: "keeps I (stop s)"
  by (simp add: keeps_def stop_def)

lemma keeps_reads [keeps_intros]: "keeps I (reads f)"
  by (simp add: keeps_def reads_def)

lemma keeps_bind [keeps_intros]: "keeps I m \<Longrightarrow> (\<And>x. keeps I (f x)) \<Longrightarrow> keeps I (bind m f)"
  unfolding keeps_def bind_def by (force split: prod.splits outcome.splits)

lemma keeps_and_then [keeps_intros]: "keeps I m \<Longrightarrow> (\<And>x. keeps I (f x)) \<Longrightarrow> keeps I (and_then m f)"
  unfolding and_then_def by (auto intro!: keeps_intros split: sum.split)

lemma keeps_mapping_err [keeps_intros]: "keeps I m \<Longrightarrow> keeps I (mapping_err f m)"
  unfolding mapping_err_def by (intro keeps_intros)

lemma keeps_if [keeps_intros]: "(b \<Longrightarrow> keeps I m) \<Longrightarrow> (\<not> b \<Longrightarrow> keeps I n) \<Longrightarrow> keeps I (if b then m else n)"
  by simp

lemma keeps_option [keeps_intros]:
  "(z = None \<Longrightarrow> keeps I m) \<Longrightarrow> (\<And>x. z = Some x \<Longrightarrow> keeps I (f x)) \<Longrightarrow>
     keeps I (case z of None \<Rightarrow> m | Some x \<Rightarrow> f x)"
  by (cases z) simp_all

lemma keeps_sum [keeps_intros]:
  "(\<And>x. z = Inl x \<Longrightarrow> keeps I (f x)) \<Longrightarrow> (\<And>y. z = Inr y \<Longrightarrow> keeps I (g y)) \<Longrightarrow>
     keeps I (case z of Inl x \<Rightarrow> f x | Inr y \<Rightarrow> g y)"
  by (cases z) simp_all

lemma keeps_list [keeps_intros]:
  "(z = [] \<Longrightarrow> keeps I m) \<Longrightarrow> (\<And>x xs. z = x # xs \<Longrightarrow> keeps I (f x xs)) \<Longrightarrow>
     keeps I (case z of [] \<Rightarrow> m | x # xs \<Rightarrow> f x xs)"
  by (cases z) simp_all

lemma keeps_prod [keeps_intros]:
  "(\<And>x y. z = (x, y) \<Longrightarrow> keeps I (f x y)) \<Longrightarrow> keeps I (case z of (x, y) \<Rightarrow> f x y)"
  by (cases z) simp_all

lemma keeps_Let [keeps_intros]: "keeps I (f x) \<Longrightarrow> keeps I (let y = x in f y)"
  by simp

text \<open>Invariants side by side, and one that a value read from the world depends on.\<close>

lemma keeps_conj: "keeps I m \<Longrightarrow> keeps J m \<Longrightarrow> keeps (\<lambda>w. I w \<and> J w) m"
  by (simp add: keeps_def)

lemma keeps_implies: "(b \<Longrightarrow> keeps I m) \<Longrightarrow> keeps (\<lambda>w. b \<longrightarrow> I w) m"
  by (simp add: keeps_def)

lemma keeps_bind_reads: "(\<And>w. I w \<Longrightarrow> keeps I (g (f w))) \<Longrightarrow> keeps I (bind (reads f) g)"
  by (simp add: keeps_def bind_reads)

text \<open>\<open>returns R m\<close>: whatever \<open>m\<close> returns satisfies \<open>R\<close>.\<close>

definition returns :: "('a \<Rightarrow> bool) \<Rightarrow> ('e, 'a) io \<Rightarrow> bool" where
  "returns R m \<longleftrightarrow> (\<forall>w x w'. m w = (Done x, w') \<longrightarrow> R x)"

lemma returnsD: "returns R m \<Longrightarrow> m w = (Done x, w') \<Longrightarrow> R x"
  by (auto simp: returns_def)

lemma returns_ret [returns_intros]: "R x \<Longrightarrow> returns R (ret x)"
  by (simp add: returns_def ret_def)

lemma returns_stop [returns_intros]: "returns R (stop s)"
  by (simp add: returns_def stop_def)

lemma returns_bind_from: "returns S m \<Longrightarrow> (\<And>x. S x \<Longrightarrow> returns R (f x)) \<Longrightarrow> returns R (bind m f)"
  unfolding returns_def bind_Done_iff by blast

lemma returns_bind [returns_intros]: "(\<And>x. returns R (f x)) \<Longrightarrow> returns R (bind m f)"
  unfolding returns_def bind_Done_iff by blast

lemma returns_cases [returns_intros]:
  "(b \<Longrightarrow> returns R m) \<Longrightarrow> (\<not> b \<Longrightarrow> returns R n) \<Longrightarrow> returns R (if b then m else n)"
  "(z = None \<Longrightarrow> returns R m) \<Longrightarrow> (\<And>x. z = Some x \<Longrightarrow> returns R (f x)) \<Longrightarrow>
     returns R (case z of None \<Rightarrow> m | Some x \<Rightarrow> f x)"
  "(\<And>x. y = Inl x \<Longrightarrow> returns R (g x)) \<Longrightarrow> (\<And>x. y = Inr x \<Longrightarrow> returns R (h x)) \<Longrightarrow>
     returns R (case y of Inl x \<Rightarrow> g x | Inr x \<Rightarrow> h x)"
  "(\<And>a b. q = (a, b) \<Longrightarrow> returns R (k a b)) \<Longrightarrow> returns R (case q of (a, b) \<Rightarrow> k a b)"
  by (auto split: option.split sum.split prod.split)

lemma keeps_bind_from:
  "keeps I m \<Longrightarrow> returns R m \<Longrightarrow> (\<And>x. R x \<Longrightarrow> keeps I (f x)) \<Longrightarrow> keeps I (bind m f)"
  unfolding keeps_def returns_def bind_def by (force split: prod.splits outcome.splits)

end
