(* ===== verification/File_System.thy ===== *)
theory File_System
  imports World
begin

text \<open>
  Paths, the primitive operations of \<open>std::fs\<close> and the file-system facts the agent's proofs rest
  on: what a power loss may leave at a path and which paths an operation leaves alone.
\<close>

section \<open>Paths\<close>

text \<open>\<open>Path::join\<close>, \<open>Path::parent\<close> and \<open>Path::file_name\<close> on paths without redundant separators.\<close>

definition join :: "path \<Rightarrow> string \<Rightarrow> path" where
  "join d n =
     (if starts_with ''/'' n then n
      else if d = [] \<or> last d = CHR ''/'' then d @ n
      else d @ ''/'' @ n)"

definition file_part :: "path \<Rightarrow> string" where
  "file_part p = rev (takeWhile (\<lambda>c. c \<noteq> CHR ''/'') (rev p))"

definition dir_part :: "path \<Rightarrow> string" where
  "dir_part p = rev (dropWhile (\<lambda>c. c \<noteq> CHR ''/'') (rev p))"

definition parent :: "path \<Rightarrow> path option" where
  "parent p =
     (if p = [] \<or> p = ''/'' then None
      else if dir_part p = ''/'' then Some ''/''
      else Some (butlast (dir_part p)))"

definition file_name :: "path \<Rightarrow> string option" where
  "file_name p = (let n = file_part p in if n \<in> {[], ''.'', ''..''} then None else Some n)"

definition is_absolute :: "path \<Rightarrow> bool" where
  "is_absolute p \<longleftrightarrow> starts_with ''/'' p"

lemma file_part_join: "CHR ''/'' \<notin> set n \<Longrightarrow> file_part (d @ CHR ''/'' # n) = n"
  by (simp add: file_part_def takeWhile_append takeWhile_eq_all_conv [THEN iffD2])

lemma dir_part_join: "CHR ''/'' \<notin> set n \<Longrightarrow> dir_part (d @ CHR ''/'' # n) = d @ ''/''"
  by (simp add: dir_part_def dropWhile_append dropWhile_eq_Nil_conv [THEN iffD2])

lemma dir_file_part: "dir_part p @ file_part p = p"
  unfolding dir_part_def file_part_def
  by (metis rev_append rev_rev_ident takeWhile_dropWhile_id)

lemma parent_shorter: "parent p = Some q \<Longrightarrow> length q < length p"
proof -
  assume q: "parent p = Some q"
  then have "p \<noteq> []" "p \<noteq> ''/''" by (auto simp: parent_def split: if_splits)
  have len: "length p = length (dir_part p) + length (file_part p)"
    by (metis dir_file_part length_append)
  show ?thesis
  proof (cases "dir_part p = ''/''")
    case True
    with dir_file_part [of p] \<open>p \<noteq> ''/''\<close> have "file_part p \<noteq> []" by auto
    with True q len \<open>p \<noteq> []\<close> \<open>p \<noteq> ''/''\<close> show ?thesis by (auto simp: parent_def)
  next
    case False
    with q \<open>p \<noteq> []\<close> \<open>p \<noteq> ''/''\<close> have "q = butlast (dir_part p)" by (simp add: parent_def)
    with len \<open>p \<noteq> []\<close> show ?thesis by (cases "dir_part p") auto
  qed
qed

text \<open>A plain name under a plain directory.\<close>

lemma join_plain [path_simps]:
  "n \<noteq> [] \<Longrightarrow> CHR ''/'' \<notin> set n \<Longrightarrow> d \<noteq> [] \<Longrightarrow> last d \<noteq> CHR ''/'' \<Longrightarrow> join d n = d @ CHR ''/'' # n"
  by (cases n) (auto simp: join_def starts_with_def)

lemma parent_plain [path_simps]:
  "CHR ''/'' \<notin> set n \<Longrightarrow> d \<noteq> [] \<Longrightarrow> d \<noteq> ''/'' \<Longrightarrow> parent (d @ CHR ''/'' # n) = Some d"
  by (auto simp: parent_def dir_part_join append_eq_Cons_conv)

lemma file_name_plain [path_simps]:
  "CHR ''/'' \<notin> set n \<Longrightarrow> n \<notin> {[], ''.'', ''..''} \<Longrightarrow> file_name (d @ CHR ''/'' # n) = Some n"
  by (simp add: file_name_def file_part_join)

function ancestors :: "path \<Rightarrow> path list" where
  "ancestors p = p # (case parent p of None \<Rightarrow> [] | Some q \<Rightarrow> ancestors q)"
  by pat_completeness auto
termination by (relation "measure length") (auto dest: parent_shorter)

declare ancestors.simps [simp del]

lemma ancestors_self [simp]: "p \<in> set (ancestors p)"
  by (subst ancestors.simps) simp

section \<open>Reading the world\<close>

definition versions :: "'e world \<Rightarrow> (path \<times> nat) list list" where
  "versions w = live w # older w"

text \<open>What the running system sees at a path, and what a power loss may leave there.\<close>

definition now :: "'e world \<Rightarrow> path \<Rightarrow> inode option" where
  "now w p = map_option (inodes w) (map_of (live w) p)"

definition past :: "'e world \<Rightarrow> path \<Rightarrow> inode option set" where
  "past w p = (\<lambda>v. map_option (inodes w) (map_of v p)) ` set (versions w)"

definition bytes_at :: "'e world \<Rightarrow> path \<Rightarrow> string option" where
  "bytes_at w p = map_option cached (now w p)"

definition exists_path :: "'e world \<Rightarrow> path \<Rightarrow> bool" where
  "exists_path w p \<longleftrightarrow> p \<in> set (dirs w) \<or> map_of (live w) p \<noteq> None"

definition has_parent :: "'e world \<Rightarrow> path \<Rightarrow> bool" where
  "has_parent w p \<longleftrightarrow> (case parent p of None \<Rightarrow> False | Some d \<Rightarrow> d \<in> set (dirs w))"

section \<open>Primitive operations\<close>

text \<open>
  A primitive operation takes the next element of the fault schedule. \<open>part n\<close> is what is left of
  an operation that failed or lost power after \<open>n\<close> bytes.
\<close>

definition prim ::
  "(nat \<Rightarrow> 'e world \<Rightarrow> 'e world) \<Rightarrow> ('e world \<Rightarrow> (io_error + 'a) \<times> 'e world) \<Rightarrow> ('e, io_error + 'a) io" where
  "prim part act w =
     (case faults w of
        [] \<Rightarrow> (case act w of (r, w') \<Rightarrow> (Done r, w'))
      | f # fs \<Rightarrow>
          (case f of
             Fine \<Rightarrow> (case act (w\<lparr>faults := fs\<rparr>) of (r, w') \<Rightarrow> (Done r, w'))
           | Fails e n \<Rightarrow> (Done (Err e), part n (w\<lparr>faults := fs\<rparr>))
           | Cut n \<Rightarrow> (Stopped PowerLoss, part n (w\<lparr>faults := fs\<rparr>))))"

definition nothing :: "nat \<Rightarrow> 'e world \<Rightarrow> 'e world" where
  "nothing n w = w"

definition not_found :: io_error where
  "not_found = IoError NotFound ''No such file or directory (os error 2)''"

definition set_inode :: "nat \<Rightarrow> inode \<Rightarrow> 'e world \<Rightarrow> 'e world" where
  "set_inode i x w = w\<lparr>inodes := (inodes w)(i := x)\<rparr>"

text \<open>An equation for evaluation: the inode and the table are values before they are stored.\<close>

lemma set_inode_strict [code]:
  "set_inode i x \<lparr>live = l, older = old, inodes = f, fresh = n, dirs = d, faults = fs, clock = c,
     lock_taken = t, lock_fd = fd, console = out, outside = e\<rparr> =
   \<lparr>live = l, older = old, inodes = (\<lambda>j. if j = i then x else f j), fresh = n, dirs = d, faults = fs,
     clock = c, lock_taken = t, lock_fd = fd, console = out, outside = e\<rparr>"
  by (simp add: set_inode_def fun_upd_def)

definition set_names :: "(path \<times> nat) list \<Rightarrow> 'e world \<Rightarrow> 'e world" where
  "set_names al w = w\<lparr>live := al, older := live w # older w\<rparr>"

definition new_file :: "path \<Rightarrow> 'e world \<Rightarrow> 'e world" where
  "new_file p w =
     set_names (AList.update p (fresh w) (live w))
       (set_inode (fresh w) \<lparr>cached = [], synced = [], mode = 420\<rparr> (w\<lparr>fresh := Suc (fresh w)\<rparr>))"

text \<open>Opening and reading. A \<open>File\<close> is its inode.\<close>

definition fs_open :: "path \<Rightarrow> ('e, io_error + nat) io" where
  "fs_open p =
     prim nothing (\<lambda>w. case map_of (live w) p of None \<Rightarrow> (Err not_found, w) | Some i \<Rightarrow> (Ok i, w))"

definition fs_open_dir :: "path \<Rightarrow> ('e, io_error + unit) io" where
  "fs_open_dir d = prim nothing (\<lambda>w. if d \<in> set (dirs w) then (Ok (), w) else (Err not_found, w))"

definition fs_read :: "path \<Rightarrow> ('e, io_error + string) io" where
  "fs_read p =
     prim nothing (\<lambda>w. case bytes_at w p of None \<Rightarrow> (Err not_found, w) | Some b \<Rightarrow> (Ok b, w))"

definition fs_read_to_string :: "path \<Rightarrow> ('e, io_error + string) io" where
  "fs_read_to_string p =
     prim nothing (\<lambda>w. case bytes_at w p of
         None \<Rightarrow> (Err not_found, w)
       | Some b \<Rightarrow>
           (if utf8_valid b then Ok b
            else Err (IoError InvalidData ''stream did not contain valid UTF-8''), w))"

definition file_len :: "nat \<Rightarrow> 'e world \<Rightarrow> u64" where
  "file_len i w = word_of_nat (length (cached (inodes w i)))"

definition fs_len :: "nat \<Rightarrow> ('e, io_error + u64) io" where
  "fs_len i = prim nothing (\<lambda>w. (Ok (file_len i w), w))"

definition fs_metadata_len :: "path \<Rightarrow> ('e, io_error + u64) io" where
  "fs_metadata_len p =
     prim nothing (\<lambda>w. case map_of (live w) p of
         None \<Rightarrow> (if p \<in> set (dirs w) then Ok 4096 else Err not_found, w)
       | Some i \<Rightarrow> (Ok (file_len i w), w))"

definition fs_permissions :: "nat \<Rightarrow> ('e, io_error + nat) io" where
  "fs_permissions i = prim nothing (\<lambda>w. (Ok (mode (inodes w i)), w))"

text \<open>The files and directories right under a directory, in the order the system lists them.\<close>

definition fs_read_dir :: "path \<Rightarrow> ('e, io_error + path list) io" where
  "fs_read_dir d =
     prim nothing (\<lambda>w. if d \<in> set (dirs w)
       then (Ok (filter (\<lambda>p. parent p = Some d) (map fst (live w) @ dirs w)), w)
       else (Err not_found, w))"

text \<open>Taking the next entry of a directory that is being read, and the type of an entry.\<close>

definition fs_next_entry :: "path \<Rightarrow> ('e, io_error + path) io" where
  "fs_next_entry p = prim nothing (\<lambda>w. (Ok p, w))"

definition fs_is_file :: "path \<Rightarrow> ('e, io_error + bool) io" where
  "fs_is_file p = prim nothing (\<lambda>w. (Ok (map_of (live w) p \<noteq> None), w))"

text \<open>Creating, writing and flushing.\<close>

definition fs_create_new :: "path \<Rightarrow> ('e, io_error + nat) io" where
  "fs_create_new p =
     prim nothing (\<lambda>w.
       if exists_path w p then (Err (IoError AlreadyExists ''File exists (os error 17)''), w)
       else if \<not> has_parent w p then (Err not_found, w)
       else (Ok (fresh w), new_file p w))"

definition fs_create :: "path \<Rightarrow> ('e, io_error + nat) io" where
  "fs_create p =
     prim nothing (\<lambda>w.
       if p \<in> set (dirs w) then (Err (IoError OtherIo ''Is a directory (os error 21)''), w)
       else case map_of (live w) p of
         Some i \<Rightarrow> (Ok i, set_inode i ((inodes w i)\<lparr>cached := []\<rparr>) w)
       | None \<Rightarrow> if has_parent w p then (Ok (fresh w), new_file p w) else (Err not_found, w))"

definition append_bytes :: "nat \<Rightarrow> string \<Rightarrow> 'e world \<Rightarrow> 'e world" where
  "append_bytes i b w = set_inode i ((inodes w i)\<lparr>cached := cached (inodes w i) @ b\<rparr>) w"

definition fs_write_all :: "nat \<Rightarrow> string \<Rightarrow> ('e, io_error + unit) io" where
  "fs_write_all i b = prim (\<lambda>n. append_bytes i (take n b)) (\<lambda>w. (Ok (), append_bytes i b w))"

text \<open>\<open>io::copy(&mut input.take(limit), &mut output)\<close> from the start of \<open>src\<close>.\<close>

definition fs_copy :: "nat \<Rightarrow> nat \<Rightarrow> u64 \<Rightarrow> ('e, io_error + u64) io" where
  "fs_copy src dst limit =
     prim (\<lambda>n w. append_bytes dst (take n (take (unat limit) (cached (inodes w src)))) w)
       (\<lambda>w. let b = take (unat limit) (cached (inodes w src))
            in (Ok (word_of_nat (length b)), append_bytes dst b w))"

definition fs_set_permissions :: "nat \<Rightarrow> nat \<Rightarrow> ('e, io_error + unit) io" where
  "fs_set_permissions i m =
     prim nothing (\<lambda>w. (Ok (), set_inode i ((inodes w i)\<lparr>mode := m\<rparr>) w))"

definition fs_set_path_permissions :: "path \<Rightarrow> nat \<Rightarrow> ('e, io_error + unit) io" where
  "fs_set_path_permissions p m =
     prim nothing (\<lambda>w. case map_of (live w) p of
         None \<Rightarrow> (if p \<in> set (dirs w) then Ok () else Err not_found, w)
       | Some i \<Rightarrow> (Ok (), set_inode i ((inodes w i)\<lparr>mode := m\<rparr>) w))"

definition fs_sync_file :: "nat \<Rightarrow> ('e, io_error + unit) io" where
  "fs_sync_file i =
     prim nothing (\<lambda>w. (Ok (), set_inode i ((inodes w i)\<lparr>synced := cached (inodes w i)\<rparr>) w))"

text \<open>Flushing a directory makes its names in every older version those of the live one.\<close>

definition settle :: "path \<Rightarrow> (path \<times> nat) list \<Rightarrow> (path \<times> nat) list \<Rightarrow> (path \<times> nat) list" where
  "settle d l v =
     filter (\<lambda>x. parent (fst x) = Some d) l @ filter (\<lambda>x. \<not> parent (fst x) = Some d) v"

definition fs_sync_dir :: "path \<Rightarrow> ('e, io_error + unit) io" where
  "fs_sync_dir d = prim nothing (\<lambda>w. (Ok (), w\<lparr>older := map (settle d (live w)) (older w)\<rparr>))"

text \<open>Names.\<close>

definition fs_rename :: "path \<Rightarrow> path \<Rightarrow> ('e, io_error + unit) io" where
  "fs_rename s t =
     prim nothing (\<lambda>w. case map_of (live w) s of
         None \<Rightarrow> (Err not_found, w)
       | Some i \<Rightarrow>
           if has_parent w t then (Ok (), set_names (AList.update t i (AList.delete s (live w))) w)
           else (Err not_found, w))"

definition fs_remove_file :: "path \<Rightarrow> ('e, io_error + unit) io" where
  "fs_remove_file p =
     prim nothing (\<lambda>w. case map_of (live w) p of
         None \<Rightarrow> (if p \<in> set (dirs w) then Err (IoError OtherIo ''Is a directory (os error 21)'')
                  else Err not_found, w)
       | Some i \<Rightarrow> (Ok (), set_names (AList.delete p (live w)) w))"

definition fs_create_dir_all :: "path \<Rightarrow> ('e, io_error + unit) io" where
  "fs_create_dir_all d =
     prim nothing (\<lambda>w. (Ok (), w\<lparr>dirs := filter (\<lambda>a. a \<notin> set (dirs w)) (ancestors d) @ dirs w\<rparr>))"

text \<open>The clock, in nanoseconds.\<close>

definition sleep :: "nat \<Rightarrow> ('e, unit) io" where
  "sleep d w = (Done (), w\<lparr>clock := clock w + d\<rparr>)"

end
