(* ===== verification/Frames.thy ===== *)
theory Frames
  imports File_System
begin

text \<open>
  Which paths an operation leaves alone and what a power loss may leave at a path. \<open>frame p w w'\<close>
  says that between the two worlds nothing happened to \<open>p\<close>: the running system reads the same
  there, and a power loss can bring back nothing new.
\<close>

section \<open>Well-formed worlds\<close>

text \<open>
  Every version of the name space points at allocated inodes, and the inode of a temporary file
  (a name that ends in \<open>.new\<close>) is reached under no other name.
\<close>

definition temporary :: "path \<Rightarrow> bool" where
  "temporary p \<longleftrightarrow> ends_with ''.new'' p"

definition points :: "'e world \<Rightarrow> path \<Rightarrow> nat \<Rightarrow> bool" where
  "points w p i \<longleftrightarrow> (\<exists>v \<in> set (versions w). map_of v p = Some i)"

definition coherent :: "'e world \<Rightarrow> bool" where
  "coherent w \<longleftrightarrow>
     (\<forall>p i. points w p i \<longrightarrow> i < fresh w) \<and>
     (\<forall>p q i. temporary q \<longrightarrow> map_of (live w) q = Some i \<longrightarrow> points w p i \<longrightarrow> p = q)"

definition frame :: "path \<Rightarrow> 'e world \<Rightarrow> 'e world \<Rightarrow> bool" where
  "frame p w w' \<longleftrightarrow> now w' p = now w p \<and> past w' p \<subseteq> past w p"

text \<open>The paths that the agent's own files and the sealed identity of the base occupy.\<close>

definition survives :: "'e world \<Rightarrow> path \<Rightarrow> (string option \<Rightarrow> bool) \<Rightarrow> bool" where
  "survives w p Q \<longleftrightarrow>
     (\<forall>x \<in> past w p. case x of None \<Rightarrow> Q None | Some n \<Rightarrow> cached n = synced n \<and> Q (Some (cached n)))"

text \<open>
  A power loss: the system comes back with one of the versions of the name space, and a file whose
  bytes were not all flushed may hold anything.
\<close>

definition power_loss :: "'e world \<Rightarrow> 'e world \<Rightarrow> bool" where
  "power_loss w w' \<longleftrightarrow>
     live w' \<in> set (versions w) \<and> older w' = [] \<and>
     (\<forall>i. cached (inodes w i) = synced (inodes w i) \<longrightarrow> inodes w' i = inodes w i)"

lemma frame_refl [simp]: "frame p w w"
  by (simp add: frame_def)

lemma frame_trans: "frame p u v \<Longrightarrow> frame p v w \<Longrightarrow> frame p u w"
  by (auto simp: frame_def)

lemma frame_bytes_at: "frame p w w' \<Longrightarrow> bytes_at w' p = bytes_at w p"
  by (simp add: frame_def bytes_at_def)

lemma frame_survives: "frame p w w' \<Longrightarrow> survives w p Q \<Longrightarrow> survives w' p Q"
  by (auto simp: frame_def survives_def)

lemma now_in_past: "now w p \<in> past w p"
  by (auto simp: now_def past_def versions_def)

lemma bytes_at_now: "bytes_at w p = (case now w p of None \<Rightarrow> None | Some n \<Rightarrow> Some (cached n))"
  by (simp add: bytes_at_def map_option_case)

lemma survives_now: "survives w p Q \<Longrightarrow> Q (bytes_at w p)"
  using now_in_past [of w p] by (force simp: survives_def bytes_at_now split: option.splits)

lemma survives_mono: "survives w p Q \<Longrightarrow> (\<And>x. Q x \<Longrightarrow> R x) \<Longrightarrow> survives w p R"
  by (force simp: survives_def split: option.splits)

text \<open>What \<open>survives\<close> promises is what is read after any power loss.\<close>

lemma survives_power_loss:
  assumes "survives w p Q" and "power_loss w w'"
  shows "Q (bytes_at w' p)"
proof -
  have v: "live w' \<in> set (versions w)"
    and keep: "\<And>i. cached (inodes w i) = synced (inodes w i) \<Longrightarrow> inodes w' i = inodes w i"
    using assms(2) by (auto simp: power_loss_def)
  have "map_option (inodes w) (map_of (live w') p) \<in> past w p"
    using v by (auto simp: past_def)
  then show ?thesis
    using assms(1) keep
    by (cases "map_of (live w') p") (force simp: survives_def bytes_at_def now_def)+
qed

section \<open>The effect of the primitive changes\<close>

lemma now_set_inode: "now (set_inode i x w) p =
    (if map_of (live w) p = Some i then Some x else now w p)"
  by (cases "map_of (live w) p") (auto simp: now_def set_inode_def)

lemma versions_set_inode [simp]: "versions (set_inode i x w) = versions w"
  by (simp add: versions_def set_inode_def)

lemma versions_set_names: "versions (set_names al w) = al # versions w"
  by (simp add: versions_def set_names_def)

lemma points_set_inode [simp]: "points (set_inode i x w) = points w"
  by (simp add: points_def fun_eq_iff)

lemma live_set_inode [simp]: "live (set_inode i x w) = live w"
  by (simp add: set_inode_def)

lemma fresh_set_inode [simp]: "fresh (set_inode i x w) = fresh w"
  by (simp add: set_inode_def)

lemma coherent_set_inode [simp]: "coherent (set_inode i x w) = coherent w"
  by (simp add: coherent_def)

lemma frame_set_inode: "\<not> points w p i \<Longrightarrow> frame p w (set_inode i x w)"
proof -
  assume i: "\<not> points w p i"
  have eq: "map_option ((inodes w)(i := x)) (map_of v p) = map_option (inodes w) (map_of v p)"
    if "v \<in> set (versions w)" for v
    using i that by (cases "map_of v p") (auto simp: points_def)
  have "past (set_inode i x w) p = past w p"
    unfolding past_def versions_set_inode by (rule image_cong) (simp_all add: eq set_inode_def)
  moreover have "now (set_inode i x w) p = now w p"
    using eq [of "live w"] by (simp add: now_def set_inode_def versions_def)
  ultimately show ?thesis by (simp add: frame_def)
qed

text \<open>Fields that the views do not depend on.\<close>

lemma views_faults [simp]:
  "now (w\<lparr>faults := f\<rparr>) = now w" "past (w\<lparr>faults := f\<rparr>) = past w" "points (w\<lparr>faults := f\<rparr>) = points w"
  "coherent (w\<lparr>faults := f\<rparr>) = coherent w" "frame p u (w\<lparr>faults := f\<rparr>) = frame p u w"
  "bytes_at (w\<lparr>faults := f\<rparr>) = bytes_at w" "exists_path (w\<lparr>faults := f\<rparr>) = exists_path w"
  "survives (w\<lparr>faults := f\<rparr>) = survives w"
  by (simp_all add: now_def past_def points_def versions_def coherent_def frame_def bytes_at_def
      exists_path_def survives_def fun_eq_iff)

lemma views_dirs [simp]:
  "now (w\<lparr>dirs := f\<rparr>) = now w" "past (w\<lparr>dirs := f\<rparr>) = past w" "points (w\<lparr>dirs := f\<rparr>) = points w"
  "coherent (w\<lparr>dirs := f\<rparr>) = coherent w" "frame p u (w\<lparr>dirs := f\<rparr>) = frame p u w"
  "bytes_at (w\<lparr>dirs := f\<rparr>) = bytes_at w"
  by (simp_all add: now_def past_def points_def versions_def coherent_def frame_def bytes_at_def fun_eq_iff)

lemma views_clock [simp]:
  "now (w\<lparr>clock := f\<rparr>) = now w" "past (w\<lparr>clock := f\<rparr>) = past w" "points (w\<lparr>clock := f\<rparr>) = points w"
  "coherent (w\<lparr>clock := f\<rparr>) = coherent w" "frame p u (w\<lparr>clock := f\<rparr>) = frame p u w"
  "bytes_at (w\<lparr>clock := f\<rparr>) = bytes_at w"
  by (simp_all add: now_def past_def points_def versions_def coherent_def frame_def bytes_at_def fun_eq_iff)

lemma views_locks [simp]:
  "now (w\<lparr>lock_taken := f\<rparr>) = now w" "past (w\<lparr>lock_taken := f\<rparr>) = past w"
  "coherent (w\<lparr>lock_taken := f\<rparr>) = coherent w" "frame p u (w\<lparr>lock_taken := f\<rparr>) = frame p u w"
  "now (w\<lparr>lock_fd := g\<rparr>) = now w" "past (w\<lparr>lock_fd := g\<rparr>) = past w"
  "coherent (w\<lparr>lock_fd := g\<rparr>) = coherent w" "frame p u (w\<lparr>lock_fd := g\<rparr>) = frame p u w"
  by (simp_all add: now_def past_def points_def versions_def coherent_def frame_def fun_eq_iff)

lemma views_console [simp]:
  "now (w\<lparr>console := f\<rparr>) = now w" "past (w\<lparr>console := f\<rparr>) = past w"
  "coherent (w\<lparr>console := f\<rparr>) = coherent w" "frame p u (w\<lparr>console := f\<rparr>) = frame p u w"
  by (simp_all add: now_def past_def points_def versions_def coherent_def frame_def fun_eq_iff)

lemma coherent_pointsD: "coherent w \<Longrightarrow> points w p i \<Longrightarrow> i < fresh w"
  by (simp add: coherent_def)

lemma points_live: "map_of (live w) p = Some i \<Longrightarrow> points w p i"
  by (auto simp: points_def versions_def)

lemma coherent_temporaryD: "coherent w \<Longrightarrow> temporary q \<Longrightarrow> map_of (live w) q = Some i \<Longrightarrow> points w p i \<Longrightarrow> p = q"
  unfolding coherent_def by blast

text \<open>Names.\<close>

lemma frame_set_names:
  "map_of al p = map_of (live w) p \<Longrightarrow> frame p w (set_names al w)"
  by (auto simp: frame_def now_def past_def versions_def set_names_def)

lemma points_set_names: "points (set_names al w) p i \<longleftrightarrow> map_of al p = Some i \<or> points w p i"
  by (auto simp: points_def versions_set_names)

lemma live_set_names [simp]: "live (set_names al w) = al"
  by (simp add: set_names_def)

lemma fresh_set_names [simp]: "fresh (set_names al w) = fresh w"
  by (simp add: set_names_def)

lemma frame_fresh [simp]: "frame p w (w\<lparr>fresh := n\<rparr>)" "points (w\<lparr>fresh := n\<rparr>) = points w"
  by (auto simp: frame_def now_def past_def versions_def points_def fun_eq_iff)

text \<open>A new file.\<close>

lemma new_file_frame:
  assumes "coherent w" and "q \<noteq> p"
  shows "frame q w (new_file p w)"
proof -
  let ?u = "set_inode (fresh w) \<lparr>cached = [], synced = [], mode = 420\<rparr> (w\<lparr>fresh := Suc (fresh w)\<rparr>)"
  have "\<not> points w q (fresh w)" using assms(1) coherent_pointsD by blast
  then have "frame q (w\<lparr>fresh := Suc (fresh w)\<rparr>) ?u" by (intro frame_set_inode) simp
  then have "frame q w ?u" using frame_fresh frame_trans by blast
  moreover have "frame q ?u (set_names (AList.update p (fresh w) (live w)) ?u)"
    using assms(2) by (intro frame_set_names) (simp add: set_inode_def)
  ultimately show ?thesis unfolding new_file_def by (rule frame_trans)
qed

lemma new_file_points:
  "points (new_file p w) q i \<longleftrightarrow> (q = p \<and> i = fresh w) \<or> (q \<noteq> p \<and> map_of (live w) q = Some i) \<or> points w q i"
  by (auto simp: new_file_def points_set_names split: if_splits)

lemma live_new_file [simp]: "live (new_file p w) = AList.update p (fresh w) (live w)"
  by (simp add: new_file_def)

lemma fresh_new_file [simp]: "fresh (new_file p w) = Suc (fresh w)"
  by (simp add: new_file_def)

lemma inodes_new_file [simp]:
  "inodes (new_file p w) = (inodes w)(fresh w := \<lparr>cached = [], synced = [], mode = 420\<rparr>)"
  by (simp add: new_file_def set_names_def set_inode_def)

lemma new_file_coherent:
  assumes "coherent w"
  shows "coherent (new_file p w)"
proof -
  have new: "\<not> points w q (fresh w)" for q using assms coherent_pointsD by blast
  have old: "map_of (live w) q = Some i \<Longrightarrow> points w q i" for q i by (rule points_live)
  show ?thesis
    unfolding coherent_def
  proof (intro conjI allI impI)
    fix q i
    assume "points (new_file p w) q i"
    then show "i < fresh (new_file p w)"
      using assms old coherent_pointsD by (fastforce simp: new_file_points)
  next
    fix q r i
    assume "temporary r" "map_of (live (new_file p w)) r = Some i" "points (new_file p w) q i"
    then show "q = r"
      using assms new old coherent_temporaryD [OF assms]
      by (auto simp: new_file_points split: if_splits)
  qed
qed

text \<open>Flushing a directory.\<close>

lemma map_of_settle:
  "map_of (settle d l v) p = (if parent p = Some d then map_of l p else map_of v p)"
  using map_of_append_filtered [of "\<lambda>p. parent p = Some d" l v p] by (simp add: settle_def)

definition flush_dir :: "path \<Rightarrow> 'e world \<Rightarrow> 'e world" where
  "flush_dir d w = w\<lparr>older := map (settle d (live w)) (older w)\<rparr>"

lemma points_flush_dir: "points (flush_dir d w) p i \<Longrightarrow> points w p i"
  by (auto simp: points_def versions_def flush_dir_def map_of_settle split: if_splits)

lemma frame_flush_dir: "frame p w (flush_dir d w)"
  by (auto simp: frame_def now_def past_def versions_def flush_dir_def map_of_settle)

lemma past_flush_dir: "parent p = Some d \<Longrightarrow> past (flush_dir d w) p = {now w p}"
  by (auto simp: now_def past_def versions_def flush_dir_def map_of_settle)

lemma coherent_flush_dir: "coherent w \<Longrightarrow> coherent (flush_dir d w)"
  using points_flush_dir [of d w] unfolding coherent_def
  by (auto simp: flush_dir_def)

lemma fs_sync_dir_alt: "fs_sync_dir d = prim nothing (\<lambda>w. (Ok (), flush_dir d w))"
  by (simp add: fs_sync_dir_def flush_dir_def)

text \<open>Renaming and removing.\<close>

lemma coherent_rename:
  assumes "coherent w" "map_of (live w) s = Some i" "\<not> temporary t"
  shows "coherent (set_names (AList.update t i (AList.delete s (live w))) w)"
  unfolding coherent_def
proof (intro conjI allI impI)
  fix p j
  assume "points (set_names (AList.update t i (AList.delete s (live w))) w) p j"
  then have "points w p j \<or> j = i \<or> points w s j"
    by (auto simp: points_set_names dest: points_live split: if_splits)
  then show "j < fresh (set_names (AList.update t i (AList.delete s (live w))) w)"
    using assms points_live coherent_pointsD by fastforce
next
  fix p q j
  assume q: "temporary q" and l: "map_of (live (set_names (AList.update t i (AList.delete s (live w))) w)) q = Some j"
    and p: "points (set_names (AList.update t i (AList.delete s (live w))) w) p j"
  from q assms(3) have "q \<noteq> t" by auto
  with l have lq: "map_of (live w) q = Some j" "q \<noteq> s" by (auto split: if_splits)
  from p have "points w p j \<or> (p = t \<and> j = i)"
    by (auto simp: points_set_names dest: points_live split: if_splits)
  then show "p = q"
  proof
    assume "points w p j"
    with assms(1) q lq(1) show ?thesis using coherent_temporaryD by blast
  next
    assume "p = t \<and> j = i"
    with assms(2) have "points w s j" by (auto intro: points_live)
    with assms(1) q lq show ?thesis using coherent_temporaryD by blast
  qed
qed

lemma coherent_remove:
  assumes "coherent w"
  shows "coherent (set_names (AList.delete p (live w)) w)"
  unfolding coherent_def
proof (intro conjI allI impI)
  fix q i
  assume "points (set_names (AList.delete p (live w)) w) q i"
  then have "points w q i" by (auto simp: points_set_names dest: points_live split: if_splits)
  with assms show "i < fresh (set_names (AList.delete p (live w)) w)" using coherent_pointsD by fastforce
next
  fix q r i
  assume "temporary r" "map_of (live (set_names (AList.delete p (live w)) w)) r = Some i"
    "points (set_names (AList.delete p (live w)) w) q i"
  then have "temporary r" "map_of (live w) r = Some i" "points w q i"
    by (auto simp: points_set_names dest: points_live split: if_splits)
  with assms show "q = r" using coherent_temporaryD by blast
qed

section \<open>Operations that leave a path alone\<close>

text \<open>\<open>stays p u w\<close>: the world \<open>w\<close>, reached from \<open>u\<close>, is coherent and nothing happened to \<open>p\<close>.\<close>

definition stays :: "path \<Rightarrow> 'e world \<Rightarrow> 'e world \<Rightarrow> bool" where
  "stays p u w \<longleftrightarrow> coherent w \<and> frame p u w"

lemma stays_self [simp]: "stays p w w = coherent w"
  by (simp add: stays_def)

lemma stays_coherent: "stays p u w \<Longrightarrow> coherent w"
  by (simp add: stays_def)

lemma stays_step: "stays p u w \<Longrightarrow> coherent w' \<Longrightarrow> frame p w w' \<Longrightarrow> stays p u w'"
  using frame_trans by (auto simp: stays_def)

lemma stays_views [simp]:
  "stays p u (w\<lparr>faults := f\<rparr>) = stays p u w" "stays p u (w\<lparr>dirs := d\<rparr>) = stays p u w"
  "stays p u (w\<lparr>clock := c\<rparr>) = stays p u w" "stays p u (w\<lparr>lock_taken := l\<rparr>) = stays p u w"
  "stays p u (w\<lparr>lock_fd := g\<rparr>) = stays p u w" "stays p u (w\<lparr>console := x\<rparr>) = stays p u w"
  by (simp_all add: stays_def)

lemma keeps_prim:
  assumes "\<And>w f. I w \<Longrightarrow> I (w\<lparr>faults := f\<rparr>)" and "\<And>w n. I w \<Longrightarrow> I (part n w)"
    and "\<And>w. I w \<Longrightarrow> I (snd (act w))"
  shows "keeps I (prim part act)"
  using assms by (auto simp: keeps_def prim_def split: list.splits fault.splits prod.splits)
    (metis snd_conv)+

lemma hoare_prim:
  assumes "\<And>w f. P w \<Longrightarrow> P (w\<lparr>faults := f\<rparr>)"
    and "\<And>w e n. P w \<Longrightarrow> Q (Inl e) (part n w)" and "\<And>w n. P w \<Longrightarrow> C (part n w)"
    and "\<And>w r w'. P w \<Longrightarrow> act w = (r, w') \<Longrightarrow> Q r w'"
  shows "hoare P (prim part act) Q C"
proof -
  have fine: "act (w\<lparr>faults := f\<rparr>) = (r, w') \<Longrightarrow> P w \<Longrightarrow> Q r w'" for w f r w'
    using assms(4) [OF assms(1)] by blast
  show ?thesis
    using assms(1-3) fine assms(4)
    by (auto intro!: hoareI simp: prim_def split: list.splits fault.splits prod.splits)
qed

text \<open>Operations that only read keep everything that does not look at the fault schedule.\<close>

definition steady :: "('e world \<Rightarrow> bool) \<Rightarrow> bool" where
  "steady I \<longleftrightarrow> (\<forall>w f. I w \<longrightarrow> I (w\<lparr>faults := f\<rparr>))"

lemma steadyD: "steady I \<Longrightarrow> I w \<Longrightarrow> I (w\<lparr>faults := f\<rparr>)"
  by (simp add: steady_def)

lemma keeps_reading:
  assumes "steady I" and "\<And>w. snd (act w) = w"
  shows "keeps I (prim nothing act)"
  using assms by (intro keeps_prim) (auto simp: steadyD nothing_def)

lemmas reading_defs =
  fs_open_def fs_open_dir_def fs_read_def fs_read_to_string_def fs_len_def fs_metadata_len_def
  fs_permissions_def fs_read_dir_def fs_next_entry_def fs_is_file_def

lemma keeps_fs_reading [keeps_intros]:
  assumes "steady I"
  shows "keeps I (fs_open p)" "keeps I (fs_open_dir p)" "keeps I (fs_read p)"
    "keeps I (fs_read_to_string p)" "keeps I (fs_len i)" "keeps I (fs_metadata_len p)"
    "keeps I (fs_permissions i)" "keeps I (fs_read_dir p)" "keeps I (fs_next_entry p)"
    "keeps I (fs_is_file p)"
  unfolding reading_defs
  by (rule keeps_reading [OF assms]; simp split: option.split)+

lemma steady_stays [keeps_intros]: "steady (stays p u)"
  by (simp add: steady_def)

lemma steady_conj [keeps_intros]: "steady I \<Longrightarrow> steady J \<Longrightarrow> steady (\<lambda>w. I w \<and> J w)"
  by (simp add: steady_def)

lemma keeps_stays_prim:
  assumes "\<And>w. coherent w \<Longrightarrow> coherent (snd (act w)) \<and> frame p w (snd (act w))"
    and "\<And>w n. coherent w \<Longrightarrow> coherent (part n w) \<and> frame p w (part n w)"
  shows "keeps (stays p u) (prim part act)"
  by (rule keeps_prim) (use assms stays_step stays_coherent in \<open>simp, blast+\<close>)

lemma nothing_simp [simp]: "nothing n w = w"
  by (simp add: nothing_def)

lemma keeps_create_dir_all [keeps_intros]: "keeps (stays p u) (fs_create_dir_all d)"
  unfolding fs_create_dir_all_def
  by (rule keeps_stays_prim) (simp_all add: frame_def)

lemma keeps_create_new: "p \<noteq> q \<Longrightarrow> keeps (stays p u) (fs_create_new q)"
  unfolding fs_create_new_def
  by (rule keeps_stays_prim) (auto simp: new_file_coherent new_file_frame)

lemma keeps_sync_dir [keeps_intros]: "keeps (stays p u) (fs_sync_dir d)"
  unfolding fs_sync_dir_alt
  by (rule keeps_stays_prim) (auto simp: coherent_flush_dir frame_flush_dir)

lemma keeps_rename:
  "p \<noteq> s \<Longrightarrow> p \<noteq> t \<Longrightarrow> \<not> temporary t \<Longrightarrow> keeps (stays p u) (fs_rename s t)"
  unfolding fs_rename_def
  by (rule keeps_stays_prim) (auto simp: coherent_rename intro: frame_set_names split: option.split)

lemma keeps_remove_file: "p \<noteq> q \<Longrightarrow> keeps (stays p u) (fs_remove_file q)"
  unfolding fs_remove_file_def
  by (rule keeps_stays_prim) (auto simp: coherent_remove intro: frame_set_names split: option.split)

lemma keeps_sleep [keeps_intros]: "keeps (stays p u) (sleep d)"
  by (simp add: keeps_def sleep_def)

lemma keeps_say [keeps_intros]: "keeps (stays p u) (say l)"
  by (simp add: keeps_def say_def)

end
