(* ===== verification/Durable.thy ===== *)
theory Durable
  imports Frames
begin

text \<open>
  The durable file operations of \<open>agent/src/system.rs\<close>: publishing a complete file under its name,
  removing, moving and changing the mode of one. The lemmas say what each leaves at its target,
  after any failure and after a power loss at any point, and that it leaves every other path alone.
\<close>

section \<open>Operations\<close>

definition temporary_path :: "path \<Rightarrow> io_error + path" where
  "temporary_path target =
     (case parent target of
        None \<Rightarrow> Err (IoError OtherIo ''target has no parent directory'')
      | Some p \<Rightarrow>
          (case file_name target of
             None \<Rightarrow> Err (IoError OtherIo ''target has no file name'')
           | Some n \<Rightarrow> Ok (join p (''.'' @ n @ ''.new''))))"

definition sync_parent :: "path \<Rightarrow> ('e, io_error + unit) io" where
  "sync_parent p =
     (case parent p of
        None \<Rightarrow> ret (Err (IoError OtherIo ''path has no parent directory''))
      | Some d \<Rightarrow> and_then (fs_open_dir d) (\<lambda>_. fs_sync_dir d))"

text \<open>The closure of \<open>durable_copy_file\<close>: everything from creating the temporary file on.\<close>

definition publish_copy ::
  "nat \<Rightarrow> path \<Rightarrow> path \<Rightarrow> path \<Rightarrow> u64 \<Rightarrow> nat \<Rightarrow> ('e, io_error + unit) io" where
  "publish_copy input dir temp target maximum permissions =
     and_then (fs_create_new temp) (\<lambda>output.
     and_then (fs_copy input output (sat_add maximum 1)) (\<lambda>copied.
       if copied > maximum
       then ret (Err (IoError InvalidData ''source grew beyond its reserved size''))
       else
         and_then (fs_set_permissions output permissions) (\<lambda>_.
         and_then (fs_sync_file output) (\<lambda>_.
         and_then (fs_rename temp target) (\<lambda>_.
         and_then (fs_open_dir dir) (\<lambda>_.
         fs_sync_dir dir))))))"

definition durable_copy_file :: "nat \<Rightarrow> path \<Rightarrow> u64 \<Rightarrow> ('e, io_error + unit) io" where
  "durable_copy_file input target maximum =
     (case parent target of
        None \<Rightarrow> ret (Err (IoError OtherIo ''target has no parent directory''))
      | Some dir \<Rightarrow>
          and_then (fs_create_dir_all dir) (\<lambda>_.
          case temporary_path target of
            Inl e \<Rightarrow> ret (Err e)
          | Inr temp \<Rightarrow>
              bind (fs_remove_file temp) (\<lambda>_.
              and_then (fs_permissions input) (\<lambda>permissions.
              bind (publish_copy input dir temp target maximum permissions) (\<lambda>result.
                case result of
                  Inr _ \<Rightarrow> ret result
                | Inl _ \<Rightarrow> bind (fs_remove_file temp) (\<lambda>_. ret result))))))"

definition durable_copy :: "path \<Rightarrow> path \<Rightarrow> ('e, io_error + unit) io" where
  "durable_copy source target =
     and_then (fs_open source) (\<lambda>input.
     and_then (fs_len input) (\<lambda>size.
     durable_copy_file input target size))"

definition durable_remove :: "path \<Rightarrow> ('e, io_error + unit) io" where
  "durable_remove p =
     bind (fs_remove_file p) (\<lambda>r.
       case r of
         Inr _ \<Rightarrow> sync_parent p
       | Inl e \<Rightarrow> if kind e = NotFound then ret (Ok ()) else ret (Err e))"

definition durable_mode :: "path \<Rightarrow> nat \<Rightarrow> ('e, io_error + unit) io" where
  "durable_mode p m =
     and_then (fs_set_path_permissions p m) (\<lambda>_.
     and_then (fs_open p) (\<lambda>f.
     and_then (fs_sync_file f) (\<lambda>_.
     sync_parent p)))"

definition durable_move :: "path \<Rightarrow> path \<Rightarrow> ('e, io_error + unit) io" where
  "durable_move source target =
     and_then (durable_copy source target) (\<lambda>_. durable_remove source)"

section \<open>Paths an operation leaves alone\<close>

lemma temporary_path_temporary: "temporary_path t = Inr x \<Longrightarrow> temporary x"
  unfolding temporary_path_def temporary_def ends_with_iff
  by (force simp: join_def starts_with_def split: option.splits if_splits)

lemma stays_set_inode:
  assumes "stays p u w" "temporary x" "map_of (live w) x = Some i" "p \<noteq> x"
  shows "stays p u (set_inode i n w)"
proof -
  have "\<not> points w p i"
    using assms coherent_temporaryD [of w x i p] by (auto simp: stays_def)
  then have "frame p w (set_inode i n w)" by (rule frame_set_inode)
  then show ?thesis using assms(1) by (auto simp: stays_def intro: frame_trans)
qed

lemma keeps_sync_parent [keeps_intros]: "keeps (stays p u) (sync_parent q)"
  unfolding sync_parent_def by (intro keeps_intros)

text \<open>While the temporary file is open, its inode is nobody else's.\<close>

definition holding :: "path \<Rightarrow> 'e world \<Rightarrow> path \<Rightarrow> nat \<Rightarrow> 'e world \<Rightarrow> bool" where
  "holding p u x i w \<longleftrightarrow> stays p u w \<and> map_of (live w) x = Some i"

lemma steady_holding [keeps_intros]: "steady (holding p u x i)"
  by (simp add: steady_def holding_def)

lemma keeps_holding_inode:
  assumes "temporary x" "p \<noteq> x"
  shows "keeps (holding p u x i) (fs_copy s i m)" "keeps (holding p u x i) (fs_set_permissions i k)"
    "keeps (holding p u x i) (fs_sync_file i)" "keeps (holding p u x i) (fs_write_all i b)"
  unfolding fs_copy_def fs_set_permissions_def fs_sync_file_def fs_write_all_def
  by (rule keeps_prim; use assms in \<open>auto simp: holding_def append_bytes_def Let_def intro!: stays_set_inode\<close>)+

lemma stays_new_file: "p \<noteq> x \<Longrightarrow> stays p u w \<Longrightarrow> stays p u (new_file x w)"
  using new_file_coherent new_file_frame stays_step stays_coherent by blast

lemma hoare_create_new_holding:
  assumes "temporary x" "p \<noteq> x"
  shows "hoare (stays p u) (fs_create_new x)
    (\<lambda>r. case r of Inl _ \<Rightarrow> stays p u | Inr i \<Rightarrow> holding p u x i) (stays p u)"
  unfolding fs_create_new_def
  by (rule hoare_prim) (use assms in \<open>auto simp: holding_def stays_new_file split: if_splits\<close>)

lemma hoare_keeps: "keeps I m \<Longrightarrow> (\<And>w. I w \<Longrightarrow> J w) \<Longrightarrow> hoare I m (\<lambda>_. J) J"
  by (rule hoare_weaken [of I m "\<lambda>_. I" I]) (simp_all add: keeps_iff_hoare)

lemma hoare_keeps_Ok:
  assumes "keeps I m" "\<And>w. I w \<Longrightarrow> J w"
  shows "hoare I m (\<lambda>r. case r of Inl _ \<Rightarrow> J | Inr _ \<Rightarrow> I) J"
  by (rule hoare_weaken [of I m "\<lambda>_. I" I]) (use assms in \<open>auto simp: keeps_iff_hoare split: sum.split\<close>)

lemma keeps_publish_copy:
  assumes "temporary x" "p \<noteq> x" "p \<noteq> t" "\<not> temporary t"
  shows "keeps (stays p u) (publish_copy i d x t m k)"
proof -
  have hold: "holding p u x j w \<Longrightarrow> stays p u w" for j w by (simp add: holding_def)
  have rest: "keeps (stays p u) (and_then (fs_rename x t) (\<lambda>_. and_then (fs_open_dir d) (\<lambda>_. fs_sync_dir d)))"
    by (intro keeps_intros keeps_rename assms)
  have body: "hoare (holding p u x j)
      (and_then (fs_copy i j (sat_add m 1)) (\<lambda>c. if c > m
        then ret (Err (IoError InvalidData ''source grew beyond its reserved size''))
        else and_then (fs_set_permissions j k) (\<lambda>_. and_then (fs_sync_file j) (\<lambda>_.
          and_then (fs_rename x t) (\<lambda>_. and_then (fs_open_dir d) (\<lambda>_. fs_sync_dir d))))))
      (\<lambda>_. stays p u) (stays p u)" for j
  proof (rule hoare_and_then [where R = "\<lambda>_. holding p u x j"], goal_cases)
    case 1
    show ?case by (rule hoare_keeps_Ok [OF keeps_holding_inode(1) [OF assms(1,2)] hold])
  next
    case (2 c)
    show ?case
    proof (cases "c > m")
      case True
      then show ?thesis by (simp add: hoare_ret hold)
    next
      case False
      have "hoare (holding p u x j) (and_then (fs_set_permissions j k) (\<lambda>_. and_then (fs_sync_file j) (\<lambda>_.
          and_then (fs_rename x t) (\<lambda>_. and_then (fs_open_dir d) (\<lambda>_. fs_sync_dir d)))))
        (\<lambda>_. stays p u) (stays p u)"
        by (intro hoare_and_then [where R = "\<lambda>_. holding p u x j"]
            hoare_keeps_Ok [OF keeps_holding_inode(2) [OF assms(1,2)] hold]
            hoare_keeps_Ok [OF keeps_holding_inode(3) [OF assms(1,2)] hold]
            hoare_weaken [OF rest [unfolded keeps_iff_hoare]]) (simp_all add: hold)
      with False show ?thesis by simp
    qed
  qed
  show ?thesis
    unfolding keeps_iff_hoare publish_copy_def
    by (rule hoare_and_then [where R = "holding p u x"])
      (rule hoare_create_new_holding [OF assms(1,2)], rule body)
qed

lemma keeps_durable_copy_file:
  assumes "p \<noteq> t" "\<not> temporary t" "temporary_path t \<noteq> Inr p"
  shows "keeps (stays p u) (durable_copy_file i t m)"
  unfolding durable_copy_file_def
  by (intro keeps_intros; (rule keeps_remove_file keeps_publish_copy)?;
      use assms in \<open>auto dest: temporary_path_temporary\<close>)

lemma keeps_durable_copy:
  assumes "p \<noteq> t" "\<not> temporary t" "temporary_path t \<noteq> Inr p"
  shows "keeps (stays p u) (durable_copy s t)"
  unfolding durable_copy_def by (intro keeps_intros keeps_durable_copy_file assms)

lemma keeps_durable_remove:
  assumes "p \<noteq> q"
  shows "keeps (stays p u) (durable_remove q)"
  unfolding durable_remove_def by (intro keeps_intros keeps_remove_file assms)

lemma keeps_durable_move:
  assumes "p \<noteq> s" "p \<noteq> t" "\<not> temporary t" "temporary_path t \<noteq> Inr p"
  shows "keeps (stays p u) (durable_move s t)"
  unfolding durable_move_def by (intro keeps_intros keeps_durable_copy keeps_durable_remove assms)

section \<open>What a copy leaves at its target\<close>

definition whole :: "string \<Rightarrow> nat \<Rightarrow> inode" where
  "whole b k = \<lparr>cached = b, synced = b, mode = k\<rparr>"

text \<open>
  The bytes \<open>b\<close> are at \<open>t\<close> and a power loss brings back either them or what it could have brought
  back in \<open>u\<close> (\<open>replaced\<close>), or nothing but them (\<open>published\<close>).
\<close>

definition replaced :: "string \<Rightarrow> path \<Rightarrow> 'e world \<Rightarrow> 'e world \<Rightarrow> bool" where
  "replaced b t u w \<longleftrightarrow>
     coherent w \<and> (\<exists>k. now w t = Some (whole b k) \<and> past w t \<subseteq> insert (Some (whole b k)) (past u t))"

definition published :: "string \<Rightarrow> path \<Rightarrow> 'e world \<Rightarrow> bool" where
  "published b t w \<longleftrightarrow> coherent w \<and> (\<exists>k. past w t = {Some (whole b k)})"

lemma published_bytes_at: "published b t w \<Longrightarrow> bytes_at w t = Some b"
  using now_in_past [of w t] by (auto simp: published_def bytes_at_def whole_def)

lemma published_survives: "published b t w \<Longrightarrow> survives w t (\<lambda>x. x = Some b)"
proof -
  assume "published b t w"
  then obtain k where "past w t = {Some (whole b k)}" by (auto simp: published_def)
  then show ?thesis by (simp add: survives_def whole_def)
qed

lemma replaced_survives:
  assumes "replaced b t u w" "survives u t Q"
  shows "survives w t (\<lambda>x. Q x \<or> x = Some b)"
proof -
  obtain k where "past w t \<subseteq> insert (Some (whole b k)) (past u t)"
    using assms(1) by (auto simp: replaced_def)
  with assms(2) show ?thesis
    by (fastforce simp: survives_def whole_def split: option.splits)
qed

lemma published_replaced: "published b t w \<Longrightarrow> replaced b t u w"
  using now_in_past [of w t] by (auto simp: published_def replaced_def)

definition filled :: "path \<Rightarrow> 'e world \<Rightarrow> path \<Rightarrow> nat \<Rightarrow> inode \<Rightarrow> 'e world \<Rightarrow> bool" where
  "filled t u x i n w \<longleftrightarrow> holding t u x i w \<and> inodes w i = n"

lemma filled_set_inode:
  "filled t u x i n w \<Longrightarrow> temporary x \<Longrightarrow> t \<noteq> x \<Longrightarrow> filled t u x i n' (set_inode i n' w)"
  by (auto simp: filled_def holding_def stays_set_inode) (simp add: set_inode_def)

lemma filled_faults [simp]: "filled t u x i n (w\<lparr>faults := f\<rparr>) = filled t u x i n w"
  by (simp add: filled_def holding_def)

lemma filled_stays: "filled t u x i n w \<Longrightarrow> stays t u w"
  by (simp add: filled_def holding_def)

lemma replaced_faults [simp]: "replaced b t u (w\<lparr>faults := f\<rparr>) = replaced b t u w"
  by (simp add: replaced_def)

lemma hoare_create_new_filled:
  assumes "temporary x" "t \<noteq> x"
  shows "hoare (\<lambda>w. stays t u w \<and> cached (inodes w i) = b \<and> i < fresh w) (fs_create_new x)
    (\<lambda>r. case r of Inl _ \<Rightarrow> stays t u
       | Inr j \<Rightarrow> \<lambda>w. filled t u x j \<lparr>cached = [], synced = [], mode = 420\<rparr> w \<and> cached (inodes w i) = b)
    (stays t u)"
  unfolding fs_create_new_def
  by (rule hoare_prim)
    (use assms in \<open>auto simp: filled_def holding_def stays_new_file split: if_splits\<close>)

lemma hoare_copy_filled:
  assumes "temporary x" "t \<noteq> x"
  shows "hoare (\<lambda>w. filled t u x j \<lparr>cached = [], synced = [], mode = k\<rparr> w \<and> cached (inodes w i) = b)
    (fs_copy i j l)
    (\<lambda>r. case r of Inl _ \<Rightarrow> stays t u
       | Inr c \<Rightarrow> \<lambda>w. filled t u x j \<lparr>cached = take (unat l) b, synced = [], mode = k\<rparr> w \<and>
           c = word_of_nat (length (take (unat l) b)))
    (stays t u)"
  unfolding fs_copy_def
proof (rule hoare_prim, goal_cases)
  case (2 w e n)
  then show ?case
    using assms by (auto simp: append_bytes_def intro!: filled_stays [OF filled_set_inode])
next
  case (3 w n)
  then show ?case
    using assms by (auto simp: append_bytes_def intro!: filled_stays [OF filled_set_inode])
next
  case (4 w r w')
  then have n: "inodes w j = \<lparr>cached = [], synced = [], mode = k\<rparr>" by (simp add: filled_def)
  from 4 n have "w' = set_inode j \<lparr>cached = take (unat l) b, synced = [], mode = k\<rparr> w"
    by (auto simp: append_bytes_def Let_def)
  moreover from 4 have "r = Inr (word_of_nat (length (take (unat l) b)))" by (auto simp: Let_def)
  ultimately show ?case using 4 assms by (auto intro: filled_set_inode)
qed auto

lemma hoare_mode_filled:
  assumes "temporary x" "t \<noteq> x"
  shows "hoare (filled t u x j n) (fs_set_permissions j k)
      (\<lambda>r. case r of Inl _ \<Rightarrow> stays t u | Inr _ \<Rightarrow> filled t u x j (n\<lparr>mode := k\<rparr>)) (stays t u)"
  unfolding fs_set_permissions_def
proof (rule hoare_prim, goal_cases)
  case (4 w r w')
  then have "inodes w j = n" by (simp add: filled_def)
  with 4 assms show ?case by (auto intro: filled_set_inode)
qed (auto simp: filled_stays)

lemma hoare_sync_filled:
  assumes "temporary x" "t \<noteq> x"
  shows "hoare (filled t u x j n) (fs_sync_file j)
      (\<lambda>r. case r of Inl _ \<Rightarrow> stays t u | Inr _ \<Rightarrow> filled t u x j (n\<lparr>synced := cached n\<rparr>)) (stays t u)"
  unfolding fs_sync_file_def
proof (rule hoare_prim, goal_cases)
  case (4 w r w')
  then have "inodes w j = n" by (simp add: filled_def)
  with 4 assms show ?case by (auto intro: filled_set_inode)
qed (auto simp: filled_stays)

lemma hoare_rename_filled:
  assumes "temporary x" "\<not> temporary t"
  shows "hoare (filled t u x j (whole b k)) (fs_rename x t)
    (\<lambda>r. case r of Inl _ \<Rightarrow> stays t u | Inr _ \<Rightarrow> replaced b t u) (stays t u)"
  unfolding fs_rename_def
proof (rule hoare_prim, goal_cases)
  case (4 w r w')
  then have l: "map_of (live w) x = Some j" and n: "inodes w j = whole b k" and s: "stays t u w"
    by (auto simp: filled_def holding_def)
  show ?case
  proof (cases "has_parent w t")
    case True
    let ?al = "AList.update t j (AList.delete x (live w))"
    have w': "w' = set_names ?al w" "r = Inr ()" using 4(2) l True by auto
    have "now (set_names ?al w) t = Some (whole b k)"
      using n by (simp add: now_def set_names_def)
    moreover have "past (set_names ?al w) t \<subseteq> insert (Some (whole b k)) (past w t)"
      using n by (auto simp: past_def versions_set_names) (auto simp: set_names_def)
    moreover have "past w t \<subseteq> past u t" using s by (simp add: stays_def frame_def)
    moreover have "coherent (set_names ?al w)"
      using coherent_rename [OF stays_coherent [OF s] l assms(2)] .
    ultimately show ?thesis by (auto simp: w' replaced_def)
  next
    case False
    with 4(2) l s show ?thesis by auto
  qed
qed (auto simp: filled_stays)

lemma hoare_flush_replaced:
  assumes "parent t = Some d"
  shows "hoare (replaced b t u) (and_then (fs_open_dir d) (\<lambda>_. fs_sync_dir d))
    (\<lambda>r. case r of Inl _ \<Rightarrow> replaced b t u | Inr _ \<Rightarrow> published b t) (replaced b t u)"
proof (rule hoare_and_then [where R = "\<lambda>_. replaced b t u"])
  have "steady (replaced b t u)" by (simp add: steady_def)
  then show "hoare (replaced b t u) (fs_open_dir d)
      (\<lambda>r. case r of Inl e \<Rightarrow> (\<lambda>r. case r of Inl _ \<Rightarrow> replaced b t u | Inr _ \<Rightarrow> published b t) (Inl e)
        | Inr _ \<Rightarrow> replaced b t u) (replaced b t u)"
    by (intro hoare_weaken [OF keeps_fs_reading(2) [unfolded keeps_iff_hoare]]) (auto split: sum.split)
next
  show "hoare (replaced b t u) (fs_sync_dir d)
      (\<lambda>r. case r of Inl _ \<Rightarrow> replaced b t u | Inr _ \<Rightarrow> published b t) (replaced b t u)"
    unfolding fs_sync_dir_alt
    by (rule hoare_prim)
      (use assms in \<open>auto simp: replaced_def published_def coherent_flush_dir past_flush_dir\<close>)
qed

text \<open>The copy was accepted: nothing was cut off, and the bytes fit what the caller budgeted.\<close>

lemma copied_whole:
  fixes m :: u64
  assumes "length b < 2 ^ 64"
    and "\<not> m < word_of_nat (length (take (unat (sat_add m 1)) b))"
  shows "length b \<le> unat m \<and> take (unat (sat_add m 1)) b = b"
proof -
  define l where "l = unat (sat_add m 1)"
  have l: "l = min (2 ^ 64 - 1) (unat m + 1)" by (simp add: unat_sat_add l_def)
  define n where "n = length (take l b)"
  have "n < 2 ^ 64" using assms(1) by (simp add: n_def)
  then have "unat (word_of_nat n :: u64) = n" by (simp add: unat_of_nat)
  moreover have "\<not> m < word_of_nat n" using assms(2) by (simp add: n_def l_def)
  ultimately have "n \<le> unat m" by (simp add: word_less_nat_alt)
  then have "min (length b) l \<le> unat m" by (simp add: n_def)
  then have "length b \<le> unat m" using assms(1) l u64_bound [of m] by auto
  moreover from this l assms(1) have "length b \<le> l" by auto
  ultimately show ?thesis by (simp add: l_def)
qed

text \<open>The input is open, and nothing happened to the target so far.\<close>

definition ready :: "path \<Rightarrow> 'e world \<Rightarrow> nat \<Rightarrow> string \<Rightarrow> 'e world \<Rightarrow> bool" where
  "ready t u i b w \<longleftrightarrow> stays t u w \<and> cached (inodes w i) = b \<and> i < fresh w"

text \<open>Whatever went wrong: the target is as it was, or it was replaced as a whole.\<close>

definition tried :: "string \<Rightarrow> path \<Rightarrow> 'e world \<Rightarrow> 'e world \<Rightarrow> bool" where
  "tried b t u w \<longleftrightarrow> stays t u w \<or> replaced b t u w"

lemma tried_intros: "stays t u w \<Longrightarrow> tried b t u w" "replaced b t u w \<Longrightarrow> tried b t u w"
  by (simp_all add: tried_def)

lemma ready_tried: "ready t u i b w \<Longrightarrow> tried b t u w"
  by (simp add: ready_def tried_def)

lemma hoare_publish_copy:
  assumes x: "temporary x" "\<not> temporary t" and d: "parent t = Some d" and b: "length b < 2 ^ 64"
  shows "hoare (ready t u i b) (publish_copy i d x t m k)
    (\<lambda>r. case r of Inl _ \<Rightarrow> tried b t u | Inr _ \<Rightarrow> \<lambda>w. published b t w \<and> length b \<le> unat m) (tried b t u)"
    (is "hoare _ _ ?Q ?C")
proof -
  from x have tx: "t \<noteq> x" by auto
  note filled_tried = tried_intros(1) [OF filled_stays]
  have tail: "hoare (filled t u x j (whole b k))
      (and_then (fs_rename x t) (\<lambda>_. and_then (fs_open_dir d) (\<lambda>_. fs_sync_dir d)))
      (\<lambda>r. case r of Inl _ \<Rightarrow> tried b t u | Inr _ \<Rightarrow> published b t) ?C" for j
  proof (rule hoare_and_then [where R = "\<lambda>_. replaced b t u"], goal_cases)
    case 1
    show ?case
      by (rule hoare_weaken_result [OF hoare_rename_filled [OF x, of u j b k]]) (auto simp: tried_intros)
  next
    case 2
    show ?case
      by (rule hoare_weaken_result [OF hoare_flush_replaced [OF d, of b u]]) (simp_all add: tried_intros)
  qed
  have rest: "hoare (\<lambda>w. filled t u x j \<lparr>cached = take (unat (sat_add m 1)) b, synced = [], mode = 420\<rparr> w \<and>
        c = word_of_nat (length (take (unat (sat_add m 1)) b)))
      (if c > m then ret (Err (IoError InvalidData ''source grew beyond its reserved size''))
       else and_then (fs_set_permissions j k) (\<lambda>_. and_then (fs_sync_file j) (\<lambda>_.
         and_then (fs_rename x t) (\<lambda>_. and_then (fs_open_dir d) (\<lambda>_. fs_sync_dir d))))) ?Q ?C" for j c
  proof (cases "c = word_of_nat (length (take (unat (sat_add m 1)) b)) \<and> \<not> c > m")
    case True
    then have "\<not> m < word_of_nat (length (take (unat (sat_add m 1)) b))" by blast
    from copied_whole [OF b this]
    have len: "length b \<le> unat m" and tk: "take (unat (sat_add m 1)) b = b" by blast+
    let ?n = "\<lparr>cached = b, synced = [], mode = 420\<rparr>"
    have "hoare (filled t u x j ?n)
        (and_then (fs_set_permissions j k) (\<lambda>_. and_then (fs_sync_file j) (\<lambda>_.
         and_then (fs_rename x t) (\<lambda>_. and_then (fs_open_dir d) (\<lambda>_. fs_sync_dir d))))) ?Q ?C"
    proof (rule hoare_and_then [where R = "\<lambda>_. filled t u x j (?n\<lparr>mode := k\<rparr>)"], goal_cases)
      case 1
      show ?case
        by (rule hoare_weaken_result [OF hoare_mode_filled [OF x(1) tx, of u j ?n k]]) (auto simp: tried_intros)
    next
      case 2
      show ?case
      proof (rule hoare_and_then [where R = "\<lambda>_. filled t u x j (whole b k)"], goal_cases)
        case 1
        show ?case
          by (rule hoare_weaken_result [OF hoare_sync_filled [OF x(1) tx, of u j "?n\<lparr>mode := k\<rparr>"]])
            (auto simp: whole_def tried_intros)
      next
        case 2
        show ?case
          by (rule hoare_weaken_result [OF tail [of j]]) (use len in simp_all)
      qed
    qed
    moreover from True have "\<not> c > m" by blast
    ultimately show ?thesis
      by (simp only: if_False) (erule hoare_weaken, simp_all add: tk)
  next
    case False
    then show ?thesis
      by (cases "c > m") (auto simp: hoare_def io_simps intro: filled_tried)
  qed
  show ?thesis
    unfolding publish_copy_def
  proof (rule hoare_and_then [where R = "\<lambda>j w.
        filled t u x j \<lparr>cached = [], synced = [], mode = 420\<rparr> w \<and> cached (inodes w i) = b"], goal_cases)
    case 1
    show ?case
      by (rule hoare_weaken_result [OF hoare_create_new_filled [OF x(1) tx, of u i b]])
        (auto simp: ready_def tried_intros)
  next
    case (2 j)
    show ?case
      by (rule hoare_and_then [OF hoare_weaken_result [OF hoare_copy_filled [OF x(1) tx, of u j 420 i b]] rest])
        (auto simp: tried_intros)
  qed
qed

lemma keeps_through_stays:
  assumes "\<And>u. keeps (stays p u) m" and "\<And>w. I w \<Longrightarrow> coherent w"
    and "\<And>w w'. I w \<Longrightarrow> stays p w w' \<Longrightarrow> I w'"
  shows "keeps I m"
  unfolding keeps_def
proof (intro allI impI)
  fix w
  assume I: "I w"
  then have "stays p w w" using assms(2) by simp
  then have "stays p w (snd (m w))" using assms(1) [of w] by (simp add: keeps_def)
  with I show "I (snd (m w))" by (rule assms(3))
qed

lemma stays_trans: "stays p u v \<Longrightarrow> stays p v w \<Longrightarrow> stays p u w"
  by (auto simp: stays_def intro: frame_trans)

lemma replaced_stays: "replaced b t u w \<Longrightarrow> stays t w w' \<Longrightarrow> replaced b t u w'"
  by (auto simp: replaced_def stays_def frame_def)

lemma keeps_tried:
  assumes "\<And>u. keeps (stays t u) m"
  shows "keeps (tried b t u) m"
proof (rule keeps_through_stays [OF assms])
  show "tried b t u w \<Longrightarrow> coherent w" for w
    by (auto simp: tried_def replaced_def stays_def)
  show "tried b t u w \<Longrightarrow> stays t w w' \<Longrightarrow> tried b t u w'" for w w'
    unfolding tried_def using stays_trans replaced_stays by blast
qed

lemma stays_remove_name: "t \<noteq> x \<Longrightarrow> stays t u w \<Longrightarrow> stays t u (set_names (AList.delete x (live w)) w)"
  using coherent_remove stays_coherent stays_step frame_set_names [of "AList.delete x (live w)" t w]
  by (metis fun_upd_apply map_of_alist_delete)

lemma keeps_ready:
  assumes "x \<noteq> t"
  shows "keeps (ready t u i b) (fs_remove_file x)" "keeps (ready t u i b) (fs_create_dir_all d)"
    "keeps (ready t u i b) (fs_permissions j)" "keeps (ready t u i b) (fs_len j)"
proof -
  have st: "steady (ready t u i b)" by (simp add: steady_def ready_def)
  show "keeps (ready t u i b) (fs_permissions j)" "keeps (ready t u i b) (fs_len j)"
    by (rule keeps_fs_reading [OF st])+
  show "keeps (ready t u i b) (fs_create_dir_all d)"
    unfolding fs_create_dir_all_def by (rule keeps_prim) (simp_all add: ready_def)
  show "keeps (ready t u i b) (fs_remove_file x)"
    unfolding fs_remove_file_def
    by (rule keeps_prim)
      (auto simp: ready_def stays_remove_name [OF assms [symmetric]] split: option.split,
       auto simp: set_names_def)
qed

abbreviation attempt :: "string \<Rightarrow> path \<Rightarrow> 'e world \<Rightarrow> 'x + 'a \<Rightarrow> 'e world \<Rightarrow> bool" where
  "attempt b t u \<equiv> (\<lambda>r. case r of Inl _ \<Rightarrow> tried b t u | Inr _ \<Rightarrow> published b t)"

lemma hoare_durable_copy_file:
  assumes t: "\<not> temporary t" and b: "length b < 2 ^ 64"
  shows "hoare (ready t u i b) (durable_copy_file i t m)
    (\<lambda>r. case r of Inl _ \<Rightarrow> tried b t u | Inr _ \<Rightarrow> \<lambda>w. published b t w \<and> length b \<le> unat m) (tried b t u)"
    (is "hoare _ _ ?Q ?C")
proof (cases "parent t")
  case None
  then show ?thesis
    by (auto simp: durable_copy_file_def intro!: hoare_ret ready_tried)
next
  case (Some d)
  note keep = hoare_weaken_result [OF hoare_keeps_Ok [of "ready t u i b" _ "tried b t u"]]
  have body: "hoare (ready t u i b)
      (bind (fs_remove_file x) (\<lambda>_. and_then (fs_permissions i) (\<lambda>k.
        bind (publish_copy i d x t m k) (\<lambda>result. case result of
            Inr _ \<Rightarrow> ret result
          | Inl _ \<Rightarrow> bind (fs_remove_file x) (\<lambda>_. ret result)))))
      ?Q ?C"
    if x: "temporary_path t = Inr x" for x
  proof -
    from x have tx: "temporary x" by (rule temporary_path_temporary)
    with t have "x \<noteq> t" by auto
    have clean: "hoare (tried b t u) (bind (fs_remove_file x) (\<lambda>_. ret (Inl e)))
        ?Q ?C" for e :: io_error
    proof (rule hoare_bind [where R = "\<lambda>_. tried b t u"])
      have "keeps (tried b t u) (fs_remove_file x)"
        using \<open>x \<noteq> t\<close> by (intro keeps_tried keeps_remove_file) simp
      then show "hoare (tried b t u) (fs_remove_file x) (\<lambda>_. tried b t u) (tried b t u)"
        by (simp add: keeps_iff_hoare)
    qed (simp add: hoare_ret)
    show ?thesis
    proof (rule hoare_bind [where R = "\<lambda>_. ready t u i b"], goal_cases)
      case 1
      show ?case by (rule hoare_weaken [OF keeps_ready(1) [OF \<open>x \<noteq> t\<close>, unfolded keeps_iff_hoare]])
        (auto intro: ready_tried)
    next
      case (2 _)
      show ?case
      proof (rule hoare_and_then [where R = "\<lambda>_. ready t u i b"], goal_cases)
        case 1
        show ?case by (rule keep [OF keeps_ready(3) [OF \<open>x \<noteq> t\<close>]]) (auto intro: ready_tried)
      next
        case (2 k)
        show ?case
        proof (rule hoare_bind [OF hoare_publish_copy [OF tx t Some b]], goal_cases)
          case (1 r)
          show ?case
            by (cases r) (auto intro!: hoare_ret clean)
        qed
      qed
    qed
  qed
  show ?thesis
    unfolding durable_copy_file_def Some option.case
  proof (rule hoare_and_then [where R = "\<lambda>_. ready t u i b"], goal_cases)
    case 1
    have "keeps (ready t u i b) (fs_create_dir_all d)" by (rule keeps_ready(2)) (rule not_Cons_self2)
    then show ?case by (rule keep) (auto intro: ready_tried)
  next
    case (2 _)
    show ?case by (cases "temporary_path t") (use body in \<open>auto intro!: hoare_ret intro: ready_tried\<close>)
  qed
qed

lemma hoare_durable_copy:
  assumes t: "\<not> temporary t" and b: "length b < 2 ^ 64"
  shows "hoare (\<lambda>w. stays t u w \<and> bytes_at w s = Some b) (durable_copy s t) (attempt b t u) (tried b t u)"
  unfolding durable_copy_def
proof (rule hoare_and_then [where R = "\<lambda>i. ready t u i b"], goal_cases)
  case 1
  have "i < fresh w" if "stays t u w" "map_of (live w) s = Some i" for w i
    using that stays_coherent points_live coherent_pointsD by blast
  then show ?case
    unfolding fs_open_def
    by (intro hoare_prim) (auto simp: ready_def bytes_at_def now_def tried_intros split: option.splits)
next
  case (2 i)
  show ?case
  proof (rule hoare_and_then [where R = "\<lambda>_. ready t u i b"], goal_cases)
    case 1
    have "keeps (ready t u i b) (fs_len i)" by (rule keeps_ready(4)) (rule not_Cons_self2)
    then show ?case
      by (rule hoare_weaken_result [OF hoare_keeps_Ok [of "ready t u i b" _ "tried b t u"]])
        (auto intro: ready_tried)
  next
    case (2 m)
    show ?case by (rule hoare_weaken_result [OF hoare_durable_copy_file [OF t b]]) simp_all
  qed
qed

text \<open>
  The contract of an operation that publishes a file: its target is as it was or complete, and no
  other path changes. \<open>holds s b w\<close> says that the source \<open>s\<close> has the bytes \<open>b\<close>.
\<close>

locale publisher =
  fixes publish :: "'s \<Rightarrow> path \<Rightarrow> ('e, 'x + 'a) io"
    and holds :: "'s \<Rightarrow> string \<Rightarrow> 'e world \<Rightarrow> bool"
    and legal :: "path \<Rightarrow> bool"
  assumes attempts: "legal t \<Longrightarrow>
      hoare (\<lambda>w. stays t u w \<and> holds s b w) (publish s t) (attempt b t u) (tried b t u)"
    and elsewhere: "legal t \<Longrightarrow> p \<noteq> t \<Longrightarrow> temporary_path t \<noteq> Inr p \<Longrightarrow> keeps (stays p u) (publish s t)"
begin

lemma outcome:
  assumes "legal t" "coherent w" "holds s b w" "publish s t w = (r, w')"
  shows "tried b t w w'" and "r = Done (Inr x) \<Longrightarrow> published b t w'"
proof -
  from assms(2,3) have pre: "stays t w w \<and> holds s b w" by simp
  note h = attempts [OF assms(1), of w s b]
  show "r = Done (Inr x) \<Longrightarrow> published b t w'" using hoareD [OF h pre] assms(4) by fastforce
  then show "tried b t w w'"
    using hoareD [OF h pre] hoareD_stop [OF h pre] assms(4)
      published_replaced [of b t w' w, THEN tried_intros(2)]
    by (cases r) (force split: sum.splits)+
qed

lemma crash_safe:
  assumes "legal t" "coherent w" "holds s b w" "survives w t Q"
    and "publish s t w = (r, w')" "power_loss w' w''"
  shows "Q (bytes_at w'' t) \<or> bytes_at w'' t = Some b"
    and "r = Done (Inr x) \<Longrightarrow> bytes_at w'' t = Some b"
proof -
  have "tried b t w w'" using outcome(1) assms by blast
  then have "survives w' t (\<lambda>z. Q z \<or> z = Some b)"
    unfolding tried_def
    using assms(4) frame_survives [of t w w' Q] survives_mono [of w' t Q "\<lambda>z. Q z \<or> z = Some b"]
      replaced_survives [of b t w w' Q] by (auto simp: stays_def)
  then show "Q (bytes_at w'' t) \<or> bytes_at w'' t = Some b"
    using assms(6) by (rule survives_power_loss)
  assume "r = Done (Inr x)"
  with assms outcome(2) have "published b t w'" by blast
  from survives_power_loss [OF published_survives [OF this] assms(6)] show "bytes_at w'' t = Some b" .
qed

lemma all_or_nothing:
  assumes "legal t" "coherent w" "holds s b w" "publish s t w = (r, w')"
  shows "bytes_at w' t \<in> {bytes_at w t, Some b}"
proof -
  have "tried b t w w'" using outcome(1) assms by blast
  then show ?thesis
    by (auto simp: tried_def stays_def replaced_def frame_def bytes_at_def whole_def)
qed

end

interpretation copying: publisher durable_copy
  "\<lambda>s b w. bytes_at w s = Some b \<and> length b < 2 ^ 64" "\<lambda>t. \<not> temporary t"
proof
  fix t :: path and u :: "'a world" and s :: path and b :: string
  assume t: "\<not> temporary t"
  show "hoare (\<lambda>w. stays t u w \<and> bytes_at w s = Some b \<and> length b < 2 ^ 64)
      (durable_copy s t) (attempt b t u) (tried b t u)"
  proof (cases "length b < 2 ^ 64")
    case True
    then show ?thesis using hoare_durable_copy [OF t True, of u s] by simp
  next
    case False
    then show ?thesis by (simp add: hoare_def)
  qed
qed (rule keeps_durable_copy)

interpretation copying_file: publisher "\<lambda>(i, m) t. durable_copy_file i t m"
  "\<lambda>(i, m) b w. i < fresh w \<and> cached (inodes w i) = b \<and> length b < 2 ^ 64" "\<lambda>t. \<not> temporary t"
proof
  fix t :: path and u :: "'a world" and s :: "nat \<times> u64" and b :: string
  assume t: "\<not> temporary t"
  obtain i m where s: "s = (i, m)" by (cases s)
  have "hoare (\<lambda>w. stays t u w \<and> i < fresh w \<and> cached (inodes w i) = b \<and> length b < 2 ^ 64)
      (durable_copy_file i t m) (attempt b t u) (tried b t u)"
  proof (cases "length b < 2 ^ 64")
    case True
    show ?thesis
      by (rule hoare_weaken_result [OF hoare_durable_copy_file [OF t True, of u i m]])
        (simp_all add: ready_def)
  next
    case False
    then show ?thesis by (simp add: hoare_def)
  qed
  with s show "hoare (\<lambda>w. stays t u w \<and>
        (case s of (i, m) \<Rightarrow> \<lambda>b w. i < fresh w \<and> cached (inodes w i) = b \<and> length b < 2 ^ 64) b w)
      ((case s of (i, m) \<Rightarrow> \<lambda>t. durable_copy_file i t m) t) (attempt b t u) (tried b t u)"
    by simp
next
  fix t p :: path and u :: "'a world" and s :: "nat \<times> u64"
  assume "\<not> temporary t" "p \<noteq> t" "temporary_path t \<noteq> Inr p"
  then show "keeps (stays p u) ((case s of (i, m) \<Rightarrow> \<lambda>t. durable_copy_file i t m) t)"
    by (cases s) (simp add: keeps_durable_copy_file)
qed

section \<open>Properties\<close>

text \<open>A concrete world: a source, an older target, and the faults of the run.\<close>

definition sample_world :: "fault list \<Rightarrow> unit world" where
  "sample_world fs =
     \<lparr>live = [(''/v/s'', 0), (''/v/t'', 1)], older = [],
      inodes = (\<lambda>i. if i = 0 then \<lparr>cached = ''new'', synced = ''new'', mode = 384\<rparr>
                  else \<lparr>cached = ''old'', synced = ''old'', mode = 420\<rparr>),
      fresh = 2, dirs = [''/v'', ''/''], faults = fs, clock = 0, lock_taken = False,
      lock_fd = None, console = [], outside = ()\<rparr>"

lemma sample_world_coherent: "coherent (sample_world fs)"
  by (auto simp: coherent_def points_def versions_def sample_world_def temporary_def ends_with_def
      starts_with_def split: if_splits)

lemma sample_world_facts:
  "bytes_at (sample_world fs) ''/v/s'' = Some ''new''"
  "survives (sample_world fs) ''/v/t'' (\<lambda>x. x = Some ''old'')"
  by (simp_all add: bytes_at_def now_def survives_def past_def versions_def sample_world_def)

lemma power_loss_live: "power_loss w (w\<lparr>older := []\<rparr>)"
  by (simp add: power_loss_def versions_def)

lemma not_temporary_sample: "\<not> temporary ''/v/t''"
  by code_simp

text \<open>
  C11: a copy that is published by \<open>durable_copy\<close> is atomic and durable. Whatever fails and wherever
  the power goes, after the power loss the target holds what it may have held before, or the
  complete source; once \<open>durable_copy\<close> returned success it holds the complete source.
\<close>

theorem durable_copy_crash_safe:
  assumes "coherent w" "\<not> temporary t" "bytes_at w s = Some b" "length b < 2 ^ 64" "survives w t Q"
    and "durable_copy s t w = (r, w')" "power_loss w' w''"
  shows "(Q (bytes_at w'' t) \<or> bytes_at w'' t = Some b) \<and>
    (r = Done (Ok ()) \<longrightarrow> bytes_at w'' t = Some b)"
  using copying.crash_safe [OF assms(2,1) _ assms(5,6,7), of b] assms(3,4) by simp

lemma durable_copy_crash_safe_witness:
  "case durable_copy ''/v/s'' ''/v/t'' (sample_world (replicate 5 Fine @ [Cut 1])) of (r, w') \<Rightarrow>
     r = Stopped PowerLoss \<and> bytes_at (w'\<lparr>older := []\<rparr>) ''/v/t'' \<in> {Some ''old'', Some ''new''}"
proof -
  let ?w = "sample_world (replicate 5 Fine @ [Cut 1])"
  have "fst (durable_copy ''/v/s'' ''/v/t'' ?w) = Stopped PowerLoss" by code_simp
  then obtain w' where w': "durable_copy ''/v/s'' ''/v/t'' ?w = (Stopped PowerLoss, w')"
    by (metis prod.collapse)
  from durable_copy_crash_safe [OF sample_world_coherent not_temporary_sample sample_world_facts(1)
      _ sample_world_facts(2) this power_loss_live]
  show ?thesis unfolding w' by auto
qed

text \<open>
  C18: a copy changes nothing but its target and the temporary file beside it, and the running
  system never reads a partial target, whatever fails.
\<close>

theorem durable_copy_all_or_nothing:
  assumes "coherent w" "\<not> temporary t" "bytes_at w s = Some b" "length b < 2 ^ 64"
    and "durable_copy s t w = (r, w')"
  shows "bytes_at w' t \<in> {bytes_at w t, Some b} \<and>
    (\<forall>p. p \<noteq> t \<longrightarrow> temporary_path t \<noteq> Ok p \<longrightarrow> bytes_at w' p = bytes_at w p \<and> past w' p \<subseteq> past w p)"
proof (intro conjI allI impI)
  show "bytes_at w' t \<in> {bytes_at w t, Some b}"
    using copying.all_or_nothing [OF assms(2,1) _ assms(5), of b] assms(3,4) by simp
  fix p
  assume "p \<noteq> t" "temporary_path t \<noteq> Ok p"
  from keepsD [OF copying.elsewhere [OF assms(2) this] _ assms(5)] assms(1)
  have "stays p w w'" by simp
  then show "bytes_at w' p = bytes_at w p" "past w' p \<subseteq> past w p"
    by (simp_all add: stays_def frame_def bytes_at_def)
qed

lemma durable_copy_all_or_nothing_witness:
  "bytes_at (snd (durable_copy ''/v/s'' ''/v/t'' (sample_world []))) ''/v/t'' \<in> {Some ''old'', Some ''new''}"
proof -
  obtain r w' where w': "durable_copy ''/v/s'' ''/v/t'' (sample_world []) = (r, w')"
    by (cases "durable_copy ''/v/s'' ''/v/t'' (sample_world [])")
  from durable_copy_all_or_nothing [OF sample_world_coherent not_temporary_sample
      sample_world_facts(1) _ w'] survives_now [OF sample_world_facts(2), of "[]"]
  show ?thesis by (simp add: w')
qed

text \<open>
  C28: \<open>durable_copy_file\<close> refuses growth. When it reports success the published bytes are the whole
  input and fit the number of bytes that the caller budgeted.
\<close>

theorem durable_copy_file_bounded:
  assumes "coherent w" "\<not> temporary t" "i < fresh w" "length (cached (inodes w i)) < 2 ^ 64"
    and "durable_copy_file i t m w = (Done (Ok ()), w')"
  shows "bytes_at w' t = Some (cached (inodes w i)) \<and> length (cached (inodes w i)) \<le> unat m"
proof -
  have "ready t w i (cached (inodes w i)) w" using assms(1,3) by (simp add: ready_def)
  from hoareD [OF hoare_durable_copy_file [OF assms(2,4)] this assms(5)] show ?thesis
    by (simp add: published_bytes_at)
qed

lemma durable_copy_file_bounded_witness:
  "case durable_copy_file 0 ''/v/t'' 3 (sample_world []) of (r, w') \<Rightarrow>
     r = Done (Ok ()) \<and> bytes_at w' ''/v/t'' = Some ''new''"
proof -
  have "fst (durable_copy_file 0 ''/v/t'' 3 (sample_world [])) = Done (Ok ())" by code_simp
  then obtain w' where w': "durable_copy_file 0 ''/v/t'' 3 (sample_world []) = (Done (Ok ()), w')"
    by (metis prod.collapse)
  from durable_copy_file_bounded [OF sample_world_coherent not_temporary_sample _ _ w']
  show ?thesis unfolding w' by (simp add: sample_world_def)
qed

end
