(* ===== verification/Agent_State.thy ===== *)
theory Agent_State
  imports Durable "HOL-Library.Char_ord" "HOL-Library.List_Lexorder"
begin

text \<open>
  The agent's record of its extensions, \<open>agent/src/state.rs\<close>: the phases, the record of one
  extension with its bounded history of completed requests, and the map from names to records with
  the operations on it that do not touch the file system.
\<close>

section \<open>Ordered maps\<close>

text \<open>A \<open>BTreeMap<String, _>\<close> as the list of its entries in the order of the keys.\<close>

fun bt_insert :: "string \<Rightarrow> 'a \<Rightarrow> (string \<times> 'a) list \<Rightarrow> (string \<times> 'a) list" where
  "bt_insert k v [] = [(k, v)]"
| "bt_insert k v ((k', v') # m) =
     (if k = k' then (k, v) # m
      else if k < k' then (k, v) # (k', v') # m
      else (k', v') # bt_insert k v m)"

definition ordered :: "(string \<times> 'a) list \<Rightarrow> bool" where
  "ordered m \<longleftrightarrow> sorted_wrt (<) (map fst m)"

lemma map_of_bt_insert: "ordered m \<Longrightarrow> map_of (bt_insert k v m) = (map_of m)(k \<mapsto> v)"
  by (induction k v m rule: bt_insert.induct) (auto simp: ordered_def fun_eq_iff)

lemma keys_bt_insert: "fst ` set (bt_insert k v m) = insert k (fst ` set m)"
  by (induction k v m rule: bt_insert.induct) auto

lemma ordered_bt_insert: "ordered m \<Longrightarrow> ordered (bt_insert k v m)"
proof (induction k v m rule: bt_insert.induct)
  case (2 k v k' v' m)
  show ?case
  proof (cases "k \<noteq> k' \<and> \<not> k < k'")
    case True
    with 2 have "ordered (bt_insert k v m)" by (simp add: ordered_def)
    moreover have "\<forall>x \<in> fst ` set (bt_insert k v m). k' < x"
      using True 2(2) by (auto simp: keys_bt_insert ordered_def)
    ultimately show ?thesis using True by (auto simp: ordered_def)
  next
    case False
    with 2(2) show ?thesis by (auto simp: ordered_def)
  qed
qed (simp add: ordered_def)

lemma ordered_distinct: "ordered m \<Longrightarrow> distinct (map fst m)"
  by (auto simp: ordered_def strict_sorted_iff)

lemma ordered_map_values: "ordered (map (\<lambda>(k, v). (k, f k v)) m) = ordered m"
  by (simp add: ordered_def case_prod_unfold comp_def)

section \<open>Phases\<close>

datatype phase = Idle | Staged | Activating | Starting | Soaking | Active | Reverting | Recovered
  | Removing | Unrecoverable

definition is_terminal :: "phase \<Rightarrow> bool" where
  "is_terminal p \<longleftrightarrow> p = Unrecoverable"

text \<open>The derived \<open>Debug\<close> and the \<open>snake_case\<close> serialization of a phase.\<close>

definition debug_phase :: "phase \<Rightarrow> string" where
  "debug_phase p =
     (case p of Idle \<Rightarrow> ''Idle'' | Staged \<Rightarrow> ''Staged'' | Activating \<Rightarrow> ''Activating''
      | Starting \<Rightarrow> ''Starting'' | Soaking \<Rightarrow> ''Soaking'' | Active \<Rightarrow> ''Active''
      | Reverting \<Rightarrow> ''Reverting'' | Recovered \<Rightarrow> ''Recovered'' | Removing \<Rightarrow> ''Removing''
      | Unrecoverable \<Rightarrow> ''Unrecoverable'')"

definition snake_phase :: "phase \<Rightarrow> string" where
  "snake_phase p =
     (case p of Idle \<Rightarrow> ''idle'' | Staged \<Rightarrow> ''staged'' | Activating \<Rightarrow> ''activating''
      | Starting \<Rightarrow> ''starting'' | Soaking \<Rightarrow> ''soaking'' | Active \<Rightarrow> ''active''
      | Reverting \<Rightarrow> ''reverting'' | Recovered \<Rightarrow> ''recovered'' | Removing \<Rightarrow> ''removing''
      | Unrecoverable \<Rightarrow> ''unrecoverable'')"

section \<open>The record of an extension\<close>

record extension_state =
  required :: bool
  active_version :: "string option"
  known_good_version :: "string option"
  candidate_version :: "string option"
  phase :: phase
  request_id :: "string option"
  last_health :: "string option"
  last_failure :: "string option"
  terminal_os_version :: "string option"
  completed_requests :: "string list"

definition default_extension :: extension_state where
  "default_extension =
     \<lparr>required = False, active_version = None, known_good_version = None, candidate_version = None,
      phase = Idle, request_id = None, last_health = None, last_failure = None,
      terminal_os_version = None, completed_requests = []\<rparr>"

definition COMPLETED_REQUEST_HISTORY :: nat where
  "COMPLETED_REQUEST_HISTORY = 64"

definition already_completed :: "extension_state \<Rightarrow> string \<Rightarrow> bool" where
  "already_completed e i \<longleftrightarrow> i \<in> set (completed_requests e)"

definition record_completed :: "string \<Rightarrow> extension_state \<Rightarrow> extension_state" where
  "record_completed i e =
     (if already_completed e i then e
      else
        let pushed = completed_requests e @ [i];
            excess = length pushed - COMPLETED_REQUEST_HISTORY
        in e\<lparr>completed_requests := if excess > 0 then drop excess pushed else pushed\<rparr>)"

section \<open>The state\<close>

record state =
  extensions :: "(string \<times> extension_state) list"

definition default_state :: state where
  "default_state = \<lparr>extensions = []\<rparr>"

definition state_get :: "state \<Rightarrow> string \<Rightarrow> extension_state option" where
  "state_get s name = map_of (extensions s) name"

text \<open>
  \<open>State::entry\<close> hands out the record of a name, a default one if there is none, to be changed in
  place: the change is the argument \<open>f\<close>.
\<close>

definition entry :: "string \<Rightarrow> (extension_state \<Rightarrow> extension_state) \<Rightarrow> state \<Rightarrow> state" where
  "entry name f s =
     s\<lparr>extensions :=
       bt_insert name (f (case state_get s name of None \<Rightarrow> default_extension | Some e \<Rightarrow> e)) (extensions s)\<rparr>"

definition state_required :: "state \<Rightarrow> string list" where
  "state_required s = map fst (filter (\<lambda>(name, e). required e) (extensions s))"

definition stale :: "string \<Rightarrow> extension_state \<Rightarrow> bool" where
  "stale current e \<longleftrightarrow> is_terminal (phase e) \<and> terminal_os_version e \<noteq> Some current"

definition forget :: "extension_state \<Rightarrow> extension_state" where
  "forget e = e\<lparr>phase := Idle, last_failure := None, terminal_os_version := None\<rparr>"

fun forget_from :: "string \<Rightarrow> (string \<times> extension_state) list \<Rightarrow> string list \<times> (string \<times> extension_state) list" where
  "forget_from current [] = ([], [])"
| "forget_from current ((name, e) # m) =
     (case forget_from current m of
        (cleared, m') \<Rightarrow>
          if \<not> is_terminal (phase e) then (cleared, (name, e) # m')
          else if terminal_os_version e = Some current then (cleared, (name, e) # m')
          else (name # cleared, (name, forget e) # m'))"

definition forget_stale_terminals :: "string \<Rightarrow> state \<Rightarrow> string list \<times> state" where
  "forget_stale_terminals current s =
     (case forget_from current (extensions s) of (cleared, m) \<Rightarrow> (cleared, s\<lparr>extensions := m\<rparr>))"

text \<open>The names are kept in order by every operation.\<close>

definition well_ordered :: "state \<Rightarrow> bool" where
  "well_ordered s \<longleftrightarrow> ordered (extensions s)"

lemma entry_well_ordered [simp]: "well_ordered s \<Longrightarrow> well_ordered (entry name f s)"
  by (simp add: well_ordered_def entry_def ordered_bt_insert)

lemma default_well_ordered [simp]: "well_ordered default_state"
  by (simp add: well_ordered_def default_state_def ordered_def)

lemma state_get_entry [simp]:
  "well_ordered s \<Longrightarrow> state_get (entry name f s) name' =
     (if name' = name then Some (f (case state_get s name of None \<Rightarrow> default_extension | Some e \<Rightarrow> e))
      else state_get s name')"
  by (simp add: well_ordered_def state_get_def entry_def map_of_bt_insert)

lemma forget_from_map:
  "forget_from current m =
     (map fst (filter (\<lambda>(_, e). stale current e) m),
      map (\<lambda>(n, e). (n, if stale current e then forget e else e)) m)"
proof (induction m)
  case (Cons x m)
  obtain n e where x: "x = (n, e)" by (cases x)
  with Cons show ?case
    by (cases "is_terminal (phase e)"; cases "terminal_os_version e = Some current") (simp_all add: stale_def)
qed simp

lemma forget_well_ordered: "well_ordered s \<Longrightarrow> well_ordered (snd (forget_stale_terminals c s))"
  by (simp add: well_ordered_def forget_stale_terminals_def forget_from_map ordered_map_values)

lemma state_get_forget:
  "state_get (snd (forget_stale_terminals c s)) n =
     map_option (\<lambda>e. if stale c e then forget e else e) (state_get s n)"
  by (simp add: state_get_def forget_stale_terminals_def forget_from_map map_of_map)

lemma stale_forget [simp]: "\<not> stale c (forget e)"
  by (simp add: stale_def forget_def is_terminal_def)

section \<open>Properties\<close>

lemma completed_after:
  "\<not> already_completed e i \<Longrightarrow> completed_requests (record_completed i e) =
     drop (Suc (length (completed_requests e)) - 64) (completed_requests e @ [i])"
  by (simp add: record_completed_def COMPLETED_REQUEST_HISTORY_def Let_def)

lemma completed_bound_step:
  "length (completed_requests e) \<le> 64 \<Longrightarrow> length (completed_requests (record_completed i e)) \<le> 64"
  by (simp add: record_completed_def COMPLETED_REQUEST_HISTORY_def Let_def)

lemma completed_bound:
  "length (completed_requests e) \<le> 64 \<Longrightarrow> length (completed_requests (fold record_completed js e)) \<le> 64"
  by (induction js arbitrary: e) (simp_all add: completed_bound_step)

lemma completed_step:
  assumes "completed_requests e = pre @ i # post" "length post < 63"
  shows "\<exists>pre' post'. completed_requests (record_completed j e) = pre' @ i # post' \<and>
    length post' \<le> Suc (length post)"
proof (cases "already_completed e j")
  case True
  then show ?thesis using assms(1) by (auto simp: record_completed_def intro!: exI)
next
  case False
  define k where "k = Suc (length (completed_requests e)) - 64"
  have "k \<le> length pre" using assms by (simp add: k_def)
  then have "drop k (completed_requests e @ [j]) = drop k pre @ i # (post @ [j])"
    using assms(1) by simp
  moreover have "completed_requests (record_completed j e) = drop k (completed_requests e @ [j])"
    unfolding k_def by (rule completed_after [OF False])
  ultimately show ?thesis by (metis length_append_singleton order_refl)
qed

lemma completed_kept:
  assumes "completed_requests e = pre @ i # post" "length post + length js \<le> 63"
  shows "\<exists>pre' post'. completed_requests (fold record_completed js e) = pre' @ i # post'"
  using assms
proof (induction js arbitrary: e pre post)
  case (Cons j js)
  from Cons.prems have "length post < 63" by simp
  from completed_step [OF Cons.prems(1) this, of j] obtain pre' post' where
    step: "completed_requests (record_completed j e) = pre' @ i # post'" "length post' \<le> Suc (length post)"
    by blast
  from Cons.IH [OF step(1)] step(2) Cons.prems(2) show ?case by simp
qed auto

text \<open>
  C26: the history of completed requests never grows beyond 64 identifiers, and a request that was
  recorded is still recognised as completed after any 63 further requests, so that a replayed
  activation cannot invert a later one.
\<close>

theorem completed_requests_retained:
  assumes "length (completed_requests e) \<le> 64" "\<not> already_completed e i" "length js \<le> 63"
  shows "already_completed (fold record_completed js (record_completed i e)) i \<and>
    length (completed_requests (fold record_completed js (record_completed i e))) \<le> 64"
proof
  define k where "k = Suc (length (completed_requests e)) - 64"
  have "completed_requests (record_completed i e) = drop k (completed_requests e @ [i])"
    unfolding k_def by (rule completed_after [OF assms(2)])
  moreover have "k \<le> length (completed_requests e)"
    using assms(1) by (simp add: k_def)
  ultimately have "completed_requests (record_completed i e) = drop k (completed_requests e) @ i # []"
    by simp
  from completed_kept [OF this, of js] assms(3)
  show "already_completed (fold record_completed js (record_completed i e)) i"
    by (auto simp: already_completed_def)
  show "length (completed_requests (fold record_completed js (record_completed i e))) \<le> 64"
    using assms(1) by (intro completed_bound completed_bound_step)
qed

lemma completed_requests_retained_witness:
  "already_completed (fold record_completed [''b'', ''c''] (record_completed ''a'' default_extension)) ''a''"
  using completed_requests_retained [of default_extension "''a''" "[''b'', ''c'']"]
  by (simp add: default_extension_def already_completed_def)

text \<open>
  C27: \<open>forget_stale_terminals\<close> clears exactly the refusals recorded under another base image: it
  names them in order, turns them into idle records without a failure, leaves every other record as
  it is, and finds nothing more to clear when it runs again.
\<close>

theorem forget_stale_terminals_exact:
  "case forget_stale_terminals c s of (cleared, s') \<Rightarrow>
     cleared = map fst (filter (\<lambda>(n, e). phase e = Unrecoverable \<and> terminal_os_version e \<noteq> Some c) (extensions s)) \<and>
     (\<forall>n. state_get s' n = map_option (\<lambda>e.
        if phase e = Unrecoverable \<and> terminal_os_version e \<noteq> Some c
        then e\<lparr>phase := Idle, last_failure := None, terminal_os_version := None\<rparr> else e) (state_get s n)) \<and>
     forget_stale_terminals c s' = ([], s')"
proof -
  have again: "forget_from c (map (\<lambda>(n, e). (n, if stale c e then forget e else e)) m) =
      ([], map (\<lambda>(n, e). (n, if stale c e then forget e else e)) m)" for m
    by (induction m) (auto simp: stale_def forget_def is_terminal_def)
  let ?m = "map (\<lambda>(n, e). (n, if stale c e then forget e else e)) (extensions s)"
  have run: "forget_stale_terminals c s =
      (map fst (filter (\<lambda>(_, e). stale c e) (extensions s)), s\<lparr>extensions := ?m\<rparr>)"
    by (simp add: forget_stale_terminals_def forget_from_map)
  have "forget_stale_terminals c (s\<lparr>extensions := ?m\<rparr>) = ([], s\<lparr>extensions := ?m\<rparr>)"
    by (simp add: forget_stale_terminals_def again)
  moreover have "state_get (s\<lparr>extensions := ?m\<rparr>) n =
      map_option (\<lambda>e. if stale c e then forget e else e) (state_get s n)" for n
    using state_get_forget [of c s n] by (simp add: run)
  moreover have "stale c = (\<lambda>e. phase e = Unrecoverable \<and> terminal_os_version e \<noteq> Some c)"
    by (simp add: fun_eq_iff stale_def is_terminal_def)
  ultimately show ?thesis
    unfolding run prod.case by (simp only: forget_def simp_thms)
qed

end
