(* ===== verification/Protocol.thy ===== *)
theory Protocol
  imports Agent_State
begin

text \<open>
  The wire types of the agent's socket, \<open>agent/src/protocol.rs\<close>: stages, codes, structured failures
  with their bounded diagnostics, and replies. Values inside a reply are those of \<open>serde_json\<close> and
  stay a type variable.
\<close>

section \<open>Failures\<close>

definition PROTOCOL_VERSION :: nat where
  "PROTOCOL_VERSION = 1"

definition COMMANDS :: "string list" where
  "COMMANDS =
     [''hello'', ''update-status'', ''stage-extension'', ''activate-extension'', ''stage-base'', ''logs'']"

datatype stage = Checking | Validating | Staging | AtActivating | AtSoaking | AtReverting

datatype code = Unsupported | Malformed | CodeNotFound | DigestMismatch | Untrusted | BaseMismatch
  | Busy | NoSpace | Precondition | Failed

record failure =
  code :: code
  message :: string
  stage :: "stage option"
  failed_command :: "string option"
  exit_code :: "int option"
  stderr_tail :: "string option"
  failed_unit :: "string option"
  log :: "string list"
  supported :: "string list"

definition STDERR_LIMIT :: nat where
  "STDERR_LIMIT = 4096"

definition new_failure :: "code \<Rightarrow> string \<Rightarrow> failure" where
  "new_failure c m =
     \<lparr>code = c, message = m, stage = None, failed_command = None, exit_code = None,
      stderr_tail = None, failed_unit = None, log = [], supported = []\<rparr>"

definition at :: "stage \<Rightarrow> failure \<Rightarrow> failure" where
  "at s f = f\<lparr>stage := Some s\<rparr>"

definition with_command :: "string \<Rightarrow> failure \<Rightarrow> failure" where
  "with_command c f = f\<lparr>failed_command := Some c\<rparr>"

definition with_exit_code :: "int option \<Rightarrow> failure \<Rightarrow> failure" where
  "with_exit_code c f = f\<lparr>exit_code := c\<rparr>"

text \<open>The start of a tail is moved up to the next character boundary, as \<open>char_indices\<close> gives it.\<close>

definition is_continuation :: "char \<Rightarrow> bool" where
  "is_continuation c \<longleftrightarrow> 0x80 \<le> byte c \<and> byte c < 0xC0"

definition stderr_text :: "string \<Rightarrow> string" where
  "stderr_text text =
     (if length text > STDERR_LIMIT
      then ''...'' @ dropWhile is_continuation (drop (length text - STDERR_LIMIT) text)
      else text)"

definition with_stderr :: "string \<Rightarrow> failure \<Rightarrow> failure" where
  "with_stderr s f =
     (let text = trim s in if text = [] then f else f\<lparr>stderr_tail := Some (stderr_text text)\<rparr>)"

definition with_unit :: "string \<Rightarrow> failure \<Rightarrow> failure" where
  "with_unit u f = f\<lparr>failed_unit := Some u\<rparr>"

definition with_log :: "string list \<Rightarrow> failure \<Rightarrow> failure" where
  "with_log l f = f\<lparr>log := l\<rparr>"

definition unsupported :: "string \<Rightarrow> failure" where
  "unsupported command =
     (new_failure Unsupported (''unknown command '' @ debug_str command))\<lparr>supported := COMMANDS\<rparr>"

section \<open>Replies\<close>

text \<open>A \<open>serde_json\<close> map is ordered by its keys.\<close>

record 'v reply =
  success :: bool
  protocol :: nat
  error :: "failure option"
  data :: "(string \<times> 'v) list"

definition reply_ok :: "'v reply" where
  "reply_ok = \<lparr>success = True, protocol = PROTOCOL_VERSION, error = None, data = []\<rparr>"

definition with_value :: "string \<Rightarrow> 'v \<Rightarrow> 'v reply \<Rightarrow> 'v reply" where
  "with_value k v r = r\<lparr>data := bt_insert k v (data r)\<rparr>"

definition maybe :: "string \<Rightarrow> 'v option \<Rightarrow> 'v reply \<Rightarrow> 'v reply" where
  "maybe k v r = (case v of Some x \<Rightarrow> with_value k x r | None \<Rightarrow> r)"

definition reply_failed :: "failure \<Rightarrow> 'v reply" where
  "reply_failed f = \<lparr>success = False, protocol = PROTOCOL_VERSION, error = Some f, data = []\<rparr>"

lemmas reply_defs = reply_ok_def with_value_def maybe_def reply_failed_def

lemma failure_simps [simp]:
  "code (new_failure c m) = c" "message (new_failure c m) = m" "code (at s f) = code f"
  "message (at s f) = message f" "stage (at s f) = Some s" "code (with_command x f) = code f"
  "code (with_exit_code y f) = code f" "code (with_stderr z f) = code f" "code (with_unit u f) = code f"
  "code (with_log l f) = code f" "stage (with_command x f) = stage f"
  "stage (with_exit_code y f) = stage f" "stage (with_stderr z f) = stage f"
  "stage (with_unit u f) = stage f" "stage (with_log l f) = stage f" "stage (new_failure c m) = None"
  by (simp_all add: new_failure_def at_def with_command_def with_exit_code_def with_stderr_def with_unit_def
      with_log_def Let_def)

lemma reply_failed_simps [simp]:
  "success (reply_failed f) = False" "error (reply_failed f) = Some f" "data (reply_failed f) = []"
  by (simp_all add: reply_failed_def)

text \<open>The tail of a valid text is valid: dropping to a boundary never cuts a character.\<close>

lemma continuation_bytes: "cont c lo hi \<Longrightarrow> 0x80 \<le> lo \<Longrightarrow> hi \<le> 0xBF \<Longrightarrow> is_continuation c"
  by (simp add: cont_def is_continuation_def)

lemma utf8_step:
  assumes "utf8_valid (a # s)"
  shows "\<exists>cs t. s = cs @ t \<and> list_all is_continuation cs \<and> length cs \<le> 3 \<and> \<not> is_continuation a \<and> utf8_valid t"
proof -
  define x where "x = byte a"
  have na: "\<not> is_continuation a"
    using assms by (auto simp: is_continuation_def Let_def split: if_splits)
  note valid = assms [simplified, unfolded x_def [symmetric] Let_def]
  have take2: "\<exists>cs t. b # t' = cs @ t \<and> list_all is_continuation cs \<and> length cs \<le> 3 \<and> utf8_valid t"
    if "is_continuation b" "utf8_valid t'" for b t'
    using that by (intro exI [of _ "[b]"] exI [of _ t']) simp
  have take3: "\<exists>cs t. b # c # t' = cs @ t \<and> list_all is_continuation cs \<and> length cs \<le> 3 \<and> utf8_valid t"
    if "is_continuation b" "is_continuation c" "utf8_valid t'" for b c t'
    using that by (intro exI [of _ "[b, c]"] exI [of _ t']) simp
  have take4: "\<exists>cs t. b # c # d # t' = cs @ t \<and> list_all is_continuation cs \<and> length cs \<le> 3 \<and> utf8_valid t"
    if "is_continuation b" "is_continuation c" "is_continuation d" "utf8_valid t'" for b c d t'
    using that by (intro exI [of _ "[b, c, d]"] exI [of _ t']) simp
  consider "x < 0x80" | "\<not> x < 0x80" "0xC2 \<le> x \<and> x \<le> 0xDF" | "0xE0 \<le> x \<and> x \<le> 0xEF" | "0xF0 \<le> x \<and> x \<le> 0xF4"
    using valid by (auto split: if_splits)
  then show ?thesis
  proof cases
    case 1
    with valid na show ?thesis by (intro exI [of _ "[]"] exI [of _ s]) simp
  next
    case 2
    with valid obtain b t where "s = b # t" "cont b 0x80 0xBF" "utf8_valid t"
      by (auto split: list.splits)
    with take2 [of b t] na show ?thesis by (auto dest: continuation_bytes)
  next
    case 3
    with valid obtain b c t lo hi where "s = b # c # t" "cont b lo hi" "cont c 0x80 0xBF" "utf8_valid t"
      "0x80 \<le> lo" "hi \<le> 0xBF"
      by (auto split: list.splits if_splits)
    with take3 [of b c t] na show ?thesis by (auto dest: continuation_bytes)
  next
    case 4
    with valid obtain b c d t lo hi where "s = b # c # d # t" "cont b lo hi" "cont c 0x80 0xBF"
      "cont d 0x80 0xBF" "utf8_valid t" "0x80 \<le> lo" "hi \<le> 0xBF"
      by (auto split: list.splits if_splits)
    with take4 [of b c d t] na show ?thesis by (auto dest: continuation_bytes)
  qed
qed

lemma utf8_no_continuation: "utf8_valid s \<Longrightarrow> dropWhile is_continuation s = s"
  using utf8_step by (cases s) auto

lemma utf8_tail:
  "utf8_valid s \<Longrightarrow> utf8_valid (dropWhile is_continuation (drop n s))"
proof (induction "length s" arbitrary: s n rule: less_induct)
  case less
  show ?case
  proof (cases s)
    case (Cons a r)
    from utf8_step [OF less.prems [unfolded Cons]] obtain cs t where
      r: "r = cs @ t" "list_all is_continuation cs" "utf8_valid t" by blast
    show ?thesis
    proof (cases n)
      case 0
      then show ?thesis using less.prems by (simp add: utf8_no_continuation)
    next
      case (Suc m)
      have all: "list_all is_continuation (drop m cs)"
        using r(2) by (meson in_set_dropD list_all_iff)
      show ?thesis
      proof (cases "m \<le> length cs")
        case True
        with all r(1) Cons Suc have "dropWhile is_continuation (drop n s) = dropWhile is_continuation t"
          by (simp add: dropWhile_append2 list_all_iff)
        then show ?thesis using r(3) by (simp add: utf8_no_continuation)
      next
        case False
        then have "drop n s = drop (m - length cs) t" using Cons Suc r(1) by simp
        then show ?thesis using less.hyps [of t] r(1,3) Cons by simp
      qed
    qed
  qed simp
qed

lemma stderr_text_tail:
  "length text > 4096 \<Longrightarrow> \<exists>cut. text = cut @ drop 3 (stderr_text text)"
proof -
  assume "length text > 4096"
  then have "stderr_text text = ''...'' @ dropWhile is_continuation (drop (length text - 4096) text)"
    by (simp add: stderr_text_def STDERR_LIMIT_def)
  then have "drop 3 (stderr_text text) = dropWhile is_continuation (drop (length text - 4096) text)" by simp
  moreover have "\<exists>cut. text = cut @ dropWhile is_continuation (drop n text)" for n
    by (metis append.assoc append_take_drop_id takeWhile_dropWhile_id)
  ultimately show ?thesis by metis
qed

section \<open>Properties\<close>

text \<open>
  C29: the diagnostics in a failure are bounded and never cut a character. What is kept of a
  program's trimmed standard error is valid text of at most 4099 bytes: the text itself when it
  fits, else its end behind three dots.
\<close>

theorem failure_stderr_bounded:
  assumes "utf8_valid (trim s)"
  shows "case stderr_tail (with_stderr s (new_failure c m)) of
      None \<Rightarrow> trim s = []
    | Some t \<Rightarrow> trim s \<noteq> [] \<and> utf8_valid t \<and> length t \<le> 4099 \<and>
        (if length (trim s) \<le> 4096 then t = trim s
         else \<exists>cut tail. t = ''...'' @ tail \<and> trim s = cut @ tail \<and> length cut \<ge> length (trim s) - 4096)"
proof (cases "trim s = []")
  case True
  then show ?thesis by (simp add: with_stderr_def new_failure_def)
next
  case False
  define whole where "whole = trim s"
  have eq: "stderr_tail (with_stderr s (new_failure c m)) = Some (stderr_text whole)"
    using False by (simp add: with_stderr_def whole_def Let_def)
  show ?thesis
  proof (cases "length whole \<le> 4096")
    case True
    then show ?thesis
      using False assms unfolding eq by (simp add: whole_def stderr_text_def STDERR_LIMIT_def)
  next
    case long: False
    define tail where "tail = dropWhile is_continuation (drop (length whole - 4096) whole)"
    have t: "stderr_text whole = ''...'' @ tail" using long by (simp add: stderr_text_def tail_def STDERR_LIMIT_def)
    have "utf8_valid tail" unfolding tail_def by (rule utf8_tail) (use assms in \<open>simp add: whole_def\<close>)
    then have valid: "utf8_valid (stderr_text whole)" by (simp add: t byte_def)
    have len: "length tail \<le> 4096"
      using length_dropWhile_le [of is_continuation "drop (length whole - 4096) whole"] long
      by (simp add: tail_def)
    obtain cut where cut: "whole = cut @ tail" using stderr_text_tail [of whole] long t by auto
    then have "length cut = length whole - length tail" by simp
    with len have "length cut \<ge> length whole - 4096" by simp
    with valid len cut t False long show ?thesis
      unfolding eq by (auto simp: whole_def [symmetric])
  qed
qed

lemma failure_stderr_bounded_witness:
  "stderr_tail (with_stderr '' no space '' (new_failure Failed ''x'')) \<noteq> None"
proof -
  have "utf8_valid (trim '' no space '')" "trim '' no space '' \<noteq> []" by code_simp+
  with failure_stderr_bounded [of "'' no space ''" Failed "''x''"] show ?thesis
    by (auto split: option.splits)
qed

end
