(* ===== verification/Platform.thy ===== *)
theory Platform
  imports Protocol
begin

text \<open>
  What the agent calls and the repository does not hold: the programs it runs, the health command
  it spawns and the JSON library. They are the fields of a record that every definition built on
  them takes as its argument. Also here are the thin wrappers of \<open>agent/src/system.rs\<close> around a
  finished command.
\<close>

section \<open>Commands\<close>

text \<open>\<open>inherited\<close> is the lock descriptor that the child keeps across \<open>exec\<close>.\<close>

record command =
  program :: string
  arguments :: "string list"
  inherited :: "nat option"

record command_output =
  output_code :: "int option"
  output_success :: bool
  output_stdout :: string
  output_stderr :: string

text \<open>
  \<open>exec\<close> runs a program to its end, \<open>spawn\<close> starts the health command and \<open>try_wait\<close> asks for its
  exit status (whether it is a success, and its \<open>Display\<close>). \<open>encode_state\<close> is
  \<open>serde_json::to_vec_pretty\<close> and \<open>decode_state\<close> is \<open>serde_json::from_slice\<close> on the agent's state.
\<close>

record ('e, 'v) platform =
  exec :: "command \<Rightarrow> ('e, io_error + command_output) io"
  spawn :: "string list \<Rightarrow> ('e, io_error + nat) io"
  try_wait :: "nat \<Rightarrow> ('e, io_error + (bool \<times> string) option) io"
  kill :: "nat \<Rightarrow> ('e, io_error + unit) io"
  wait :: "nat \<Rightarrow> ('e, io_error + bool \<times> string) io"
  json_parse :: "string \<Rightarrow> string + 'v"
  json_get :: "'v \<Rightarrow> string \<Rightarrow> 'v option"
  json_str :: "'v \<Rightarrow> string option"
  json_u64 :: "'v \<Rightarrow> u64 option"
  json_array :: "'v \<Rightarrow> 'v list option"
  value_str :: "string \<Rightarrow> 'v"
  value_bool :: "bool \<Rightarrow> 'v"
  value_strs :: "string list \<Rightarrow> 'v"
  encode_state :: "state \<Rightarrow> string + string"
  decode_state :: "string \<Rightarrow> string + state"
  encode_reply :: "'v reply \<Rightarrow> string option"

definition plain_command :: "string \<Rightarrow> string list \<Rightarrow> command" where
  "plain_command prog args = \<lparr>program = prog, arguments = args, inherited = None\<rparr>"

definition retain_operation_lock :: "nat option \<Rightarrow> command \<Rightarrow> command" where
  "retain_operation_lock fd c = (case fd of None \<Rightarrow> c | Some i \<Rightarrow> c\<lparr>inherited := Some i\<rparr>)"

definition run :: "('e, 'v) platform \<Rightarrow> string \<Rightarrow> string list \<Rightarrow> ('e, io_error + command_output) io" where
  "run P prog args = exec P (plain_command prog args)"

definition run_mutating :: "('e, 'v) platform \<Rightarrow> string \<Rightarrow> string list \<Rightarrow> ('e, io_error + command_output) io" where
  "run_mutating P prog args =
     bind (reads lock_fd) (\<lambda>fd. exec P (retain_operation_lock fd (plain_command prog args)))"

record finished =
  finished_command :: string
  finished_code :: "int option"
  finished_stdout :: string
  finished_stderr :: string
  finished_ok :: bool

definition finish :: "string \<Rightarrow> string list \<Rightarrow> command_output \<Rightarrow> finished" where
  "finish prog args out =
     \<lparr>finished_command = prog @ concat (map (\<lambda>a. '' '' @ a) args), finished_code = output_code out,
      finished_stdout = lossy (output_stdout out), finished_stderr = lossy (output_stderr out),
      finished_ok = output_success out\<rparr>"

definition capture :: "('e, 'v) platform \<Rightarrow> string \<Rightarrow> string list \<Rightarrow> ('e, io_error + finished) io" where
  "capture P prog args = and_then (run P prog args) (\<lambda>out. ret (Ok (finish prog args out)))"

definition capture_mutating ::
  "('e, 'v) platform \<Rightarrow> string \<Rightarrow> string list \<Rightarrow> ('e, io_error + finished) io" where
  "capture_mutating P prog args =
     and_then (run_mutating P prog args) (\<lambda>out. ret (Ok (finish prog args out)))"

section \<open>Programs that leave the agent's files alone\<close>

text \<open>
  \<open>tame P p\<close>: no program that the agent runs touches the path \<open>p\<close>. The tools of systemd merge, read
  and restart; the files in the agent's own directories are its own.
\<close>

definition tame :: "('e, 'v) platform \<Rightarrow> path \<Rightarrow> bool" where
  "tame P p \<longleftrightarrow>
     (\<forall>u c. keeps (stays p u) (exec P c)) \<and> (\<forall>u c. keeps (stays p u) (spawn P c)) \<and>
     (\<forall>u c. keeps (stays p u) (try_wait P c)) \<and> (\<forall>u c. keeps (stays p u) (kill P c)) \<and>
     (\<forall>u c. keeps (stays p u) (wait P c))"

text \<open>\<open>obeys P I\<close>: no program, and no waiting or printing, breaks \<open>I\<close>.\<close>

definition obeys :: "('e, 'v) platform \<Rightarrow> ('e world \<Rightarrow> bool) \<Rightarrow> bool" where
  "obeys P I \<longleftrightarrow>
     (\<forall>c. keeps I (exec P c)) \<and> (\<forall>c. keeps I (spawn P c)) \<and> (\<forall>i. keeps I (try_wait P i)) \<and>
     (\<forall>i. keeps I (kill P i)) \<and> (\<forall>i. keeps I (wait P i)) \<and>
     (\<forall>d. keeps I (sleep d)) \<and> (\<forall>l. keeps I (say l))"

lemma tame_obeys: "tame P p \<Longrightarrow> obeys P (stays p u)"
  by (simp add: tame_def obeys_def keeps_sleep keeps_say)

lemma obeysD [keeps_intros]:
  assumes "obeys P I"
  shows "keeps I (exec P c)" "keeps I (spawn P a)" "keeps I (try_wait P i)" "keeps I (kill P i)"
    "keeps I (wait P i)"
  using assms by (simp_all add: obeys_def)

lemma obeys_rest: "obeys P I \<Longrightarrow> keeps I (sleep d)" "obeys P I \<Longrightarrow> keeps I (say l)"
  by (simp_all add: obeys_def)

lemma keeps_run [keeps_intros]: "obeys P I \<Longrightarrow> keeps I (run P prog args)"
  unfolding run_def by (intro keeps_intros)

lemma keeps_run_mutating [keeps_intros]: "obeys P I \<Longrightarrow> keeps I (run_mutating P prog args)"
  unfolding run_mutating_def by (intro keeps_intros)

lemma keeps_capture [keeps_intros]: "obeys P I \<Longrightarrow> keeps I (capture P prog args)"
  unfolding capture_def by (intro keeps_intros)

lemma keeps_capture_mutating [keeps_intros]: "obeys P I \<Longrightarrow> keeps I (capture_mutating P prog args)"
  unfolding capture_mutating_def by (intro keeps_intros)

end
