(* ===== verification/State_Store.thy ===== *)
theory State_Store
  imports Platform
begin

text \<open>
  The side of \<open>agent/src/state.rs\<close> that touches the world: the version of the running base, the
  lock that every mutation holds, and the durable record of the agent's state.
\<close>

section \<open>The running base\<close>

definition STATE_DIR :: path where
  "STATE_DIR = ''/var/lib/carbide/agent''"

definition STATE_FILE :: string where
  "STATE_FILE = ''state.json''"

definition LOCK_FILE :: string where
  "LOCK_FILE = ''operation.lock''"

definition OS_RELEASE :: path where
  "OS_RELEASE = ''/etc/os-release''"

text \<open>The text of the sealed \<open>/etc/os-release\<close>, if it can be read.\<close>

definition os_release :: "'e world \<Rightarrow> string option" where
  "os_release w =
     (case bytes_at w OS_RELEASE of None \<Rightarrow> None | Some b \<Rightarrow> if utf8_valid b then Some b else None)"

fun os_version_in :: "string list \<Rightarrow> string option" where
  "os_version_in [] = None"
| "os_version_in (line # rest) =
     (case strip_prefix ''VERSION_ID='' line of
        Some value \<Rightarrow> Some (trim_matches (CHR 0x22) (trim value))
      | None \<Rightarrow> os_version_in rest)"

definition os_version :: "'e world \<Rightarrow> string option" where
  "os_version w = (case os_release w of None \<Rightarrow> None | Some t \<Rightarrow> os_version_in (str_lines t))"

lemma os_version_cong: "bytes_at w' OS_RELEASE = bytes_at w OS_RELEASE \<Longrightarrow> os_version w' = os_version w"
  by (simp add: os_version_def os_release_def)

section \<open>The operation lock\<close>

text \<open>The lock is held by whoever has the lock file locked; \<open>lock_fd\<close> is \<open>OPERATION_LOCK_FD\<close>.\<close>

datatype try_lock_error = LockWouldBlock | LockError io_error

definition fs_open_or_create :: "path \<Rightarrow> ('e, io_error + nat) io" where
  "fs_open_or_create p =
     prim nothing (\<lambda>w.
       if p \<in> set (dirs w) then (Err (IoError OtherIo ''Is a directory (os error 21)''), w)
       else case map_of (live w) p of
         Some i \<Rightarrow> (Ok i, w)
       | None \<Rightarrow> if has_parent w p then (Ok (fresh w), new_file p w) else (Err not_found, w))"

definition fs_lock :: "nat \<Rightarrow> ('e, io_error + unit) io" where
  "fs_lock i w =
     (if lock_taken w then (Stopped Blocked, w)
      else prim nothing (\<lambda>w. (Ok (), w\<lparr>lock_taken := True\<rparr>)) w)"

definition fs_try_lock :: "nat \<Rightarrow> ('e, try_lock_error + unit) io" where
  "fs_try_lock i =
     bind (prim nothing (\<lambda>w. (Ok (\<not> lock_taken w), w\<lparr>lock_taken := True\<rparr>))) (\<lambda>r.
       ret (case r of Inl e \<Rightarrow> Err (LockError e) | Inr got \<Rightarrow> if got then Ok () else Err LockWouldBlock))"

definition open_at :: "path \<Rightarrow> ('e, io_error + nat) io" where
  "open_at d = and_then (fs_create_dir_all d) (\<lambda>_. fs_open_or_create (join d LOCK_FILE))"

definition own :: "nat \<Rightarrow> ('e, nat) io" where
  "own i w = (Done i, w\<lparr>lock_fd := Some i\<rparr>)"

definition acquire :: "('e, io_error + nat) io" where
  "acquire =
     and_then (open_at STATE_DIR) (\<lambda>i.
     and_then (fs_lock i) (\<lambda>_.
     bind (own i) (\<lambda>l. ret (Ok l))))"

definition try_acquire_at :: "path \<Rightarrow> ('e, io_error + nat option) io" where
  "try_acquire_at d =
     and_then (open_at d) (\<lambda>i.
     bind (fs_try_lock i) (\<lambda>r.
       case r of
         Inr _ \<Rightarrow> bind (own i) (\<lambda>l. ret (Ok (Some l)))
       | Inl LockWouldBlock \<Rightarrow> ret (Ok None)
       | Inl (LockError e) \<Rightarrow> ret (Err e)))"

definition try_acquire :: "('e, io_error + nat option) io" where
  "try_acquire = try_acquire_at STATE_DIR"

text \<open>Dropping the lock forgets the descriptor if it is still this one, and closes the file.\<close>

definition drop_lock :: "nat \<Rightarrow> ('e, unit) io" where
  "drop_lock i w =
     (Done (), w\<lparr>lock_fd := (if lock_fd w = Some i then None else lock_fd w), lock_taken := False\<rparr>)"

section \<open>Loading and storing\<close>

definition state_path :: path where
  "state_path = join STATE_DIR STATE_FILE"

definition load_state :: "('e, 'v) platform \<Rightarrow> ('e, io_error + state) io" where
  "load_state P =
     bind (fs_read state_path) (\<lambda>r.
       case r of
         Inr bytes \<Rightarrow>
           (case decode_state P bytes of
              Inl e \<Rightarrow> ret (Err (IoError InvalidData (''corrupt agent state: '' @ e)))
            | Inr s \<Rightarrow> ret (Ok s))
       | Inl e \<Rightarrow> if kind e = NotFound then ret (Ok default_state) else ret (Err e))"

definition store :: "('e, 'v) platform \<Rightarrow> state \<Rightarrow> ('e, io_error + unit) io" where
  "store P s =
     and_then (fs_create_dir_all STATE_DIR) (\<lambda>_.
       let target = state_path;
           staging = join STATE_DIR (''.'' @ STATE_FILE @ ''.new'')
       in case encode_state P s of
            Inl e \<Rightarrow> ret (Err (IoError InvalidData e))
          | Inr encoded \<Rightarrow>
              and_then (fs_create staging) (\<lambda>f.
              and_then (fs_write_all f (encoded @ [CHR 0x0A])) (\<lambda>_.
              and_then (fs_sync_file f) (\<lambda>_.
              and_then (fs_rename staging target) (\<lambda>_.
              and_then (fs_open_dir STATE_DIR) (\<lambda>_.
              fs_sync_dir STATE_DIR))))))"

section \<open>What the operations leave alone\<close>

lemma state_path_simp: "state_path = ''/var/lib/carbide/agent/state.json''"
  by (simp add: state_path_def STATE_DIR_def STATE_FILE_def path_simps)

lemma staging_path_simp:
  "join STATE_DIR (''.'' @ STATE_FILE @ ''.new'') = ''/var/lib/carbide/agent/.state.json.new''"
  by (simp add: STATE_DIR_def STATE_FILE_def path_simps)

definition state_staging :: path where
  "state_staging = ''/var/lib/carbide/agent/.state.json.new''"

lemma state_paths:
  "temporary state_staging" "\<not> temporary state_path" "state_path \<noteq> state_staging"
  "temporary_path state_path = Inr state_staging" "parent state_path = Some STATE_DIR"
proof -
  show "parent state_path = Some STATE_DIR"
    unfolding state_path_simp STATE_DIR_def
    using parent_plain [of "''state.json''" "''/var/lib/carbide/agent''"] by simp
  moreover have "file_name state_path = Some ''state.json''"
    unfolding state_path_simp
    using file_name_plain [of "''state.json''" "''/var/lib/carbide/agent''"] by simp
  ultimately show "temporary_path state_path = Inr state_staging"
    by (simp add: temporary_path_def state_staging_def STATE_DIR_def path_simps)
qed (simp_all add: temporary_def ends_with_def starts_with_def state_staging_def state_path_simp)

lemma keeps_os_stable: "keeps (stays OS_RELEASE u) m \<Longrightarrow> stays OS_RELEASE u w \<Longrightarrow> m w = (r, w') \<Longrightarrow>
    os_version w' = os_version u"
  by (rule os_version_cong) (auto dest!: keepsD simp: stays_def frame_bytes_at)

lemma hoare_ex: "(\<And>k. hoare (P k) m Q C) \<Longrightarrow> hoare (\<lambda>w. \<exists>k. P k w) m Q C"
  unfolding hoare_def by blast

lemma hoare_create_filled:
  assumes x: "temporary x" "t \<noteq> x"
  shows "hoare (stays t u) (fs_create x)
    (\<lambda>r. case r of Inl _ \<Rightarrow> stays t u
       | Inr i \<Rightarrow> \<lambda>w. \<exists>n. cached n = [] \<and> filled t u x i n w) (stays t u)"
  unfolding fs_create_def
proof (rule hoare_prim, goal_cases)
  case (4 w r w')
  show ?case
  proof (cases "x \<in> set (dirs w)")
    case False
    show ?thesis
    proof (cases "map_of (live w) x")
      case None
      with 4 x False show ?thesis
        by (auto simp: filled_def holding_def stays_new_file split: if_splits)
    next
      case (Some i)
      let ?n = "inodes w i\<lparr>cached := []\<rparr>"
      from Some 4 False have r: "r = Inr i" "w' = set_inode i ?n w" by auto
      have "filled t u x i ?n (set_inode i ?n w)"
        using 4(1) Some x by (intro filled_set_inode) (auto simp: filled_def holding_def)
      then have "\<exists>n. cached n = [] \<and> filled t u x i n (set_inode i ?n w)" by (intro exI [of _ ?n]) simp
      then show ?thesis by (simp add: r)
    qed
  qed (use 4 in auto)
qed auto

lemma hoare_write_filled:
  assumes x: "temporary x" "t \<noteq> x"
  shows "hoare (\<lambda>w. \<exists>n. cached n = [] \<and> filled t u x i n w) (fs_write_all i b)
    (\<lambda>r. case r of Inl _ \<Rightarrow> stays t u | Inr _ \<Rightarrow> \<lambda>w. \<exists>n. cached n = b \<and> filled t u x i n w) (stays t u)"
proof (rule hoare_ex)
  fix n
  show "hoare (\<lambda>w. cached n = [] \<and> filled t u x i n w) (fs_write_all i b)
    (\<lambda>r. case r of Inl _ \<Rightarrow> stays t u | Inr _ \<Rightarrow> \<lambda>w. \<exists>n. cached n = b \<and> filled t u x i n w) (stays t u)"
    unfolding fs_write_all_def
  proof (rule hoare_prim, goal_cases)
    case (4 w r w')
    then have "r = Inr ()" "w' = set_inode i (n\<lparr>cached := b\<rparr>) w"
      by (auto simp: append_bytes_def filled_def)
    with 4 x show ?case by (auto intro: filled_set_inode intro!: exI [of _ "n\<lparr>cached := b\<rparr>"])
  qed (use x in \<open>auto simp: append_bytes_def intro!: filled_stays [OF filled_set_inode]\<close>)
qed

lemma hoare_sync_written:
  assumes x: "temporary x" "t \<noteq> x"
  shows "hoare (\<lambda>w. \<exists>n. cached n = b \<and> filled t u x i n w) (fs_sync_file i)
    (\<lambda>r. case r of Inl _ \<Rightarrow> stays t u | Inr _ \<Rightarrow> \<lambda>w. \<exists>k. filled t u x i (whole b k) w) (stays t u)"
proof (rule hoare_ex)
  fix n
  have eq: "n\<lparr>synced := cached n\<rparr> = whole (cached n) (mode n)" by (simp add: whole_def)
  show "hoare (\<lambda>w. cached n = b \<and> filled t u x i n w) (fs_sync_file i)
    (\<lambda>r. case r of Inl _ \<Rightarrow> stays t u | Inr _ \<Rightarrow> \<lambda>w. \<exists>k. filled t u x i (whole b k) w) (stays t u)"
  proof (cases "cached n = b")
    case True
    show ?thesis
      by (rule hoare_weaken_result [OF hoare_sync_filled [OF x, of u i n]]) (use True eq in auto)
  next
    case False
    then show ?thesis by (simp add: hoare_def)
  qed
qed

lemma hoare_rename_written:
  assumes "temporary x" "\<not> temporary t"
  shows "hoare (\<lambda>w. \<exists>k. filled t u x i (whole b k) w) (fs_rename x t)
    (\<lambda>r. case r of Inl _ \<Rightarrow> stays t u | Inr _ \<Rightarrow> replaced b t u) (stays t u)"
  by (rule hoare_ex) (rule hoare_rename_filled [OF assms])

lemma hoare_attempt:
  assumes "hoare I m (\<lambda>r. case r of Inl _ \<Rightarrow> stays t u | Inr y \<Rightarrow> R y) (stays t u)"
  shows "hoare I m (\<lambda>r. case r of Inl e \<Rightarrow> attempt b t u (Inl e) | Inr y \<Rightarrow> R y) (tried b t u)"
  by (rule hoare_weaken_result [OF assms]) (simp_all add: tried_intros)

lemma hoare_store:
  assumes "encode_state P s = Ok b"
  shows "hoare (stays state_path u) (store P s)
    (attempt (b @ [CHR 0x0A]) state_path u) (tried (b @ [CHR 0x0A]) state_path u)"
proof -
  let ?b = "b @ [CHR 0x0A]"
  note x = state_paths(1) state_paths(3)
  show ?thesis
    unfolding store_def Let_def staging_path_simp assms sum.case state_staging_def [symmetric]
  proof (rule hoare_and_then [OF hoare_attempt [OF hoare_keeps_Ok [OF keeps_create_dir_all]]])
    fix y :: Product_Type.unit
    show "hoare (stays state_path u)
      (and_then (fs_create state_staging) (\<lambda>f. and_then (fs_write_all f ?b) (\<lambda>_. and_then (fs_sync_file f) (\<lambda>_.
        and_then (fs_rename state_staging state_path) (\<lambda>_. and_then (fs_open_dir STATE_DIR) (\<lambda>_. fs_sync_dir STATE_DIR))))))
      (attempt ?b state_path u) (tried ?b state_path u)"
    proof (rule hoare_and_then [OF hoare_attempt [OF hoare_create_filled [OF x]]])
      fix i
      show "hoare (\<lambda>w. \<exists>n. cached n = [] \<and> filled state_path u state_staging i n w)
        (and_then (fs_write_all i ?b) (\<lambda>_. and_then (fs_sync_file i) (\<lambda>_.
          and_then (fs_rename state_staging state_path) (\<lambda>_. and_then (fs_open_dir STATE_DIR) (\<lambda>_. fs_sync_dir STATE_DIR)))))
        (attempt ?b state_path u) (tried ?b state_path u)"
        by (rule hoare_and_then [OF hoare_attempt [OF hoare_write_filled [OF x]]],
            rule hoare_and_then [OF hoare_attempt [OF hoare_sync_written [OF x]]],
            rule hoare_and_then [OF hoare_attempt [OF hoare_rename_written [OF x(1) state_paths(2)]]],
            rule hoare_weaken_result [OF hoare_flush_replaced [OF state_paths(5), of ?b u]])
          (simp_all add: tried_intros)
    qed
  qed simp
qed

lemma filled_holding: "filled t u x i n w \<Longrightarrow> holding t u x i w"
  by (simp add: filled_def)

lemma hoare_create_holding:
  assumes "temporary x" "p \<noteq> x"
  shows "hoare (stays p u) (fs_create x)
    (\<lambda>r. case r of Inl _ \<Rightarrow> stays p u | Inr i \<Rightarrow> holding p u x i) (stays p u)"
  by (rule hoare_weaken_result [OF hoare_create_filled [OF assms]]) (auto simp: filled_holding)

lemma keeps_store:
  assumes p: "p \<noteq> state_path" "p \<noteq> state_staging"
  shows "keeps (stays p u) (store P s)"
proof -
  note x = state_paths(1) p(2)
  have hold: "holding p u state_staging i w \<Longrightarrow> stays p u w" for i w by (simp add: holding_def)
  have tail: "keeps (stays p u) (and_then (fs_rename state_staging state_path)
      (\<lambda>_. and_then (fs_open_dir STATE_DIR) (\<lambda>_. fs_sync_dir STATE_DIR)))"
    by (intro keeps_intros keeps_rename) (use p state_paths in auto)
  have body: "hoare (holding p u state_staging i) (and_then (fs_write_all i b) (\<lambda>_. and_then (fs_sync_file i)
      (\<lambda>_. and_then (fs_rename state_staging state_path)
        (\<lambda>_. and_then (fs_open_dir STATE_DIR) (\<lambda>_. fs_sync_dir STATE_DIR))))) (\<lambda>_. stays p u) (stays p u)" for i b
    by (intro hoare_and_then [where R = "\<lambda>_. holding p u state_staging i"]
        hoare_keeps_Ok [OF keeps_holding_inode(4) [OF x] hold]
        hoare_keeps_Ok [OF keeps_holding_inode(3) [OF x] hold]
        hoare_weaken [OF tail [unfolded keeps_iff_hoare]]) (simp_all add: hold)
  have written: "keeps (stays p u) (and_then (fs_create state_staging) (\<lambda>f. and_then (fs_write_all f b)
      (\<lambda>_. and_then (fs_sync_file f) (\<lambda>_. and_then (fs_rename state_staging state_path)
        (\<lambda>_. and_then (fs_open_dir STATE_DIR) (\<lambda>_. fs_sync_dir STATE_DIR))))))" for b
    unfolding keeps_iff_hoare
    by (rule hoare_and_then [OF hoare_create_holding [OF x] body])
  show ?thesis
    unfolding store_def Let_def staging_path_simp state_staging_def [symmetric]
    by (intro keeps_intros written)
qed

lemma keeps_load_state [keeps_intros]: "steady I \<Longrightarrow> keeps I (load_state P)"
  unfolding load_state_def by (intro keeps_intros)

interpretation storing: publisher "\<lambda>s t. store P s"
  "\<lambda>s b w. \<exists>x. encode_state P s = Ok x \<and> b = x @ [CHR 0x0A]" "\<lambda>t. t = state_path"
  for P :: "('e, 'v) platform"
proof
  fix t :: path and u :: "'e world" and s :: state and b :: string
  assume t: "t = state_path"
  show "hoare (\<lambda>w. stays t u w \<and> (\<exists>x. encode_state P s = Ok x \<and> b = x @ [CHR 0x0A]))
      (store P s) (attempt b t u) (tried b t u)"
  proof (cases "\<exists>x. encode_state P s = Ok x \<and> b = x @ [CHR 0x0A]")
    case True
    with t hoare_store [of P s _ u] show ?thesis by auto
  next
    case False
    then show ?thesis unfolding hoare_def by blast
  qed
next
  fix t p :: path and u :: "'e world" and s :: state
  assume "t = state_path" "p \<noteq> t" "temporary_path t \<noteq> Inr p"
  then show "keeps (stays p u) (store P s)" by (intro keeps_store) (auto simp: state_paths)
qed

section \<open>Properties\<close>

text \<open>\<open>codec P s\<close>: the JSON library reads back what it wrote for \<open>s\<close>, white space behind it or not.\<close>

definition codec :: "('e, 'v) platform \<Rightarrow> state \<Rightarrow> bool" where
  "codec P s \<longleftrightarrow> (case encode_state P s of Inl _ \<Rightarrow> False | Inr b \<Rightarrow> decode_state P (b @ [CHR 0x0A]) = Ok s)"

text \<open>What a file that \<open>load\<close> takes for the state \<open>s\<close> may be.\<close>

definition reads_as :: "('e, 'v) platform \<Rightarrow> state \<Rightarrow> string option \<Rightarrow> bool" where
  "reads_as P s z \<longleftrightarrow> (case z of None \<Rightarrow> s = default_state | Some b \<Rightarrow> decode_state P b = Ok s)"

lemma load_state_reads:
  assumes "reads_as P s (bytes_at w state_path)" "faults w = []"
  shows "load_state P w = (Done (Ok s), w)"
  using assms
  by (cases "bytes_at w state_path")
    (auto simp: load_state_def reads_as_def bind_def fs_read_def prim_def ret_def not_found_def)

text \<open>
  C8: the agent's record is never lost or torn. When \<open>store\<close> is cut short anywhere, or fails, the
  next boot loads either the state that was on disk before or the new one; when \<open>store\<close> returned
  success, the next boot loads the new state.
\<close>

theorem store_crash_safe:
  assumes "coherent w" "survives w state_path (reads_as P old)" "codec P s"
    and "store P s w = (r, w')" "power_loss w' w''" "faults w'' = []"
  shows "fst (load_state P w'') \<in> {Done (Ok old), Done (Ok s)} \<and>
    (r = Done (Ok ()) \<longrightarrow> fst (load_state P w'') = Done (Ok s))"
proof -
  obtain b where b: "encode_state P s = Ok b" "decode_state P (b @ [CHR 0x0A]) = Ok s"
    using assms(3) by (auto simp: codec_def split: sum.splits)
  let ?b = "b @ [CHR 0x0A]"
  have new: "bytes_at w'' state_path = Some ?b \<Longrightarrow> load_state P w'' = (Done (Ok s), w'')"
    using b(2) assms(6) by (intro load_state_reads) (simp_all add: reads_as_def)
  have old: "reads_as P old (bytes_at w'' state_path) \<Longrightarrow> load_state P w'' = (Done (Ok old), w'')"
    by (rule load_state_reads [OF _ assms(6)])
  have pre: "\<exists>x. encode_state P s = Ok x \<and> ?b = x @ [CHR 0x0A]" using b(1) by blast
  note safe = storing.crash_safe [of state_path w P s ?b "reads_as P old" r w' w'', OF refl assms(1) pre assms(2,4,5)]
  from safe(1) old new have "fst (load_state P w'') \<in> {Done (Ok old), Done (Ok s)}" by auto
  moreover from safe(2) [of "()"] new have "r = Done (Ok ()) \<Longrightarrow> fst (load_state P w'') = Done (Ok s)" by auto
  ultimately show ?thesis by blast
qed


text \<open>A platform without programs whose JSON library writes the number of known extensions.\<close>

definition sample_platform :: "(unit, unit) platform" where
  "sample_platform =
     \<lparr>exec = (\<lambda>_. ret (Err not_found)), spawn = (\<lambda>_. ret (Err not_found)),
      try_wait = (\<lambda>_. ret (Err not_found)), kill = (\<lambda>_. ret (Err not_found)),
      wait = (\<lambda>_. ret (Err not_found)), json_parse = (\<lambda>_. Err ''no json''), json_get = (\<lambda>_ _. None),
      json_str = (\<lambda>_. None), json_u64 = (\<lambda>_. None), json_array = (\<lambda>_. None),
      value_str = (\<lambda>_. ()), value_bool = (\<lambda>_. ()), value_strs = (\<lambda>_. ()),
      encode_state = (\<lambda>s. Ok (if extensions s = [] then ''{}'' else ''{a}'')),
      decode_state = (\<lambda>b. if b = ''{}'' @ [CHR 0x0A] then Ok default_state
         else Ok (entry ''a'' id default_state)),
      encode_reply = (\<lambda>_. None)\<rparr>"

definition empty_world :: "fault list \<Rightarrow> unit world" where
  "empty_world fs =
     \<lparr>live = [], older = [], inodes = (\<lambda>_. \<lparr>cached = [], synced = [], mode = 420\<rparr>), fresh = 0,
      dirs = [], faults = fs, clock = 0, lock_taken = False, lock_fd = None, console = [], outside = ()\<rparr>"

lemma empty_world_coherent: "coherent (empty_world fs)"
  by (simp add: coherent_def points_def versions_def empty_world_def)

lemma empty_world_reads: "survives (empty_world fs) p (reads_as P default_state)"
  by (simp add: survives_def past_def versions_def empty_world_def reads_as_def)

lemma store_crash_safe_witness:
  "case store sample_platform (entry ''a'' id default_state) (empty_world [Fine, Fine, Fine, Fine, Cut 0]) of
     (r, w') \<Rightarrow> r = Stopped PowerLoss \<and>
       fst (load_state sample_platform (w'\<lparr>older := []\<rparr>)) \<in>
         {Done (Ok default_state), Done (Ok (entry ''a'' id default_state))}"
proof -
  let ?s = "entry ''a'' id default_state" and ?w = "empty_world [Fine, Fine, Fine, Fine, Cut 0]"
  have run: "fst (store sample_platform ?s ?w) = Stopped PowerLoss"
    and fs: "faults (snd (store sample_platform ?s ?w)) = []" by code_simp+
  obtain w' where w': "store sample_platform ?s ?w = (Stopped PowerLoss, w')"
    using run by (metis prod.collapse)
  have codec: "codec sample_platform ?s"
    by (simp add: codec_def sample_platform_def entry_def default_state_def)
  have "faults (w'\<lparr>older := []\<rparr>) = []" using fs w' by simp
  from store_crash_safe [OF empty_world_coherent empty_world_reads codec w' power_loss_live this]
  show ?thesis unfolding w' prod.case by blast
qed

end
