(* ===== verification/Ruleset.thy ===== *)
theory Ruleset
  imports State_Store
begin

text \<open>
  Health rulesets, \<open>agent/src/config.rs\<close>: how one extension says which unit it needs, how long it may
  take and which command proves it healthy. The lemmas say what a ruleset that was accepted is like.
\<close>

section \<open>Durations\<close>

text \<open>A \<open>Duration\<close> is its number of nanoseconds.\<close>

definition from_secs :: "nat \<Rightarrow> nat" where
  "from_secs n = n * 1000000000"

definition from_millis :: "nat \<Rightarrow> nat" where
  "from_millis n = n * 1000000"

definition as_secs :: "nat \<Rightarrow> nat" where
  "as_secs d = d div 1000000000"

lemma as_secs_from_secs [simp]: "as_secs (from_secs n) = n"
  by (simp add: as_secs_def from_secs_def)

section \<open>Rulesets\<close>

definition RULESET_DIR :: path where
  "RULESET_DIR = ''/usr/lib/carbide/health.d''"

definition EXECUTABLE_PREFIXES :: "string list" where
  "EXECUTABLE_PREFIXES = [''/usr/'', ''/opt/'']"

datatype config_error = ConfigIo io_error | ConfigMalformed path string

definition show_config_error :: "config_error \<Rightarrow> string" where
  "show_config_error e =
     (case e of ConfigIo x \<Rightarrow> io_text x | ConfigMalformed p reason \<Rightarrow> lossy p @ '': '' @ reason)"

record ruleset =
  service :: string
  ready_timeout :: nat
  start_attempts :: nat
  health_command :: "string list option"
  health_interval :: nat
  health_timeout :: nat
  soak_time :: nat

definition ruleset_defaults :: ruleset where
  "ruleset_defaults =
     \<lparr>service = [], ready_timeout = from_secs 90, start_attempts = 3, health_command = None,
      health_interval = from_secs 10, health_timeout = from_secs 15, soak_time = from_secs 120\<rparr>"

definition parse_seconds :: "string \<Rightarrow> string + nat" where
  "parse_seconds value =
     (let digits = (case strip_suffix ''s'' value of Some d \<Rightarrow> d | None \<Rightarrow> value)
      in case parse_uint 64 digits of
           Some n \<Rightarrow> Ok (from_secs n)
         | None \<Rightarrow> Err (''invalid duration '' @ debug_str value))"

text \<open>What one \<open>KEY=VALUE\<close> line does; the value is trimmed, the key lower case.\<close>

definition set_key :: "string \<Rightarrow> string \<Rightarrow> ruleset \<Rightarrow> string + ruleset" where
  "set_key key value r =
     (if key = ''unit'' then Ok (r\<lparr>service := value\<rparr>)
      else if key = ''readytimeoutsec'' then
        (case parse_seconds value of Inl e \<Rightarrow> Err e | Inr d \<Rightarrow> Ok (r\<lparr>ready_timeout := d\<rparr>))
      else if key = ''startattempts'' then
        (case parse_uint 32 value of
           None \<Rightarrow> Err (''invalid StartAttempts '' @ debug_str value)
         | Some n \<Rightarrow> Ok (r\<lparr>start_attempts := n\<rparr>))
      else if key = ''healthcommand'' then
        (let parts = split_whitespace value
         in if parts = [] then Err ''empty HealthCommand'' else Ok (r\<lparr>health_command := Some parts\<rparr>))
      else if key = ''healthintervalsec'' then
        (case parse_seconds value of Inl e \<Rightarrow> Err e | Inr d \<Rightarrow> Ok (r\<lparr>health_interval := d\<rparr>))
      else if key = ''healthtimeoutsec'' then
        (case parse_seconds value of Inl e \<Rightarrow> Err e | Inr d \<Rightarrow> Ok (r\<lparr>health_timeout := d\<rparr>))
      else if key = ''soaksec'' then
        (case parse_seconds value of Inl e \<Rightarrow> Err e | Inr d \<Rightarrow> Ok (r\<lparr>soak_time := d\<rparr>))
      else Err (''unknown key '' @ debug_str key))"

fun ruleset_lines :: "bool \<Rightarrow> ruleset \<Rightarrow> string list \<Rightarrow> string + ruleset" where
  "ruleset_lines in_section r [] = Ok r"
| "ruleset_lines in_section r (raw # rest) =
     (let line = trim raw in
      if line = [] \<or> starts_with ''#'' line \<or> starts_with '';'' line then ruleset_lines in_section r rest
      else if starts_with ''['' line then
        ruleset_lines (eq_ignore_ascii_case line ''[Extension]'') r rest
      else if \<not> in_section then ruleset_lines in_section r rest
      else case split_once (CHR ''='') line of
          None \<Rightarrow> Err (''expected KEY=VALUE, found '' @ debug_str line)
        | Some (key, value) \<Rightarrow>
            (case set_key (to_ascii_lowercase (trim key)) (trim value) r of
               Inl e \<Rightarrow> Err e
             | Inr r' \<Rightarrow> ruleset_lines in_section r' rest))"

definition validate :: "ruleset \<Rightarrow> string + unit" where
  "validate r =
     (if service r = [] then Err ''Unit is required''
      else if contains ''/'' (service r) \<or> starts_with ''-'' (service r)
        then Err (''implausible unit name '' @ debug_str (service r))
      else if start_attempts r = 0 then Err ''StartAttempts must be at least 1''
      else case health_command r of
          None \<Rightarrow> Ok ()
        | Some cmd \<Rightarrow>
            let prog = hd cmd
            in if \<not> list_ex (\<lambda>p. starts_with p prog) EXECUTABLE_PREFIXES
               then Err (''HealthCommand '' @ debug_str prog @ '' is not on a verity-backed path'')
               else if contains ''..'' prog then Err ''HealthCommand must not traverse''
               else Ok ())"

text \<open>Everything \<open>Ruleset::load\<close> does with the text of the file.\<close>

definition parse_ruleset :: "string \<Rightarrow> string + ruleset" where
  "parse_ruleset contents =
     (case ruleset_lines False ruleset_defaults (str_lines contents) of
        Inl e \<Rightarrow> Err e
      | Inr r \<Rightarrow> (case validate r of Inl e \<Rightarrow> Err e | Inr _ \<Rightarrow> Ok r))"

definition load_ruleset :: "path \<Rightarrow> ('e, config_error + ruleset) io" where
  "load_ruleset p =
     and_then (mapping_err ConfigIo (fs_read_to_string p)) (\<lambda>contents.
       ret (map_err (ConfigMalformed p) (parse_ruleset contents)))"

definition load_named :: "string \<Rightarrow> ('e, config_error + ruleset) io" where
  "load_named name = load_ruleset (join RULESET_DIR (name @ ''.conf''))"

lemma keeps_load_named [keeps_intros]: "steady I \<Longrightarrow> keeps I (load_named name)"
  unfolding load_named_def load_ruleset_def by (intro keeps_intros)

section \<open>Accepted rulesets\<close>

definition whole_seconds :: "nat \<Rightarrow> bool" where
  "whole_seconds d \<longleftrightarrow> d = from_secs (as_secs d) \<and> as_secs d < 2 ^ 64"

definition sound :: "ruleset \<Rightarrow> bool" where
  "sound r \<longleftrightarrow>
     start_attempts r < 2 ^ 32 \<and> health_command r \<noteq> Some [] \<and> whole_seconds (ready_timeout r) \<and>
     whole_seconds (health_interval r) \<and> whole_seconds (health_timeout r) \<and> whole_seconds (soak_time r)"

lemma parse_seconds_whole: "parse_seconds v = Ok d \<Longrightarrow> whole_seconds d"
  by (auto simp: parse_seconds_def whole_seconds_def Let_def dest!: parse_uint_bound split: option.splits)

lemma ruleset_defaults_sound: "sound ruleset_defaults"
  by (simp add: sound_def ruleset_defaults_def whole_seconds_def)

lemma set_key_sound: "set_key k v r = Ok r' \<Longrightarrow> sound r \<Longrightarrow> sound r'"
  by (auto simp: set_key_def sound_def Let_def parse_seconds_whole dest: parse_uint_bound
      split: if_splits sum.splits option.splits)

lemma ruleset_lines_sound: "ruleset_lines b r ls = Ok r' \<Longrightarrow> sound r \<Longrightarrow> sound r'"
proof (induction b r ls rule: ruleset_lines.induct)
  case (2 b r raw rest)
  then show ?case
    by (simp add: Let_def split: if_splits sum.splits option.splits prod.splits) (blast dest: set_key_sound)
qed simp

lemma validate_Ok:
  assumes "validate r = Ok x"
  shows "service r \<noteq> []" "CHR ''/'' \<notin> set (service r)" "hd (service r) \<noteq> CHR ''-''" "0 < start_attempts r"
    "health_command r = Some cmd \<Longrightarrow> (\<exists>s. hd cmd = ''/usr/'' @ s \<or> hd cmd = ''/opt/'' @ s) \<and> \<not> contains ''..'' (hd cmd)"
proof -
  have one: "contains [c] s \<longleftrightarrow> c \<in> set s" for c s
    by (auto simp: contains_iff in_set_conv_decomp)
  note ok = assms [unfolded validate_def Let_def]
  show ne: "service r \<noteq> []" using ok by (auto split: if_splits)
  show "CHR ''/'' \<notin> set (service r)" using ok one by (auto split: if_splits)
  have "\<not> starts_with ''-'' (service r)" using ok by (auto split: if_splits)
  with ne show "hd (service r) \<noteq> CHR ''-''" by (cases "service r") (auto simp: starts_with_def)
  show "0 < start_attempts r" using ok by (auto split: if_splits)
  assume "health_command r = Some cmd"
  with ok show "(\<exists>s. hd cmd = ''/usr/'' @ s \<or> hd cmd = ''/opt/'' @ s) \<and> \<not> contains ''..'' (hd cmd)"
    by (auto simp: EXECUTABLE_PREFIXES_def starts_with_iff split: if_splits)
qed

lemma parse_ruleset_Ok:
  "parse_ruleset t = Ok r \<Longrightarrow> validate r = Ok () \<and> sound r"
  unfolding parse_ruleset_def
  by (auto split: sum.splits dest: ruleset_lines_sound [OF _ ruleset_defaults_sound])

lemma load_ruleset_Ok:
  "load_ruleset p w = (Done (Ok r), w') \<Longrightarrow>
     \<exists>t. bytes_at w p = Some t \<and> parse_ruleset t = Ok r"
  by (auto simp: load_ruleset_def and_then_Ok_iff mapping_err_Ok_iff fs_read_to_string_def prim_def ret_def
      split: list.splits fault.splits option.splits if_splits)

section \<open>Properties\<close>

text \<open>
  C20: a ruleset that was loaded can be trusted with what the agent does with it. It names a unit
  that is no path and no option, it allows at least one start, its times are whole seconds, and the
  command it names, if any, is not empty, lies under \<open>/usr\<close> or \<open>/opt\<close> and does not traverse.
\<close>

theorem load_named_validated:
  assumes "load_named name w = (Done (Ok r), w')"
  shows "service r \<noteq> [] \<and> CHR ''/'' \<notin> set (service r) \<and> hd (service r) \<noteq> CHR ''-'' \<and>
    1 \<le> start_attempts r \<and> start_attempts r < 2 ^ 32 \<and>
    (\<forall>d \<in> {ready_timeout r, health_interval r, health_timeout r, soak_time r}. \<exists>n < 2 ^ 64. d = from_secs n) \<and>
    (\<forall>cmd. health_command r = Some cmd \<longrightarrow>
       cmd \<noteq> [] \<and> (\<exists>s. hd cmd = ''/usr/'' @ s \<or> hd cmd = ''/opt/'' @ s) \<and>
       \<not> (\<exists>a b. hd cmd = a @ ''..'' @ b))"
proof -
  obtain t where "parse_ruleset t = Ok r"
    using load_ruleset_Ok [OF assms [unfolded load_named_def]] by blast
  then have v: "validate r = Ok ()" and s: "sound r" using parse_ruleset_Ok by blast+
  have secs: "whole_seconds d \<Longrightarrow> \<exists>n < 2 ^ 64. d = from_secs n" for d
    unfolding whole_seconds_def by blast
  show ?thesis
    using validate_Ok [OF v] s secs by (auto simp: sound_def contains_iff)
qed

definition ruleset_world :: "string \<Rightarrow> unit world" where
  "ruleset_world t =
     (empty_world [])\<lparr>live := [(''/usr/lib/carbide/health.d/x.conf'', 0)], fresh := 1,
       inodes := (\<lambda>_. \<lparr>cached = t, synced = t, mode = 420\<rparr>)\<rparr>"

lemma load_named_validated_witness:
  "fst (load_named ''x'' (ruleset_world (''[Extension]'' @ [CHR 0x0A] @ ''Unit=x.service''))) =
     Done (Ok (ruleset_defaults\<lparr>service := ''x.service''\<rparr>)) \<and>
   1 \<le> start_attempts (ruleset_defaults\<lparr>service := ''x.service''\<rparr>)"
proof -
  let ?w = "ruleset_world (''[Extension]'' @ [CHR 0x0A] @ ''Unit=x.service'')"
  have run: "fst (load_named ''x'' ?w) = Done (Ok (ruleset_defaults\<lparr>service := ''x.service''\<rparr>))"
    by code_simp
  then have "load_named ''x'' ?w =
      (Done (Ok (ruleset_defaults\<lparr>service := ''x.service''\<rparr>)), snd (load_named ''x'' ?w))"
    by (metis prod.collapse)
  from load_named_validated [OF this] run show ?thesis by blast
qed

end
