(* ===== verification/Slots.thy ===== *)
theory Slots
  imports Ruleset
begin

text \<open>
  The image slots of \<open>agent/src/system.rs\<close>: the names of the active, retained and staged images of
  an extension, installing and removing the active one, and pruning what no longer belongs to any
  slot. The lemmas say that the slots are apart, that only an active image can be merged, and what
  every operation leaves alone.
\<close>

section \<open>Names\<close>

definition EXTENSIONS_DIR :: path where
  "EXTENSIONS_DIR = ''/var/lib/extensions''"

definition STAGING_DIR :: path where
  "STAGING_DIR = ''/var/lib/extensions/.carbide-staging''"

definition SPACE_MARGIN :: u64 where
  "SPACE_MARGIN = 16 * 1024 * 1024"

definition scope :: "'e world \<Rightarrow> string" where
  "scope w = (case os_version w of Some v \<Rightarrow> v | None \<Rightarrow> ''unknown'')"

definition legacy_active_path :: "string \<Rightarrow> path" where
  "legacy_active_path name = join EXTENSIONS_DIR (name @ ''.raw'')"

definition scoped_active_path :: "string \<Rightarrow> string \<Rightarrow> path" where
  "scoped_active_path name os = join EXTENSIONS_DIR (name @ ''_'' @ os @ ''.raw'')"

definition active_path :: "string \<Rightarrow> 'e world \<Rightarrow> path" where
  "active_path name w =
     (let scoped = scoped_active_path name (scope w)
      in if exists_path w scoped then scoped
         else let legacy = legacy_active_path name
              in if exists_path w legacy then legacy else scoped)"

definition rollback_path :: "string \<Rightarrow> string \<Rightarrow> 'e world \<Rightarrow> path" where
  "rollback_path name version w =
     join EXTENSIONS_DIR (name @ ''_'' @ scope w @ ''.raw.'' @ version @ ''.rollback'')"

definition candidate_path :: "string \<Rightarrow> string \<Rightarrow> 'e world \<Rightarrow> path" where
  "candidate_path name version w =
     join EXTENSIONS_DIR (name @ ''_'' @ scope w @ ''.raw.'' @ version @ ''.candidate'')"

text \<open>Only a plain version may be interpolated into a path.\<close>

definition version_char :: "char \<Rightarrow> bool" where
  "version_char c \<longleftrightarrow> is_ascii_alphanumeric c \<or> c = CHR ''.'' \<or> c = CHR ''_'' \<or> c = CHR ''-''"

definition version_valid :: "string \<Rightarrow> bool" where
  "version_valid v \<longleftrightarrow> v \<noteq> [] \<and> is_ascii_alphanumeric (hd v) \<and> list_all version_char v"

section \<open>Space\<close>

definition activation_space :: "u64 \<Rightarrow> u64 \<Rightarrow> u64" where
  "activation_space candidate_size missing_rollback_size =
     sat_add (sat_add candidate_size missing_rollback_size) SPACE_MARGIN"

definition staging_space :: "u64 \<Rightarrow> u64 \<Rightarrow> u64" where
  "staging_space image_size missing_rollback_size =
     sat_add (sat_add (sat_mul image_size 2) missing_rollback_size) SPACE_MARGIN"

section \<open>The active image\<close>

definition remove_active :: "string \<Rightarrow> ('e, io_error + unit) io" where
  "remove_active name =
     bind (reads scope) (\<lambda>os.
     and_then (durable_remove (scoped_active_path name os)) (\<lambda>_.
     durable_remove (legacy_active_path name)))"

definition install_active :: "path \<Rightarrow> string \<Rightarrow> ('e, io_error + unit) io" where
  "install_active source name =
     bind (reads scope) (\<lambda>os.
       let target = scoped_active_path name os;
           legacy = legacy_active_path name
       in bind (reads (\<lambda>w. exists_path w legacy)) (\<lambda>present.
            if legacy \<noteq> target \<and> present
            then and_then (durable_remove legacy) (\<lambda>_. durable_copy source target)
            else durable_copy source target))"

section \<open>Pruning\<close>

text \<open>The loop of \<open>prune_matching_in\<close>; its result says whether anything was removed.\<close>

fun prune_entries ::
  "string \<Rightarrow> string \<Rightarrow> path option \<Rightarrow> bool \<Rightarrow> path list \<Rightarrow> ('e, io_error + bool) io" where
  "prune_entries prefix suffix keep changed [] = ret (Ok changed)"
| "prune_entries prefix suffix keep changed (e # rest) =
     and_then (fs_next_entry e) (\<lambda>p.
       let n = lossy (file_part p)
       in if starts_with prefix n \<and> ends_with suffix n \<and> keep \<noteq> Some p
          then and_then (fs_remove_file p) (\<lambda>_. prune_entries prefix suffix keep True rest)
          else prune_entries prefix suffix keep changed rest)"

definition sync_if :: "path \<Rightarrow> bool \<Rightarrow> ('e, io_error + unit) io" where
  "sync_if d changed =
     (if changed then and_then (fs_open_dir d) (\<lambda>_. fs_sync_dir d) else ret (Ok ()))"

definition prune_matching_in ::
  "path \<Rightarrow> string \<Rightarrow> string \<Rightarrow> path option \<Rightarrow> ('e, io_error + unit) io" where
  "prune_matching_in d prefix suffix keep =
     and_then (fs_read_dir d) (\<lambda>entries.
     and_then (prune_entries prefix suffix keep False entries) (\<lambda>changed.
     sync_if d changed))"

definition prune_rollbacks :: "string \<Rightarrow> string option \<Rightarrow> ('e, io_error + unit) io" where
  "prune_rollbacks name keep_version =
     bind (reads (\<lambda>w. map_option (\<lambda>v. rollback_path name v w) keep_version)) (\<lambda>keep.
     bind (reads scope) (\<lambda>os.
     prune_matching_in EXTENSIONS_DIR (name @ ''_'' @ os @ ''.raw.'') ''.rollback'' keep))"

definition prune_candidates :: "string \<Rightarrow> string option \<Rightarrow> ('e, io_error + unit) io" where
  "prune_candidates name keep_version =
     bind (reads (\<lambda>w. map_option (\<lambda>v. candidate_path name v w) keep_version)) (\<lambda>keep.
     bind (reads scope) (\<lambda>os.
     prune_matching_in EXTENSIONS_DIR (name @ ''_'' @ os @ ''.raw.'') ''.candidate'' keep))"

text \<open>Reading every entry of a directory, the first that fails ending it.\<close>

fun each_entry :: "path list \<Rightarrow> ('e, io_error + path list) io" where
  "each_entry [] = ret (Ok [])"
| "each_entry (e # rest) =
     and_then (fs_next_entry e) (\<lambda>p. and_then (each_entry rest) (\<lambda>ps. ret (Ok (p # ps))))"

definition candidate_files :: "('e, io_error + path list) io" where
  "candidate_files =
     bind (reads scope) (\<lambda>os.
       let marker = ''_'' @ os @ ''.raw.''
       in and_then (fs_read_dir EXTENSIONS_DIR) (\<lambda>entries.
          and_then (each_entry entries) (\<lambda>ps.
          ret (Ok (sort (filter (\<lambda>p.
            let n = lossy (file_part p) in contains marker n \<and> ends_with ''.candidate'' n) ps))))))"

fun transaction_entries :: "path \<Rightarrow> path \<Rightarrow> bool \<Rightarrow> path list \<Rightarrow> ('e, io_error + bool) io" where
  "transaction_entries d staging changed [] = ret (Ok changed)"
| "transaction_entries d staging changed (e # rest) =
     and_then (fs_next_entry e) (\<lambda>p.
     and_then (fs_is_file p) (\<lambda>is_file.
       if \<not> is_file then transaction_entries d staging changed rest
       else let n = lossy (file_part p)
            in if d = staging \<or> (starts_with ''.'' n \<and> ends_with ''.new'' n)
               then and_then (fs_remove_file p) (\<lambda>_. transaction_entries d staging True rest)
               else transaction_entries d staging changed rest))"

fun prune_directories :: "path \<Rightarrow> path list \<Rightarrow> ('e, io_error + unit) io" where
  "prune_directories staging [] = ret (Ok ())"
| "prune_directories staging (d # rest) =
     bind (fs_read_dir d) (\<lambda>r.
       case r of
         Inl e \<Rightarrow> if kind e = NotFound then prune_directories staging rest else ret (Err e)
       | Inr entries \<Rightarrow>
           and_then (transaction_entries d staging False entries) (\<lambda>changed.
           and_then (sync_if d changed) (\<lambda>_.
           prune_directories staging rest)))"

definition prune_transaction_files_in :: "path \<Rightarrow> path \<Rightarrow> ('e, io_error + unit) io" where
  "prune_transaction_files_in directory staging = prune_directories staging [directory, staging]"

definition prune_transaction_files :: "('e, io_error + unit) io" where
  "prune_transaction_files = prune_transaction_files_in EXTENSIONS_DIR STAGING_DIR"

text \<open>Whatever an earlier download left for an extension in the staging directory.\<close>

definition clear_staged :: "string \<Rightarrow> ('e, io_error + unit) io" where
  "clear_staged name = prune_matching_in STAGING_DIR (name @ ''_'') ''.raw'' None"

text \<open>
  The extensions that have an image for a base version; \<open>entries.flatten()\<close> skips the entries that
  cannot be read.
\<close>

fun readable_entries :: "path list \<Rightarrow> ('e, path list) io" where
  "readable_entries [] = ret []"
| "readable_entries (e # rest) =
     bind (fs_next_entry e) (\<lambda>r.
     bind (readable_entries rest) (\<lambda>ps.
     ret (case r of Inl _ \<Rightarrow> ps | Inr p \<Rightarrow> p # ps)))"

fun image_names :: "string \<Rightarrow> string list \<Rightarrow> path list \<Rightarrow> string list" where
  "image_names suffix names [] = names"
| "image_names suffix names (p # rest) =
     (case strip_suffix suffix (lossy (file_part p)) of
        Some name \<Rightarrow>
          if name \<noteq> [] \<and> name \<notin> set names then image_names suffix (names @ [name]) rest
          else image_names suffix names rest
      | None \<Rightarrow> image_names suffix names rest)"

definition installed_extensions_for :: "string \<Rightarrow> ('e, string list) io" where
  "installed_extensions_for base =
     bind (fs_read_dir EXTENSIONS_DIR) (\<lambda>r.
       case r of
         Inl _ \<Rightarrow> ret []
       | Inr entries \<Rightarrow>
           bind (readable_entries entries) (\<lambda>ps.
           ret (sort (image_names (''_'' @ base @ ''.raw'') [] ps))))"

section \<open>The slots are apart\<close>

lemma contains_self_append: "contains p (a @ p @ b)"
  by (auto simp: contains_iff)

lemma ends_with_tail: "ends_with s (a @ s)" "ends_with s t \<Longrightarrow> ends_with s (a @ t)"
  by (auto simp: ends_with_iff)

lemma ends_with_suffix_cases:
  assumes "ends_with s t" "ends_with s' t" "length s \<le> length s'"
  shows "ends_with s s'"
proof -
  from assms(1) obtain a where "t = a @ s" by (auto simp: ends_with_iff)
  moreover from assms(2) obtain b where "t = b @ s'" by (auto simp: ends_with_iff)
  ultimately have "a @ s = b @ s'" by simp
  then obtain c where "s' = c @ s"
    using assms(3) by (auto simp: append_eq_append_conv2)
  then show ?thesis by (auto simp: ends_with_iff)
qed

text \<open>What systemd merges, and the ends of the names that it does not merge.\<close>

definition mergeable :: "path \<Rightarrow> bool" where
  "mergeable p \<longleftrightarrow> ends_with ''.raw'' p"

lemma join_extensions: "CHR ''/'' \<notin> set n \<Longrightarrow> n \<noteq> [] \<Longrightarrow> join EXTENSIONS_DIR n = ''/var/lib/extensions/'' @ n"
  by (simp add: EXTENSIONS_DIR_def path_simps)

lemma join_ends_with: "n \<noteq> [] \<Longrightarrow> \<exists>a. join d n = a @ n"
  by (auto simp: join_def starts_with_def)

lemma join_suffix: "n \<noteq> [] \<Longrightarrow> ends_with s n \<Longrightarrow> ends_with s (join d n)"
  using join_ends_with [of n d] ends_with_tail(2) by metis

lemma slot_suffixes:
  "ends_with ''.raw'' (scoped_active_path name os)" "ends_with ''.raw'' (legacy_active_path name)"
  "ends_with ''.rollback'' (rollback_path name v w)" "ends_with ''.candidate'' (candidate_path name v w)"
  unfolding scoped_active_path_def legacy_active_path_def rollback_path_def candidate_path_def
  by (rule join_suffix, simp, simp only: append_assoc [symmetric] ends_with_append)+

lemma temporary_slots:
  "\<not> temporary (scoped_active_path name os)" "\<not> temporary (legacy_active_path name)"
  "\<not> temporary (rollback_path name v w)" "\<not> temporary (candidate_path name v w)"
proof -
  have no: "\<not> ends_with ''.new'' s" if "ends_with t s" "t \<in> {''.raw'', ''.rollback'', ''.candidate''}" for s t
  proof
    assume "ends_with ''.new'' s"
    then have "ends_with ''.new'' t" using that ends_with_suffix_cases [of "''.new''" s t] by auto
    with that(2) show False by (auto simp: ends_with_def starts_with_def)
  qed
  show "\<not> temporary (scoped_active_path name os)" "\<not> temporary (legacy_active_path name)"
    "\<not> temporary (rollback_path name v w)" "\<not> temporary (candidate_path name v w)"
    unfolding temporary_def by (rule no [OF slot_suffixes(1)] no [OF slot_suffixes(2)]
        no [OF slot_suffixes(3)] no [OF slot_suffixes(4)]; simp)+
qed

lemma different_ends:
  assumes "ends_with s p" "ends_with t q" "\<not> ends_with s t" "length s \<le> length t"
  shows "p \<noteq> q"
  using assms ends_with_suffix_cases by blast

lemma slots_differ:
  "scoped_active_path n os \<noteq> rollback_path m v w" "scoped_active_path n os \<noteq> candidate_path m v w"
  "legacy_active_path n \<noteq> rollback_path m v w" "legacy_active_path n \<noteq> candidate_path m v w"
  "candidate_path n v' w' \<noteq> rollback_path m v w"
proof -
  have ends: "\<not> ends_with ''.raw'' ''.rollback''" "\<not> ends_with ''.raw'' ''.candidate''"
    "\<not> ends_with ''.rollback'' ''.candidate''"
    by (simp_all add: ends_with_def starts_with_def)
  show "scoped_active_path n os \<noteq> rollback_path m v w" "legacy_active_path n \<noteq> rollback_path m v w"
    by (rule different_ends [OF slot_suffixes(1) slot_suffixes(3) ends(1)]
        different_ends [OF slot_suffixes(2) slot_suffixes(3) ends(1)], simp)+
  show "scoped_active_path n os \<noteq> candidate_path m v w" "legacy_active_path n \<noteq> candidate_path m v w"
    by (rule different_ends [OF slot_suffixes(1) slot_suffixes(4) ends(2)]
        different_ends [OF slot_suffixes(2) slot_suffixes(4) ends(2)], simp)+
  show "candidate_path n v' w' \<noteq> rollback_path m v w"
    by (rule not_sym, rule different_ends [OF slot_suffixes(3) slot_suffixes(4) ends(3)]) simp
qed

section \<open>Names without surprises\<close>

definition plain :: "string \<Rightarrow> bool" where
  "plain s \<longleftrightarrow> list_all version_char s"

lemma plain_append [simp]: "plain (a @ b) \<longleftrightarrow> plain a \<and> plain b"
  by (simp add: plain_def)

lemma plain_cons: "plain (c # s) \<longleftrightarrow> version_char c \<and> plain s"
  by (simp add: plain_def)

lemma version_valid_plain: "version_valid v \<Longrightarrow> plain v"
  by (simp add: version_valid_def plain_def)

lemma version_char_facts: "version_char c \<Longrightarrow> byte c < 0x80 \<and> c \<noteq> CHR ''/''"
  by (auto simp: version_char_def is_ascii_alphanumeric_def is_ascii_digit_def byte_def)

lemma plain_ascii: "plain s \<Longrightarrow> ascii s"
  by (auto simp: plain_def ascii_def list_all_iff version_char_facts)

lemma plain_no_slash: "plain s \<Longrightarrow> CHR ''/'' \<notin> set s"
  by (auto simp: plain_def list_all_iff dest: version_char_facts)

lemma plain_literals [simp]:
  "plain ''.raw''" "plain ''.raw.''" "plain ''.rollback''" "plain ''.candidate''" "plain ''_''" "plain []"
  by code_simp+

lemma plain_slot:
  assumes "plain n" "n \<noteq> []"
  shows "file_part (join EXTENSIONS_DIR n) = n" "lossy (file_part (join EXTENSIONS_DIR n)) = n"
    "parent (join EXTENSIONS_DIR n) = Some EXTENSIONS_DIR"
proof -
  from assms have j: "join EXTENSIONS_DIR n = ''/var/lib/extensions'' @ CHR ''/'' # n"
    by (simp add: EXTENSIONS_DIR_def path_simps plain_no_slash)
  then show f: "file_part (join EXTENSIONS_DIR n) = n"
    by (simp only: file_part_join [OF plain_no_slash [OF assms(1)]])
  then show "lossy (file_part (join EXTENSIONS_DIR n)) = n"
    using lossy_ascii [OF plain_ascii [OF assms(1)]] by simp
  show "parent (join EXTENSIONS_DIR n) = Some EXTENSIONS_DIR"
    unfolding j unfolding EXTENSIONS_DIR_def using assms by (intro parent_plain plain_no_slash) simp_all
qed

section \<open>What the operations leave alone\<close>

lemma not_temporary_of: "\<not> temporary p \<Longrightarrow> temporary_path t \<noteq> Inr p"
  using temporary_path_temporary by blast

lemma keeps_remove_active:
  assumes "\<And>os. p \<noteq> scoped_active_path name os" "p \<noteq> legacy_active_path name"
  shows "keeps (stays p u) (remove_active name)"
  unfolding remove_active_def by (intro keeps_intros keeps_durable_remove assms)

lemma keeps_install_active:
  assumes "\<And>os. p \<noteq> scoped_active_path name os" "p \<noteq> legacy_active_path name" "\<not> temporary p"
  shows "keeps (stays p u) (install_active img name)"
  unfolding install_active_def Let_def
  by (intro keeps_intros keeps_durable_remove keeps_durable_copy assms not_temporary_of temporary_slots)

definition spared :: "path \<Rightarrow> string \<Rightarrow> string \<Rightarrow> path option \<Rightarrow> bool" where
  "spared p prefix suffix keep \<longleftrightarrow>
     keep = Some p \<or> \<not> (starts_with prefix (lossy (file_part p)) \<and> ends_with suffix (lossy (file_part p)))"

lemma keeps_prune_entries:
  assumes "spared p prefix suffix keep"
  shows "keeps (stays p u) (prune_entries prefix suffix keep changed es)"
proof (induction es arbitrary: changed)
  case (Cons e es)
  show ?case
    unfolding prune_entries.simps Let_def
    by (intro keeps_intros Cons.IH keeps_remove_file) (use assms in \<open>auto simp: spared_def\<close>)
qed (simp add: keeps_intros)

lemma keeps_prune_matching_in:
  assumes "spared p prefix suffix keep"
  shows "keeps (stays p u) (prune_matching_in d prefix suffix keep)"
  unfolding prune_matching_in_def sync_if_def
  by (intro keeps_intros keeps_prune_entries assms)

lemma keeps_prune_candidates:
  assumes "\<not> ends_with ''.candidate'' (lossy (file_part p))"
  shows "keeps (stays p u) (prune_candidates name keep)"
  unfolding prune_candidates_def
  by (intro keeps_intros keeps_prune_matching_in) (use assms in \<open>simp add: spared_def\<close>)

lemma keeps_prune_rollbacks_other:
  assumes "\<not> ends_with ''.rollback'' (lossy (file_part p))"
  shows "keeps (stays p u) (prune_rollbacks name keep)"
  unfolding prune_rollbacks_def
  by (intro keeps_intros keeps_prune_matching_in) (use assms in \<open>simp add: spared_def\<close>)

lemma keeps_each_entry: "keeps (stays p u) (each_entry es)"
  by (induction es) (auto intro!: keeps_intros)

lemma keeps_candidate_files [keeps_intros]: "keeps (stays p u) candidate_files"
  unfolding candidate_files_def Let_def by (intro keeps_intros keeps_each_entry)

text \<open>A path under which nothing of the agent's own images lives.\<close>

definition foreign :: "path \<Rightarrow> bool" where
  "foreign p \<longleftrightarrow> \<not> temporary p \<and>
     list_all (\<lambda>s. \<not> ends_with s p \<and> \<not> ends_with s (lossy (file_part p))) [''.raw'', ''.rollback'', ''.candidate'']"

lemma foreign_paths: "foreign OS_RELEASE" "foreign state_path"
  unfolding state_path_simp by code_simp+

lemma foreign_slots:
  assumes "foreign p"
  shows "p \<noteq> scoped_active_path name os" "p \<noteq> legacy_active_path name" "p \<noteq> rollback_path name v w"
    "p \<noteq> candidate_path name v w" "\<not> temporary p" "\<not> ends_with ''.candidate'' (lossy (file_part p))"
    "\<not> ends_with ''.rollback'' (lossy (file_part p))"
  using assms by (auto simp: foreign_def slot_suffixes)

lemma keeps_foreign:
  assumes "foreign p"
  shows "keeps (stays p u) (remove_active name)" "keeps (stays p u) (install_active img name)"
    "keeps (stays p u) (prune_candidates name keep)" "keeps (stays p u) (prune_rollbacks name keep)"
    "keeps (stays p u) (durable_copy s (rollback_path name v w))"
  by (rule keeps_remove_active keeps_install_active keeps_prune_candidates keeps_prune_rollbacks_other
      keeps_durable_copy; use foreign_slots [OF assms] temporary_slots not_temporary_of in blast)+

section \<open>Properties\<close>

lemma lossy_plain: "plain s \<Longrightarrow> lossy s = s"
  by (simp add: lossy_ascii plain_ascii)

lemma slots_plain:
  assumes "plain name" "plain v" "plain (scope w)"
  shows "parent (candidate_path name v w) = Some EXTENSIONS_DIR"
    "parent (rollback_path name v w) = Some EXTENSIONS_DIR"
    "parent (scoped_active_path name (scope w)) = Some EXTENSIONS_DIR"
    "file_part (candidate_path name v w) = name @ ''_'' @ scope w @ ''.raw.'' @ v @ ''.candidate''"
    "file_part (rollback_path name v w) = name @ ''_'' @ scope w @ ''.raw.'' @ v @ ''.rollback''"
    "lossy (file_part (candidate_path name v w)) = name @ ''_'' @ scope w @ ''.raw.'' @ v @ ''.candidate''"
    "lossy (file_part (rollback_path name v w)) = name @ ''_'' @ scope w @ ''.raw.'' @ v @ ''.rollback''"
  unfolding candidate_path_def rollback_path_def scoped_active_path_def
  using assms by (simp_all only: plain_slot(1,3) lossy_plain plain_append plain_literals simp_thms append_is_Nil_conv list.distinct)

lemma not_mergeable:
  "\<not> mergeable (rollback_path name v w)" "\<not> mergeable (candidate_path name v w)" "temporary p \<Longrightarrow> \<not> mergeable p"
proof -
  have "\<not> ends_with ''.raw'' ''.rollback''" "\<not> ends_with ''.raw'' ''.candidate''" by code_simp+
  then show "\<not> mergeable (rollback_path name v w)" "\<not> mergeable (candidate_path name v w)"
    unfolding mergeable_def
    using ends_with_suffix_cases [OF _ slot_suffixes(3), of "''.raw''"]
      ends_with_suffix_cases [OF _ slot_suffixes(4), of "''.raw''"] by auto
  have "\<not> ends_with ''.raw'' ''.new''" by code_simp
  then show "temporary p \<Longrightarrow> \<not> mergeable p"
    unfolding mergeable_def temporary_def using ends_with_suffix_cases [of "''.raw''" p "''.new''"] by auto
qed



text \<open>
  The space that a transaction asks for is the true sum, or everything: twice the image for
  staging and once for activation, the rollback image that is missing and 16 MiB, never wrapped
  around to a small number.
\<close>

theorem space_saturates:
  "unat (staging_space img missing) = min (2 ^ 64 - 1) (2 * unat img + unat missing + 16777216) \<and>
   unat (activation_space img missing) = min (2 ^ 64 - 1) (unat img + unat missing + 16777216)"
  by (simp add: staging_space_def activation_space_def SPACE_MARGIN_def unat_sat_add unat_sat_mul min_def)

lemma hoare_prune_entries:
  assumes "\<And>p. gone p \<longleftrightarrow> parent p = Some d \<and> \<not> spared p prefix suffix keep"
  shows "hoare (\<lambda>w :: 'e world. \<forall>p i. gone p \<longrightarrow> map_of (live w) p = Some i \<longrightarrow> p \<in> set es)
    (prune_entries prefix suffix keep changed es)
    (\<lambda>r. case r of Inl _ \<Rightarrow> \<lambda>_. True | Inr _ \<Rightarrow> \<lambda>w. \<forall>p. gone p \<longrightarrow> map_of (live w) p = None) (\<lambda>_. True)"
proof (induction es arbitrary: changed)
  case Nil
  then show ?case by (simp add: hoare_def ret_def)
next
  case (Cons e es)
  let ?I = "\<lambda>es (w :: 'e world). \<forall>p i. gone p \<longrightarrow> map_of (live w) p = Some i \<longrightarrow> p \<in> set es"
  let ?Q = "\<lambda>r. case r of Inl _ \<Rightarrow> \<lambda>_. True | Inr (_ :: bool) \<Rightarrow> \<lambda>w. \<forall>p. gone p \<longrightarrow> map_of (live w) p = None"
  have next_e: "hoare (?I (e # es)) (fs_next_entry e)
      (\<lambda>r. case r of Inl x \<Rightarrow> ?Q (Inl x) | Inr p \<Rightarrow> \<lambda>w. p = e \<and> ?I (e # es) w) (\<lambda>_. True)"
    unfolding fs_next_entry_def by (rule hoare_prim) auto
  show ?case
    unfolding prune_entries.simps Let_def
  proof (rule hoare_and_then [OF next_e])
    fix p
    have rm: "hoare (?I (e # es)) (fs_remove_file e)
        (\<lambda>r. case r of Inl x \<Rightarrow> ?Q (Inl x) | Inr _ \<Rightarrow> ?I es) (\<lambda>_. True)"
      unfolding fs_remove_file_def
      by (rule hoare_prim) (auto simp: set_names_def split: option.splits if_splits, blast)
    have skip: "?I (e # es) w \<Longrightarrow> spared e prefix suffix keep \<Longrightarrow> ?I es w" for w
      using assms by auto
    show "hoare (\<lambda>w. p = e \<and> ?I (e # es) w)
      (if starts_with prefix (lossy (file_part p)) \<and> ends_with suffix (lossy (file_part p)) \<and> keep \<noteq> Some p
       then and_then (fs_remove_file p) (\<lambda>_. prune_entries prefix suffix keep True es)
       else prune_entries prefix suffix keep changed es) ?Q (\<lambda>_. True)"
    proof (cases "p = e")
      case True
      show ?thesis
      proof (cases "spared e prefix suffix keep")
        case False
        with True hoare_and_then [OF rm Cons.IH [of True]] show ?thesis by (simp add: spared_def)
      next
        case spared: True
        have "hoare (\<lambda>w. p = e \<and> ?I (e # es) w) (prune_entries prefix suffix keep changed es) ?Q (\<lambda>_. True)"
          by (rule hoare_weaken [OF Cons.IH]) (use spared skip in blast)+
        with True spared show ?thesis by (auto simp: spared_def)
      qed
    next
      case False
      then show ?thesis by (simp add: hoare_def)
    qed
  qed
qed


lemma hoare_prune_matching:
  assumes "\<And>p. gone p \<longleftrightarrow> parent p = Some d \<and> \<not> spared p prefix suffix keep"
  shows "hoare (\<lambda>_ :: 'e world. True) (prune_matching_in d prefix suffix keep)
    (\<lambda>r. case r of Inl _ \<Rightarrow> \<lambda>_. True | Inr _ \<Rightarrow> \<lambda>w. \<forall>p. gone p \<longrightarrow> map_of (live w) p = None) (\<lambda>_. True)"
  (is "hoare _ _ ?Q _")
proof -
  let ?I = "\<lambda>es (w :: 'e world). \<forall>p i. gone p \<longrightarrow> map_of (live w) p = Some i \<longrightarrow> p \<in> set es"
  have listed: "hoare (\<lambda>_. True) (fs_read_dir d)
      (\<lambda>r. case r of Inl x \<Rightarrow> ?Q (Inl x) | Inr es \<Rightarrow> ?I es) (\<lambda>_. True)"
    unfolding fs_read_dir_def
    by (rule hoare_prim) (use assms in \<open>auto simp: in_fst_iff_map_of split: if_splits\<close>)
  have none: "hoare (\<lambda>w. \<forall>p. gone p \<longrightarrow> map_of (live w) p = None) (sync_if d c) ?Q (\<lambda>_. True)" for c
    unfolding sync_if_def fs_sync_dir_def fs_open_dir_def
  proof (cases c)
    case True
    have "hoare (\<lambda>w. \<forall>p. gone p \<longrightarrow> map_of (live w) p = None)
      (and_then (prim nothing (\<lambda>w. if d \<in> set (dirs w) then (Ok (), w) else (Err not_found, w)))
        (\<lambda>_. prim nothing (\<lambda>w. (Ok (), w\<lparr>older := map (settle d (live w)) (older w)\<rparr>)))) ?Q (\<lambda>_. True)"
      by (rule hoare_and_then [where R = "\<lambda>_ w. \<forall>p. gone p \<longrightarrow> map_of (live w) p = None"], rule hoare_prim)
        (auto intro!: hoare_prim split: if_splits)
    with True show "hoare (\<lambda>w. \<forall>p. gone p \<longrightarrow> map_of (live w) p = None)
      (if c then and_then (prim nothing (\<lambda>w. if d \<in> set (dirs w) then (Ok (), w) else (Err not_found, w)))
        (\<lambda>_. prim nothing (\<lambda>w. (Ok (), w\<lparr>older := map (settle d (live w)) (older w)\<rparr>))) else ret (Ok ())) ?Q (\<lambda>_. True)"
      by simp
  qed (simp add: hoare_def ret_def)
  show ?thesis
    unfolding prune_matching_in_def
  proof (rule hoare_and_then [OF listed])
    fix es
    show "hoare (?I es) (and_then (prune_entries prefix suffix keep False es) (sync_if d)) ?Q (\<lambda>_. True)"
      by (rule hoare_and_then [OF hoare_weaken_result [OF hoare_prune_entries [OF assms]] none]) auto
  qed
qed

text \<open>
  C25: pruning the candidates of an extension removes exactly what it says. A file that is no
  candidate of this extension for the running base, or is the one to keep, is not touched, whatever
  fails; and when pruning reports success no other candidate is left.
\<close>

theorem prune_candidates_exact:
  assumes "coherent w" "prune_candidates name keep w = (r, w')"
  defines "kept \<equiv> map_option (\<lambda>v. candidate_path name v w) keep"
    and "matches \<equiv> \<lambda>p. starts_with (name @ ''_'' @ scope w @ ''.raw.'') (lossy (file_part p)) \<and>
      ends_with ''.candidate'' (lossy (file_part p))"
  shows "(\<forall>p. kept = Some p \<or> \<not> matches p \<longrightarrow> bytes_at w' p = bytes_at w p \<and> past w' p \<subseteq> past w p) \<and>
    (r = Done (Ok ()) \<longrightarrow>
      (\<forall>p. parent p = Some EXTENSIONS_DIR \<and> matches p \<and> kept \<noteq> Some p \<longrightarrow> bytes_at w' p = None))"
proof -
  let ?pre = "name @ ''_'' @ scope w @ ''.raw.''"
  have run: "prune_matching_in EXTENSIONS_DIR ?pre ''.candidate'' kept w = (r, w')"
    using assms(2) by (simp add: prune_candidates_def bind_reads kept_def)
  have "stays p w w'" if "kept = Some p \<or> \<not> matches p" for p
    by (rule keepsD [OF keeps_prune_matching_in _ run])
      (use that assms(1) in \<open>auto simp: spared_def matches_def\<close>)
  then have "\<forall>p. kept = Some p \<or> \<not> matches p \<longrightarrow> bytes_at w' p = bytes_at w p \<and> past w' p \<subseteq> past w p"
    by (simp add: stays_def frame_def bytes_at_def)
  moreover have "bytes_at w' p = None"
    if "r = Done (Ok ())" "parent p = Some EXTENSIONS_DIR" "matches p" "kept \<noteq> Some p" for p
  proof -
    have "prune_matching_in EXTENSIONS_DIR ?pre ''.candidate'' kept w = (Done (Ok ()), w')"
      using run that(1) by simp
    from hoareD [OF hoare_prune_matching [OF refl] TrueI this] that(2-4)
    have "map_of (live w') p = None" by (simp add: spared_def matches_def)
    then show ?thesis by (simp add: bytes_at_def now_def)
  qed
  ultimately show ?thesis by blast
qed

lemma prune_candidates_exact_witness:
  "bytes_at (snd (prune_candidates ''a'' None (sample_world []))) ''/v/s'' = Some ''new''"
proof -
  obtain r w' where run: "prune_candidates ''a'' None (sample_world []) = (r, w')"
    by (cases "prune_candidates ''a'' None (sample_world [])")
  have "\<not> ends_with ''.candidate'' (lossy (file_part ''/v/s''))" by code_simp
  with prune_candidates_exact [OF sample_world_coherent run] show ?thesis
    by (simp add: run sample_world_facts)
qed

end
