(* ===== verification/Systemd.thy ===== *)
theory Systemd
  imports Slots
begin

text \<open>
  The commands of \<open>agent/src/system.rs\<close>: image validation and metadata, sysupdate, the journal, the
  merge, units, and the polling loops that decide whether an extension works.
\<close>

section \<open>Images\<close>

definition IMAGE_POLICY :: string where
  "IMAGE_POLICY = ''root=verity+signed+absent:usr=verity+signed+absent''"

definition SYSUPDATE :: string where
  "SYSUPDATE = ''/usr/lib/systemd/systemd-sysupdate''"

definition DISSECT :: string where
  "DISSECT = ''/usr/bin/systemd-dissect''"

definition JOURNALCTL :: string where
  "JOURNALCTL = ''/usr/bin/journalctl''"

abbreviation systemctl :: string where
  "systemctl \<equiv> ''/usr/bin/systemctl''"

definition available_bytes :: "('e, 'v) platform \<Rightarrow> ('e, io_error + u64) io" where
  "available_bytes P =
     and_then (exec P (plain_command ''/usr/bin/df'' [''--output=avail'', ''-B1'', EXTENSIONS_DIR])) (\<lambda>out.
       if \<not> output_success out then ret (Err (IoError OtherIo ''df failed''))
       else
         let ls = str_lines (lossy (output_stdout out))
         in case (if 1 < length ls then parse_uint 64 (trim (ls ! 1)) else None) of
              Some n \<Rightarrow> ret (Ok (word_of_nat n))
            | None \<Rightarrow> ret (Err (IoError OtherIo ''could not read available space'')))"

definition validate_image :: "('e, 'v) platform \<Rightarrow> path \<Rightarrow> ('e, io_error + finished) io" where
  "validate_image P p =
     capture P DISSECT [''--validate'', ''--image-policy='' @ IMAGE_POLICY, lossy p]"

record image_release =
  release_name :: "string option"
  release_base :: "string option"
  release_version :: "string option"

definition no_release :: image_release where
  "no_release = \<lparr>release_name = None, release_base = None, release_version = None\<rparr>"

text \<open>\<open>Option::get_or_insert_with\<close>: the first value stays.\<close>

definition first_of :: "string option \<Rightarrow> string \<Rightarrow> string option" where
  "first_of z v = (case z of Some x \<Rightarrow> Some x | None \<Rightarrow> Some v)"

definition release_entry :: "string \<Rightarrow> image_release \<Rightarrow> image_release" where
  "release_entry e r =
     (case strip_prefix ''VERSION_ID='' e of
        Some v \<Rightarrow> r\<lparr>release_base := first_of (release_base r) (trim_matches (CHR 0x22) v)\<rparr>
      | None \<Rightarrow>
          (case strip_prefix ''SYSEXT_VERSION_ID='' e of
             Some v \<Rightarrow> r\<lparr>release_version := first_of (release_version r) (trim_matches (CHR 0x22) v)\<rparr>
           | None \<Rightarrow>
               (case strip_prefix ''SYSEXT_ID='' e of
                  Some v \<Rightarrow> r\<lparr>release_name := first_of (release_name r) (trim_matches (CHR 0x22) v)\<rparr>
                | None \<Rightarrow> r)))"

definition parse_sysext_release :: "('e, 'v) platform \<Rightarrow> string \<Rightarrow> image_release" where
  "parse_sysext_release P json =
     (case json_parse P json of
        Inl _ \<Rightarrow> no_release
      | Inr parsed \<Rightarrow>
          (case Option.bind (json_get P parsed ''sysextRelease'') (json_array P) of
             None \<Rightarrow> no_release
           | Some entries \<Rightarrow> fold release_entry (List.map_filter (json_str P) entries) no_release))"

definition read_image_release :: "('e, 'v) platform \<Rightarrow> path \<Rightarrow> ('e, io_error + image_release) io" where
  "read_image_release P p =
     and_then (capture P DISSECT [''--json=short'', lossy p]) (\<lambda>out.
       if \<not> finished_ok out then ret (Ok no_release)
       else ret (Ok (parse_sysext_release P (finished_stdout out))))"

definition sha256 :: "('e, 'v) platform \<Rightarrow> path \<Rightarrow> ('e, io_error + string) io" where
  "sha256 P p =
     and_then (capture P ''/usr/bin/sha256sum'' [lossy p]) (\<lambda>out.
       if \<not> finished_ok out then ret (Err (IoError OtherIo ''sha256sum failed''))
       else case split_whitespace (finished_stdout out) of
           d # _ \<Rightarrow> ret (Ok d)
         | [] \<Rightarrow> ret (Err (IoError OtherIo ''could not read digest'')))"

section \<open>Sysupdate\<close>

definition component_names :: "string \<Rightarrow> string list" where
  "component_names out =
     filter (\<lambda>l. \<not> eq_ignore_ascii_case l ''components'')
       (filter (list_all version_char)
         (filter (\<lambda>l. l \<noteq> []) (map trim (str_lines out))))"

definition components :: "('e, 'v) platform \<Rightarrow> ('e, string list) io" where
  "components P =
     bind (capture P SYSUPDATE [''components'']) (\<lambda>r.
       case r of
         Inl _ \<Rightarrow> ret []
       | Inr out \<Rightarrow> if \<not> finished_ok out then ret [] else ret (component_names (finished_stdout out)))"

definition acquire_component ::
  "('e, 'v) platform \<Rightarrow> string \<Rightarrow> string option \<Rightarrow> ('e, io_error + finished) io" where
  "acquire_component P name version =
     capture_mutating P SYSUPDATE
       ([''--component='' @ name, ''update''] @ (case version of Some v \<Rightarrow> [v] | None \<Rightarrow> []))"

definition list_component :: "('e, 'v) platform \<Rightarrow> string \<Rightarrow> ('e, io_error + finished) io" where
  "list_component P name = capture P SYSUPDATE [''--component='' @ name, ''--json=short'', ''list'']"

definition listed_in :: "('e, 'v) platform \<Rightarrow> string \<Rightarrow> string list option" where
  "listed_in P line =
     (case json_parse P (trim line) of
        Inl _ \<Rightarrow> None
      | Inr parsed \<Rightarrow>
          map_option (List.map_filter (json_str P))
            (Option.bind (json_get P parsed ''all'') (json_array P)))"

fun find_map :: "('a \<Rightarrow> 'b option) \<Rightarrow> 'a list \<Rightarrow> 'b option" where
  "find_map f [] = None"
| "find_map f (x # xs) = (case f x of Some y \<Rightarrow> Some y | None \<Rightarrow> find_map f xs)"

definition parse_listed_versions :: "('e, 'v) platform \<Rightarrow> string \<Rightarrow> string list option" where
  "parse_listed_versions P out = find_map (listed_in P) (rev (str_lines out))"

definition sysupdate_base :: "('e, 'v) platform \<Rightarrow> string option \<Rightarrow> ('e, io_error + finished) io" where
  "sysupdate_base P version =
     capture_mutating P SYSUPDATE ([''update''] @ (case version of Some v \<Rightarrow> [v] | None \<Rightarrow> []))"

definition image_id :: "'e world \<Rightarrow> string option" where
  "image_id w =
     Option.bind (os_release w) (\<lambda>t.
       find_map (\<lambda>l. map_option (trim_matches (CHR 0x22)) (strip_prefix ''IMAGE_ID='' l)) (str_lines t))"

definition BOOT_ENTRIES :: path where
  "BOOT_ENTRIES = ''/boot/EFI/Linux''"

fun pending_entries ::
  "string \<Rightarrow> string option \<Rightarrow> path list \<Rightarrow> ('e, string + string option) io" where
  "pending_entries prefix found [] = ret (Ok found)"
| "pending_entries prefix found (e # rest) =
     bind (fs_next_entry e) (\<lambda>r.
       case r of
         Inl _ \<Rightarrow> pending_entries prefix found rest
       | Inr p \<Rightarrow>
           (case strip_prefix prefix (lossy (file_part p)) of
              None \<Rightarrow> pending_entries prefix found rest
            | Some tail \<Rightarrow>
                (case split_once (CHR ''+'') tail of
                   None \<Rightarrow> pending_entries prefix found rest
                 | Some (version, counter) \<Rightarrow>
                     if \<not> ends_with ''.efi'' counter \<or> \<not> version_valid version
                     then pending_entries prefix found rest
                     else if found \<noteq> None
                     then ret (Err ''more than one counted base image is pending'')
                     else pending_entries prefix (Some version) rest)))"

definition pending_base_version :: "('e, string + string option) io" where
  "pending_base_version =
     bind (reads image_id) (\<lambda>i.
       case i of
         None \<Rightarrow> ret (Err ''could not read IMAGE_ID from /etc/os-release'')
       | Some ident \<Rightarrow>
           and_then (mapping_err (\<lambda>e. ''could not read pending UKIs: '' @ io_text e) (fs_read_dir BOOT_ENTRIES))
             (pending_entries (ident @ ''_'') None))"

definition set_oneshot :: "('e, 'v) platform \<Rightarrow> string \<Rightarrow> ('e, io_error + finished) io" where
  "set_oneshot P boot_entry = capture_mutating P ''/usr/bin/bootctl'' [''set-oneshot'', boot_entry]"

definition sync_disks :: "('e, 'v) platform \<Rightarrow> ('e, io_error + finished) io" where
  "sync_disks P = capture_mutating P ''/usr/bin/sync'' []"

fun boot_entry_in :: "string \<Rightarrow> path list \<Rightarrow> ('e, string option) io" where
  "boot_entry_in prefix [] = ret None"
| "boot_entry_in prefix (e # rest) =
     bind (fs_next_entry e) (\<lambda>r.
       case r of
         Inl _ \<Rightarrow> boot_entry_in prefix rest
       | Inr p \<Rightarrow>
           let n = lossy (file_part p)
           in if starts_with prefix n \<and> ends_with ''.efi'' n then ret (Some n)
              else boot_entry_in prefix rest)"

definition pending_boot_entry :: "string \<Rightarrow> ('e, string option) io" where
  "pending_boot_entry version =
     bind (reads image_id) (\<lambda>i.
       case i of
         None \<Rightarrow> ret None
       | Some ident \<Rightarrow>
           bind (fs_read_dir BOOT_ENTRIES) (\<lambda>r.
             case r of
               Inl _ \<Rightarrow> ret None
             | Inr entries \<Rightarrow> boot_entry_in (ident @ ''_'' @ version @ ''+'') entries))"

definition available_base_version :: "('e, 'v) platform \<Rightarrow> ('e, string + string option) io" where
  "available_base_version P =
     and_then (mapping_err (\<lambda>e. ''could not run systemd-sysupdate: '' @ io_text e)
         (run P SYSUPDATE [''check-new''])) (\<lambda>out.
       if output_success out
       then let version = trim (lossy (output_stdout out))
            in ret (Ok (if version \<noteq> [] then Some version else None))
       else
         and_then (mapping_err (\<lambda>e. ''could not run systemd-sysupdate: '' @ io_text e)
             (run P SYSUPDATE [''list''])) (\<lambda>listed.
           if output_success listed then ret (Ok None)
           else ret (Err (''systemd-sysupdate check-new failed: '' @ trim (lossy (output_stderr out))))))"

definition update_pending :: "('e, 'v) platform \<Rightarrow> ('e, bool) io" where
  "update_pending P =
     bind (run P SYSUPDATE [''pending'']) (\<lambda>r.
       ret (case r of Inl _ \<Rightarrow> False | Inr out \<Rightarrow> output_success out))"

section \<open>The journal\<close>

definition journal_arguments ::
  "string option \<Rightarrow> u64 \<Rightarrow> string option \<Rightarrow> string option \<Rightarrow> string list" where
  "journal_arguments unit_name lines cursor priority =
     [''--no-pager'', ''--output=short-iso'', ''--show-cursor''] @
     (case cursor of
        Some c \<Rightarrow> [''--after-cursor='' @ c, ''--lines='' @ show_nat (unat lines)]
      | None \<Rightarrow> [''--lines='' @ show_nat (unat lines)]) @
     (case unit_name of Some u \<Rightarrow> [''--unit='' @ u] | None \<Rightarrow> []) @
     (case priority of Some p \<Rightarrow> [''--priority='' @ p] | None \<Rightarrow> [])"

fun journal_lines :: "string list \<Rightarrow> string option \<Rightarrow> string list \<Rightarrow> string list \<times> string option" where
  "journal_lines collected next [] = (collected, next)"
| "journal_lines collected next (line # rest) =
     (case strip_prefix ''-- cursor:'' (trim line) of
        Some value \<Rightarrow> journal_lines collected (Some (trim value)) rest
      | None \<Rightarrow>
          if starts_with ''-- No entries'' line then journal_lines collected next rest
          else journal_lines (collected @ [line]) next rest)"

definition journal ::
  "('e, 'v) platform \<Rightarrow> string option \<Rightarrow> u64 \<Rightarrow> string option \<Rightarrow> string option \<Rightarrow>
     ('e, io_error + string list \<times> string option) io" where
  "journal P unit_name lines cursor priority =
     and_then (capture P JOURNALCTL (journal_arguments unit_name lines cursor priority)) (\<lambda>out.
       if \<not> finished_ok out then ret (Err (IoError OtherIo (trim (finished_stderr out))))
       else ret (Ok (journal_lines [] None (str_lines (finished_stdout out)))))"

section \<open>Merging and units\<close>

definition sysext_refresh :: "('e, 'v) platform \<Rightarrow> ('e, io_error + unit) io" where
  "sysext_refresh P =
     and_then (run_mutating P ''/usr/bin/systemd-sysext'' [''--image-policy='' @ IMAGE_POLICY, ''refresh'']) (\<lambda>out.
       if output_success out then ret (Ok ())
       else ret (Err (IoError OtherIo
         (''systemd-sysext refresh failed: '' @ trim (lossy (output_stderr out))))))"

definition daemon_reload :: "('e, 'v) platform \<Rightarrow> ('e, io_error + unit) io" where
  "daemon_reload P =
     and_then (run_mutating P systemctl [''daemon-reload'']) (\<lambda>out.
       if output_success out then ret (Ok ()) else ret (Err (IoError OtherIo ''daemon-reload failed'')))"

definition extension_name :: "string \<Rightarrow> string" where
  "extension_name file_stem = (case split_once (CHR ''_'') file_stem of Some (name, _) \<Rightarrow> name | None \<Rightarrow> file_stem)"

fun add_names :: "string list \<Rightarrow> string option list \<Rightarrow> string list" where
  "add_names names [] = names"
| "add_names names (z # rest) =
     (case map_option extension_name z of
        Some n \<Rightarrow> if n \<notin> set names then add_names (names @ [n]) rest else add_names names rest
      | None \<Rightarrow> add_names names rest)"

definition merged_in :: "('e, 'v) platform \<Rightarrow> 'v \<Rightarrow> string list" where
  "merged_in P parsed =
     (case json_array P parsed of
        None \<Rightarrow> []
      | Some entries \<Rightarrow>
          add_names [] (concat (map (\<lambda>e.
            case Option.bind (json_get P e ''extensions'') (json_array P) of
              None \<Rightarrow> []
            | Some xs \<Rightarrow> map (json_str P) xs) entries)))"

definition merged_extensions :: "('e, 'v) platform \<Rightarrow> ('e, io_error + string list) io" where
  "merged_extensions P =
     and_then (run P ''/usr/bin/systemd-sysext'' [''status'', ''--json=short'']) (\<lambda>out.
       if \<not> output_success out then ret (Ok [])
       else case json_parse P (output_stdout out) of
           Inl _ \<Rightarrow> ret (Ok [])
         | Inr parsed \<Rightarrow> ret (Ok (merged_in P parsed)))"

definition unit_is_active :: "('e, 'v) platform \<Rightarrow> string \<Rightarrow> ('e, bool) io" where
  "unit_is_active P u =
     bind (run P systemctl [''is-active'', ''--quiet'', u]) (\<lambda>r.
       ret (case r of Inl _ \<Rightarrow> False | Inr out \<Rightarrow> output_success out))"

definition unit_failed :: "('e, 'v) platform \<Rightarrow> string \<Rightarrow> ('e, bool) io" where
  "unit_failed P u =
     bind (run P systemctl [''is-failed'', ''--quiet'', u]) (\<lambda>r.
       ret (case r of Inl _ \<Rightarrow> False | Inr out \<Rightarrow> output_success out))"

definition start_unit :: "('e, 'v) platform \<Rightarrow> string \<Rightarrow> ('e, io_error + unit) io" where
  "start_unit P u =
     bind (run_mutating P systemctl [''reset-failed'', u]) (\<lambda>_.
     and_then (run_mutating P systemctl [''--no-block'', ''start'', u]) (\<lambda>out.
       if output_success out then ret (Ok ())
       else ret (Err (IoError OtherIo
         (''failed to start '' @ u @ '': '' @ trim (lossy (output_stderr out)))))))"

definition stop_unit :: "('e, 'v) platform \<Rightarrow> string \<Rightarrow> ('e, io_error + unit) io" where
  "stop_unit P u =
     and_then (run_mutating P systemctl [''stop'', u]) (\<lambda>out.
       if output_success out then ret (Ok ())
       else ret (Err (IoError OtherIo
         (''failed to stop '' @ u @ '': '' @ trim (lossy (output_stderr out))))))"

end
