(* ===== verification/Readiness.thy ===== *)
theory Readiness
  imports Systemd
begin

text \<open>
  Deciding whether an extension works: \<open>wait_until_ready\<close>, \<open>probe\<close> and \<open>soak\<close> of
  \<open>agent/src/system.rs\<close>. Their loops poll until a deadline. Each loop carries fuel, one unit per
  nanosecond of its deadline; the lemmas show that it never runs out, because every round sleeps and
  no program turns the clock back.
\<close>

section \<open>The loops\<close>

text \<open>\<open>Instant + Duration\<close> panics when the seconds leave \<open>i64\<close>.\<close>

definition deadline_after :: "nat \<Rightarrow> ('e, nat) io" where
  "deadline_after d w =
     (if as_secs (clock w + d) < 2 ^ 63 then (Done (clock w + d), w)
      else (Stopped (Panicked ''overflow when adding duration to instant''), w))"

text \<open>One start of the unit, polled until its deadline: whether it was seen active.\<close>

fun poll_ready :: "('e, 'v) platform \<Rightarrow> string \<Rightarrow> nat \<Rightarrow> nat \<Rightarrow> ('e, bool) io" where
  "poll_ready P u deadline 0 = stop NoFuel"
| "poll_ready P u deadline (Suc fuel) =
     bind (reads clock) (\<lambda>now.
       if now < deadline then
         bind (unit_is_active P u) (\<lambda>active.
           if active then ret True
           else bind (unit_failed P u) (\<lambda>failed.
             if failed then ret False
             else bind (sleep (from_millis 500)) (\<lambda>_. poll_ready P u deadline fuel)))
       else ret False)"

definition not_ready :: "ruleset \<Rightarrow> string" where
  "not_ready r =
     service r @ '' did not become ready within '' @ show_nat (as_secs (ready_timeout r)) @
     ''s across '' @ show_nat (start_attempts r) @ '' attempts''"

text \<open>\<open>left\<close> attempts remain; the last one does not stop the unit.\<close>

fun start_attempts_from :: "('e, 'v) platform \<Rightarrow> ruleset \<Rightarrow> nat \<Rightarrow> ('e, string + unit) io" where
  "start_attempts_from P r 0 = ret (Err (not_ready r))"
| "start_attempts_from P r (Suc left) =
     bind (start_unit P (service r)) (\<lambda>started.
       case started of
         Inl e \<Rightarrow> ret (Err (io_text e))
       | Inr _ \<Rightarrow>
           bind (deadline_after (ready_timeout r)) (\<lambda>deadline.
           bind (poll_ready P (service r) deadline (Suc (ready_timeout r))) (\<lambda>ready.
             if ready then ret (Ok ())
             else bind (unit_is_active P (service r)) (\<lambda>active.
               if active then ret (Ok ())
               else if left > 0
               then bind (stop_unit P (service r)) (\<lambda>_. start_attempts_from P r left)
               else start_attempts_from P r left))))"

definition wait_until_ready :: "('e, 'v) platform \<Rightarrow> ruleset \<Rightarrow> ('e, string + unit) io" where
  "wait_until_ready P r = start_attempts_from P r (start_attempts r)"

text \<open>The deadline of the health command has passed.\<close>

definition give_up :: "('e, 'v) platform \<Rightarrow> ruleset \<Rightarrow> nat \<Rightarrow> ('e, string + unit) io" where
  "give_up P r child =
     bind (kill P child) (\<lambda>_.
     bind (wait P child) (\<lambda>_.
     ret (Err (''health command exceeded '' @ show_nat (as_secs (health_timeout r)) @ ''s''))))"

fun poll_child ::
  "('e, 'v) platform \<Rightarrow> ruleset \<Rightarrow> nat \<Rightarrow> nat \<Rightarrow> nat \<Rightarrow> ('e, string + unit) io" where
  "poll_child P r child deadline 0 = stop NoFuel"
| "poll_child P r child deadline (Suc fuel) =
     bind (try_wait P child) (\<lambda>polled.
       case polled of
         Inr (Some (succeeded, shown)) \<Rightarrow>
           if succeeded then ret (Ok ()) else ret (Err (''health command exited with '' @ shown))
       | Inr None \<Rightarrow>
           bind (reads clock) (\<lambda>now.
             if deadline \<le> now then give_up P r child
             else bind (sleep (from_millis 200)) (\<lambda>_. poll_child P r child deadline fuel))
       | Inl e \<Rightarrow> ret (Err (''health command failed: '' @ io_text e)))"

definition probe :: "('e, 'v) platform \<Rightarrow> ruleset \<Rightarrow> ('e, string + unit) io" where
  "probe P r =
     (case health_command r of
        None \<Rightarrow> ret (Ok ())
      | Some cmd \<Rightarrow>
          if cmd = [] then stop (Panicked ''index out of bounds'')
          else and_then (mapping_err (\<lambda>e. ''health command failed to start: '' @ io_text e) (spawn P cmd)) (\<lambda>child.
          bind (deadline_after (health_timeout r)) (\<lambda>deadline.
          poll_child P r child deadline (Suc (health_timeout r)))))"

fun soak_until :: "('e, 'v) platform \<Rightarrow> ruleset \<Rightarrow> nat \<Rightarrow> nat \<Rightarrow> ('e, string + unit) io" where
  "soak_until P r deadline 0 = stop NoFuel"
| "soak_until P r deadline (Suc fuel) =
     bind (reads clock) (\<lambda>now.
       if now < deadline then
         bind (unit_is_active P (service r)) (\<lambda>active.
           if \<not> active then ret (Err (service r @ '' stopped during soak''))
           else and_then (probe P r) (\<lambda>_.
             bind (reads clock) (\<lambda>now'.
             bind (sleep (min (health_interval r) (deadline - now'))) (\<lambda>_.
             soak_until P r deadline fuel))))
       else
         bind (unit_is_active P (service r)) (\<lambda>active.
           if \<not> active then ret (Err (service r @ '' stopped during soak''))
           else probe P r))"

definition soak :: "('e, 'v) platform \<Rightarrow> ruleset \<Rightarrow> ('e, string + unit) io" where
  "soak P r =
     (if soak_time r = 0 then probe P r
      else bind (deadline_after (soak_time r)) (\<lambda>deadline.
        soak_until P r deadline (Suc (soak_time r))))"

section \<open>What they leave alone\<close>

lemmas systemd_defs =
  available_bytes_def validate_image_def read_image_release_def sha256_def components_def
  acquire_component_def list_component_def sysupdate_base_def set_oneshot_def sync_disks_def
  available_base_version_def update_pending_def journal_def sysext_refresh_def daemon_reload_def
  merged_extensions_def unit_is_active_def unit_failed_def start_unit_def stop_unit_def

lemma keeps_systemd [keeps_intros]:
  assumes "obeys P I"
  shows "keeps I (available_bytes P)" "keeps I (validate_image P q)" "keeps I (read_image_release P q)"
    "keeps I (sha256 P q)" "keeps I (components P)" "keeps I (acquire_component P n v)"
    "keeps I (list_component P n)" "keeps I (sysupdate_base P v)" "keeps I (set_oneshot P n)"
    "keeps I (sync_disks P)" "keeps I (available_base_version P)" "keeps I (update_pending P)"
    "keeps I (journal P un ln cu pr)" "keeps I (sysext_refresh P)" "keeps I (daemon_reload P)"
    "keeps I (merged_extensions P)" "keeps I (unit_is_active P n)" "keeps I (unit_failed P n)"
    "keeps I (start_unit P n)" "keeps I (stop_unit P n)"
  unfolding systemd_defs Let_def by (intro keeps_intros assms)+

lemma keeps_deadline_after [keeps_intros]: "keeps I (deadline_after d)"
  by (simp add: keeps_def deadline_after_def)

lemma keeps_poll_ready: "obeys P I \<Longrightarrow> keeps I (poll_ready P n d f)"
  by (induction f) (auto intro!: keeps_intros obeys_rest)

lemma keeps_start_attempts: "obeys P I \<Longrightarrow> keeps I (start_attempts_from P r k)"
  by (induction k) (auto intro!: keeps_intros keeps_poll_ready simp del: poll_ready.simps)

lemma keeps_wait_until_ready [keeps_intros]: "obeys P I \<Longrightarrow> keeps I (wait_until_ready P r)"
  unfolding wait_until_ready_def by (rule keeps_start_attempts)

lemma keeps_give_up: "obeys P I \<Longrightarrow> keeps I (give_up P r c)"
  unfolding give_up_def by (intro keeps_intros)

lemma keeps_poll_child: "obeys P I \<Longrightarrow> keeps I (poll_child P r c d f)"
  by (induction f) (auto intro!: keeps_intros keeps_give_up obeys_rest)

lemma keeps_probe [keeps_intros]: "obeys P I \<Longrightarrow> keeps I (probe P r)"
  unfolding probe_def by (intro keeps_intros keeps_poll_child)

lemma keeps_soak_until: "obeys P I \<Longrightarrow> keeps I (soak_until P r d f)"
  by (induction f) (auto intro!: keeps_intros obeys_rest)

lemma keeps_soak [keeps_intros]: "obeys P I \<Longrightarrow> keeps I (soak P r)"
  unfolding soak_def by (intro keeps_intros keeps_soak_until)

section \<open>Termination\<close>

text \<open>\<open>punctual m\<close>: \<open>m\<close> does not run out of fuel, and the clock does not go back.\<close>

definition punctual :: "('e, 'a) io \<Rightarrow> bool" where
  "punctual m \<longleftrightarrow> (\<forall>w. fst (m w) \<noteq> Stopped NoFuel \<and> clock w \<le> clock (snd (m w)))"

text \<open>What the documentation of the clock and of the programs promises: time does not go back.\<close>

definition forward :: "('e, 'v) platform \<Rightarrow> bool" where
  "forward P \<longleftrightarrow>
     (\<forall>c. punctual (exec P c)) \<and> (\<forall>c. punctual (spawn P c)) \<and> (\<forall>c. punctual (try_wait P c)) \<and>
     (\<forall>c. punctual (kill P c)) \<and> (\<forall>c. punctual (wait P c))"

named_theorems punctual_intros \<open>computations that do not run out of fuel\<close>

lemma punctualD: "punctual m \<Longrightarrow> m w = (r, w') \<Longrightarrow> r \<noteq> Stopped NoFuel \<and> clock w \<le> clock w'"
  unfolding punctual_def by (metis fst_conv snd_conv)

lemma punctual_basic [punctual_intros]:
  "punctual (ret x)" "punctual (reads f)" "s \<noteq> NoFuel \<Longrightarrow> punctual (stop s)" "punctual (sleep d)"
  "punctual (deadline_after d)"
  by (simp_all add: punctual_def ret_def reads_def stop_def sleep_def deadline_after_def)

lemma punctual_bind [punctual_intros]:
  assumes "punctual m" "\<And>x. punctual (f x)"
  shows "punctual (bind m f)"
  unfolding punctual_def
proof
  fix w
  obtain r w1 where m: "m w = (r, w1)" by (cases "m w")
  show "fst (bind m f w) \<noteq> Stopped NoFuel \<and> clock w \<le> clock (snd (bind m f w))"
  proof (cases r)
    case (Done x)
    obtain r2 w2 where f: "f x w1 = (r2, w2)" by (cases "f x w1")
    with punctualD [OF assms(1) m] punctualD [OF assms(2) f] show ?thesis by (simp add: bind_def m Done)
  next
    case (Stopped s)
    with punctualD [OF assms(1) m] show ?thesis by (simp add: bind_def m)
  qed
qed

lemma punctual_cases [punctual_intros]:
  "(b \<Longrightarrow> punctual m) \<Longrightarrow> (\<not> b \<Longrightarrow> punctual n) \<Longrightarrow> punctual (if b then m else n)"
  "(z = None \<Longrightarrow> punctual m) \<Longrightarrow> (\<And>x. z = Some x \<Longrightarrow> punctual (f x)) \<Longrightarrow>
     punctual (case z of None \<Rightarrow> m | Some x \<Rightarrow> f x)"
  "(\<And>e. v = Inl e \<Longrightarrow> punctual (g e)) \<Longrightarrow> (\<And>x. v = Inr x \<Longrightarrow> punctual (h x)) \<Longrightarrow>
     punctual (case v of Inl e \<Rightarrow> g e | Inr x \<Rightarrow> h x)"
  by (cases z; cases v; simp)+

lemma punctual_and_then [punctual_intros]:
  "punctual m \<Longrightarrow> (\<And>x. punctual (f x)) \<Longrightarrow> punctual (and_then m f)"
  unfolding and_then_def by (intro punctual_intros)

lemma punctual_mapping_err [punctual_intros]: "punctual m \<Longrightarrow> punctual (mapping_err f m)"
  unfolding mapping_err_def by (intro punctual_intros)

lemma punctual_platform [punctual_intros]:
  assumes "forward P"
  shows "punctual (exec P c)" "punctual (spawn P a)" "punctual (try_wait P i)" "punctual (kill P i)"
    "punctual (wait P i)"
  using assms by (simp_all add: forward_def)

lemma punctual_units [punctual_intros]:
  assumes "forward P"
  shows "punctual (unit_is_active P u)" "punctual (unit_failed P u)" "punctual (start_unit P u)"
    "punctual (stop_unit P u)"
  unfolding systemd_defs run_def run_mutating_def by (intro punctual_intros assms)+

text \<open>
  A round of a polling loop: it either ends the loop or sleeps and goes on, and at the deadline it
  ends the loop.
\<close>

locale polling =
  fixes reliable :: bool and poll :: "nat \<Rightarrow> ('e, 'a) io" and deadline :: nat
  assumes last_round: "reliable \<Longrightarrow> deadline \<le> clock w \<Longrightarrow>
      fst (poll (Suc n) w) \<noteq> Stopped NoFuel \<and> clock w \<le> clock (snd (poll (Suc n) w))"
    and next_round: "reliable \<Longrightarrow> clock w < deadline \<Longrightarrow>
      (fst (poll (Suc n) w) \<noteq> Stopped NoFuel \<and> clock w \<le> clock (snd (poll (Suc n) w))) \<or>
      (\<exists>v. poll (Suc n) w = poll n v \<and> clock w < clock v)"
begin

lemma enough_fuel:
  assumes "reliable"
  shows "deadline \<le> clock w + n \<Longrightarrow>
     fst (poll (Suc n) w) \<noteq> Stopped NoFuel \<and> clock w \<le> clock (snd (poll (Suc n) w))"
proof (induction n arbitrary: w)
  case 0
  then show ?case using last_round [OF assms, of w 0] by simp
next
  case (Suc n)
  show ?case
  proof (cases "clock w < deadline")
    case True
    with next_round [OF assms True, of "Suc n"] show ?thesis
    proof (elim disjE exE conjE)
      fix v
      assume v: "poll (Suc (Suc n)) w = poll (Suc n) v" "clock w < clock v"
      with Suc.prems have "deadline \<le> clock v + n" by simp
      from Suc.IH [OF this] v show ?thesis by simp
    qed simp
  next
    case False
    then show ?thesis by (intro last_round [OF assms]) simp
  qed
qed

end

lemma run_apart:
  assumes "punctual m"
  obtains r w1 where "m w = (r, w1)" "r \<noteq> Stopped NoFuel" "clock w \<le> clock w1"
  using punctualD [OF assms] by (cases "m w") blast

interpretation ready_loop: polling "forward P" "poll_ready P u deadline" deadline
  for P :: "('e, 'v) platform" and u deadline
proof
  fix w :: "'e world" and n
  assume "deadline \<le> clock w"
  then show "fst (poll_ready P u deadline (Suc n) w) \<noteq> Stopped NoFuel \<and>
      clock w \<le> clock (snd (poll_ready P u deadline (Suc n) w))"
    by (simp add: bind_def reads_def ret_def)
next
  fix w :: "'e world" and n
  assume f: "forward P" and t: "clock w < deadline"
  obtain r1 w1 where m1: "unit_is_active P u w = (r1, w1)" "r1 \<noteq> Stopped NoFuel" "clock w \<le> clock w1"
    using punctual_units(1) [OF f] by (rule run_apart)
  obtain r2 w2 where m2: "unit_failed P u w1 = (r2, w2)" "r2 \<noteq> Stopped NoFuel" "clock w1 \<le> clock w2"
    using punctual_units(2) [OF f] by (rule run_apart)
  have "clock w < clock (w2\<lparr>clock := clock w2 + from_millis 500\<rparr>)"
    using m1 m2 by (simp add: from_millis_def)
  with t m1 m2 show "(fst (poll_ready P u deadline (Suc n) w) \<noteq> Stopped NoFuel \<and>
      clock w \<le> clock (snd (poll_ready P u deadline (Suc n) w))) \<or>
      (\<exists>v. poll_ready P u deadline (Suc n) w = poll_ready P u deadline n v \<and> clock w < clock v)"
    by (cases r1; cases r2) (auto simp: bind_def reads_def ret_def sleep_def)
qed

lemma punctual_give_up [punctual_intros]: "forward P \<Longrightarrow> punctual (give_up P r c)"
  unfolding give_up_def by (intro punctual_intros)

interpretation child_loop: polling "forward P" "poll_child P r c deadline" deadline
  for P :: "('e, 'v) platform" and r c deadline
proof
  fix w :: "'e world" and n
  assume f: "forward P" and t: "deadline \<le> clock w"
  obtain q w1 where m: "try_wait P c w = (q, w1)" "q \<noteq> Stopped NoFuel" "clock w \<le> clock w1"
    using punctual_platform(3) [OF f] by (rule run_apart)
  obtain q2 w2 where e: "give_up P r c w1 = (q2, w2)" "q2 \<noteq> Stopped NoFuel" "clock w1 \<le> clock w2"
    using punctual_give_up [OF f] by (rule run_apart)
  from m t e show "fst (poll_child P r c deadline (Suc n) w) \<noteq> Stopped NoFuel \<and>
      clock w \<le> clock (snd (poll_child P r c deadline (Suc n) w))"
    by (cases q) (auto simp: bind_run bind_reads ret_def split: sum.splits option.splits)
next
  fix w :: "'e world" and n
  assume f: "forward P" and t: "clock w < deadline"
  obtain q w1 where m: "try_wait P c w = (q, w1)" "q \<noteq> Stopped NoFuel" "clock w \<le> clock w1"
    using punctual_platform(3) [OF f] by (rule run_apart)
  obtain q2 w2 where e: "give_up P r c w1 = (q2, w2)" "q2 \<noteq> Stopped NoFuel" "clock w1 \<le> clock w2"
    using punctual_give_up [OF f] by (rule run_apart)
  have s: "sleep (from_millis 200) w1 = (Done (), w1\<lparr>clock := clock w1 + from_millis 200\<rparr>)"
    "clock w < clock (w1\<lparr>clock := clock w1 + from_millis 200\<rparr>)"
    using m by (simp_all add: from_millis_def sleep_def)
  show "(fst (poll_child P r c deadline (Suc n) w) \<noteq> Stopped NoFuel \<and>
      clock w \<le> clock (snd (poll_child P r c deadline (Suc n) w))) \<or>
      (\<exists>v. poll_child P r c deadline (Suc n) w = poll_child P r c deadline n v \<and> clock w < clock v)"
  proof (cases "q = Done (Ok None) \<and> clock w1 < deadline")
    case True
    with m s have "poll_child P r c deadline (Suc n) w =
        poll_child P r c deadline n (w1\<lparr>clock := clock w1 + from_millis 200\<rparr>)"
      by (simp add: bind_run bind_reads)
    with s(2) show ?thesis by blast
  next
    case False
    with m e show ?thesis
      by (cases q) (auto simp: bind_run bind_reads ret_def split: sum.splits option.splits)
  qed
qed

lemma punctual_probe [punctual_intros]:
  assumes f: "forward P"
  shows "punctual (probe P r)"
proof -
  have polls: "punctual (bind (deadline_after (health_timeout r))
      (\<lambda>deadline. poll_child P r c deadline (Suc (health_timeout r))))" for c
    unfolding punctual_def
  proof
    fix w
    show "fst (bind (deadline_after (health_timeout r))
        (\<lambda>deadline. poll_child P r c deadline (Suc (health_timeout r))) w) \<noteq> Stopped NoFuel \<and>
      clock w \<le> clock (snd (bind (deadline_after (health_timeout r))
        (\<lambda>deadline. poll_child P r c deadline (Suc (health_timeout r))) w))"
      using child_loop.enough_fuel [OF f, of "clock w + health_timeout r" w "health_timeout r" r c]
      by (simp add: deadline_after_def bind_def)
  qed
  show ?thesis
    unfolding probe_def
    by (intro punctual_cases punctual_and_then punctual_mapping_err punctual_platform(2) [OF f] polls
        punctual_basic) simp_all
qed

interpretation soak_loop: polling "forward P \<and> 0 < health_interval r" "soak_until P r deadline" deadline
  for P :: "('e, 'v) platform" and r deadline
proof
  fix w :: "'e world" and n
  assume f: "forward P \<and> 0 < health_interval r" and t: "deadline \<le> clock w"
  have "punctual (bind (unit_is_active P (service r)) (\<lambda>active.
      if \<not> active then ret (Err (service r @ '' stopped during soak'')) else probe P r))"
    using f by (intro punctual_intros) auto
  with t show "fst (soak_until P r deadline (Suc n) w) \<noteq> Stopped NoFuel \<and>
      clock w \<le> clock (snd (soak_until P r deadline (Suc n) w))"
    by (simp add: bind_reads punctual_def)
next
  fix w :: "'e world" and n
  assume f: "forward P \<and> 0 < health_interval r" and t: "clock w < deadline"
  obtain r1 w1 where m: "unit_is_active P (service r) w = (r1, w1)" "r1 \<noteq> Stopped NoFuel" "clock w \<le> clock w1"
    using punctual_units(1) f by (blast intro: run_apart)
  obtain r2 w2 where p: "probe P r w1 = (r2, w2)" "r2 \<noteq> Stopped NoFuel" "clock w1 \<le> clock w2"
    using punctual_probe f by (blast intro: run_apart)
  let ?v = "w2\<lparr>clock := clock w2 + min (health_interval r) (deadline - clock w2)\<rparr>"
  have s: "sleep (min (health_interval r) (deadline - clock w2)) w2 = (Done (), ?v)"
    by (simp add: sleep_def)
  have v: "clock w < clock ?v" using f t m p by (cases "clock w2 < deadline") auto
  show "(fst (soak_until P r deadline (Suc n) w) \<noteq> Stopped NoFuel \<and>
      clock w \<le> clock (snd (soak_until P r deadline (Suc n) w))) \<or>
      (\<exists>v. soak_until P r deadline (Suc n) w = soak_until P r deadline n v \<and> clock w < clock v)"
  proof (cases "r1 = Done True \<and> r2 = Done (Ok ())")
    case True
    with t m p s have "soak_until P r deadline (Suc n) w = soak_until P r deadline n ?v"
      by (simp add: bind_run bind_reads and_then_run)
    with v show ?thesis by blast
  next
    case False
    with t m p show ?thesis
      by (cases r1; cases r2)
        (auto simp: bind_run bind_reads ret_def and_then_def split: sum.splits)
  qed
qed


lemma punctual_start_attempts:
  assumes f: "forward P"
  shows "punctual (start_attempts_from P r k)"
proof (induction k)
  case (Suc k)
  have poll: "punctual (bind (deadline_after (ready_timeout r)) (\<lambda>deadline.
      bind (poll_ready P (service r) deadline (Suc (ready_timeout r))) g))"
    if g: "\<And>x. punctual (g x)" for g :: "bool \<Rightarrow> ('a, string + unit) io"
    unfolding punctual_def
  proof
    fix w
    show "fst (bind (deadline_after (ready_timeout r)) (\<lambda>deadline.
        bind (poll_ready P (service r) deadline (Suc (ready_timeout r))) g) w) \<noteq> Stopped NoFuel \<and>
      clock w \<le> clock (snd (bind (deadline_after (ready_timeout r)) (\<lambda>deadline.
        bind (poll_ready P (service r) deadline (Suc (ready_timeout r))) g) w))"
    proof (cases "as_secs (clock w + ready_timeout r) < 2 ^ 63")
      case True
      let ?m = "poll_ready P (service r) (clock w + ready_timeout r) (Suc (ready_timeout r))"
      obtain z v where m: "?m w = (z, v)" by (cases "?m w")
      with ready_loop.enough_fuel [OF f, of "clock w + ready_timeout r" w "ready_timeout r" "service r"]
      have z: "z \<noteq> Stopped NoFuel" "clock w \<le> clock v" by auto
      show ?thesis
      proof (cases z)
        case (Done x)
        obtain a b where g2: "g x v = (a, b)" by (cases "g x v")
        with punctualD [OF g g2] True z m Done show ?thesis
          by (simp add: deadline_after_def bind_def del: poll_ready.simps)
      next
        case (Stopped s)
        with True z m show ?thesis by (simp add: deadline_after_def bind_def del: poll_ready.simps)
      qed
    next
      case False
      then show ?thesis by (simp add: deadline_after_def bind_def)
    qed
  qed
  show ?case
    unfolding start_attempts_from.simps
    by (rule punctual_bind [OF punctual_units(3) [OF f]], rule punctual_cases(3), rule punctual_basic,
        rule poll) (intro punctual_intros Suc f)
qed (simp add: punctual_intros)

lemma punctual_wait_until_ready: "forward P \<Longrightarrow> punctual (wait_until_ready P r)"
  unfolding wait_until_ready_def by (rule punctual_start_attempts)

lemma punctual_soak:
  assumes f: "forward P" "0 < health_interval r"
  shows "punctual (soak P r)"
  unfolding punctual_def
proof
  fix w
  show "fst (soak P r w) \<noteq> Stopped NoFuel \<and> clock w \<le> clock (snd (soak P r w))"
    using soak_loop.enough_fuel [of P r "clock w + soak_time r" w "soak_time r"] f
      punctual_probe [OF f(1), of r, unfolded punctual_def]
    by (simp add: soak_def deadline_after_def bind_def)
qed

section \<open>Properties\<close>

lemma poll_ready_active:
  "poll_ready P u d n w = (Done True, w') \<Longrightarrow> \<exists>w1. unit_is_active P u w1 = (Done True, w')"
proof (induction n arbitrary: w)
  case (Suc n)
  then show ?case
    by (auto simp: bind_Done_iff reads_def ret_def split: if_splits)
qed (simp add: stop_def)

lemma start_attempts_active:
  "start_attempts_from P r k w = (Done (Ok ()), w') \<Longrightarrow>
     \<exists>w1. unit_is_active P (service r) w1 = (Done True, w')"
proof (induction k arbitrary: w)
  case (Suc k)
  from Suc.prems show ?case
    by (auto simp: bind_Done_iff ret_def simp del: poll_ready.simps split: sum.splits if_splits
        dest: poll_ready_active Suc.IH) (metis old.unit.exhaust sum.exhaust)+
qed (simp add: ret_def)

lemma soak_until_proves:
  "soak_until P r d n w = (Done (Ok ()), w') \<Longrightarrow>
     \<exists>w1 w2. d \<le> clock w1 \<and> unit_is_active P (service r) w1 = (Done True, w2) \<and>
       probe P r w2 = (Done (Ok ()), w')"
proof (induction n arbitrary: w)
  case (Suc n)
  show ?case
  proof (cases "clock w < d")
    case True
    with Suc.prems obtain v where "soak_until P r d n v = (Done (Ok ()), w')"
      by (auto simp: bind_reads bind_Done_iff and_then_Ok_iff ret_def split: if_splits)
    then show ?thesis by (rule Suc.IH)
  next
    case False
    with Suc.prems show ?thesis
      by - (rule exI [of _ w], auto simp: bind_reads bind_Done_iff ret_def split: if_splits)
  qed
qed (simp add: stop_def)


text \<open>A platform on which every program succeeds and says nothing.\<close>

definition succeeding :: "(unit, unit) platform" where
  "succeeding =
     sample_platform\<lparr>exec := (\<lambda>_. ret (Ok \<lparr>output_code = Some 0, output_success = True,
       output_stdout = [], output_stderr = []\<rparr>))\<rparr>"

lemma succeeding_forward: "forward succeeding"
  by (simp add: forward_def succeeding_def sample_platform_def punctual_intros)


text \<open>
  Readiness is observed, not assumed. When \<open>wait_until_ready\<close> reports success, the last thing
  it did was to ask for the state of the ruleset's unit, and the unit was active.
\<close>

theorem ready_means_active:
  assumes "wait_until_ready P r w = (Done (Ok ()), w')"
  shows "\<exists>w1. unit_is_active P (service r) w1 = (Done True, w')"
  using assms unfolding wait_until_ready_def by (rule start_attempts_active)

lemma ready_means_active_witness:
  "\<exists>w1. unit_is_active succeeding ''x'' w1 =
     (Done True, snd (wait_until_ready succeeding (ruleset_defaults\<lparr>service := ''x''\<rparr>) (empty_world [])))"
proof -
  let ?r = "ruleset_defaults\<lparr>service := ''x''\<rparr>"
  have "fst (wait_until_ready succeeding ?r (empty_world [])) = Done (Ok ())" by code_simp
  then have "wait_until_ready succeeding ?r (empty_world []) =
      (Done (Ok ()), snd (wait_until_ready succeeding ?r (empty_world [])))"
    by (metis prod.collapse)
  from ready_means_active [OF this] show ?thesis by simp
qed

text \<open>
  C24: a soak that succeeds covered its whole period. At its end, after the deadline, the unit was
  asked for once more and was active, and the health command was run once more and passed.
\<close>

theorem soak_covers_period:
  assumes "0 < soak_time r" "soak P r w = (Done (Ok ()), w')"
  shows "\<exists>w1 w2. clock w + soak_time r \<le> clock w1 \<and>
    unit_is_active P (service r) w1 = (Done True, w2) \<and> probe P r w2 = (Done (Ok ()), w')"
proof -
  have "soak_until P r (clock w + soak_time r) (Suc (soak_time r)) w = (Done (Ok ()), w')"
    using assms by (auto simp: soak_def deadline_after_def bind_def simp del: soak_until.simps
        split: if_splits)
  then show ?thesis by (rule soak_until_proves)
qed

lemma soak_covers_period_witness:
  "\<exists>w1 w2. clock (empty_world []) + from_secs 20 \<le> clock w1 \<and>
     unit_is_active succeeding ''x'' w1 = (Done True, w2) \<and>
     probe succeeding (ruleset_defaults\<lparr>service := ''x'', soak_time := from_secs 20\<rparr>) w2 =
       (Done (Ok ()), snd (soak succeeding (ruleset_defaults\<lparr>service := ''x'', soak_time := from_secs 20\<rparr>)
         (empty_world [])))"
proof -
  let ?r = "ruleset_defaults\<lparr>service := ''x'', soak_time := from_secs 20\<rparr>"
  have "fst (soak succeeding ?r (empty_world [])) = Done (Ok ())" by code_simp
  then have run: "soak succeeding ?r (empty_world []) = (Done (Ok ()), snd (soak succeeding ?r (empty_world [])))"
    by (metis prod.collapse)
  have "0 < soak_time ?r" by (simp add: from_secs_def)
  from soak_covers_period [OF this run] show ?thesis by simp
qed

end
