(* ===== verification/Ops.thy ===== *)
theory Ops
  imports Readiness
begin

text \<open>
  The privileged operations of \<open>agent/src/ops.rs\<close>: acquiring an extension image or taking a supplied
  one, validating and placing it, and staging a base image only when every extension has an image
  for it. Failures keep their structure.
\<close>

section \<open>Data\<close>

datatype source = Acquire "string option" | Supplied path string

record staged =
  staged_name :: string
  staged_version :: string
  staged_path :: string
  staged_acquired :: bool
  staged_extension_version :: "string option"
  staged_for_running_base :: bool

record staged_base =
  base_version :: "string option"
  base_pending :: bool
  base_boot_entry :: "string option"

record placed =
  placed_path :: string
  placed_base :: string
  placed_extension_version :: "string option"
  placed_for_running_base :: bool

definition MAX_ACQUIRED_IMAGE :: u64 where
  "MAX_ACQUIRED_IMAGE = 1024 * 1024 * 1024"

text \<open>A failed I/O operation as a failure of the stage it happened in.\<close>

definition io_failure :: "stage \<Rightarrow> string \<Rightarrow> io_error \<Rightarrow> failure" where
  "io_failure s what e = at s (new_failure Failed (what @ io_text e))"

text \<open>A program that ran and reported failure.\<close>

definition command_failure :: "stage \<Rightarrow> code \<Rightarrow> string \<Rightarrow> finished \<Rightarrow> failure" where
  "command_failure s c m f =
     with_stderr (finished_stderr f)
       (with_exit_code (finished_code f) (with_command (finished_command f) (at s (new_failure c m))))"

definition target_base :: "string option \<Rightarrow> 'e world \<Rightarrow> failure + string" where
  "target_base requested w =
     (case requested of
        Some base \<Rightarrow>
          if \<not> version_valid base
          then Err (new_failure Malformed (''unusable base version '' @ debug_str base))
          else Ok base
      | None \<Rightarrow>
          (case os_version w of
             Some v \<Rightarrow> Ok v
           | None \<Rightarrow> Err (new_failure Failed ''could not read the running base version'')))"

section \<open>Choosing a version of the feed\<close>

definition revision_number :: "string \<Rightarrow> nat option" where
  "revision_number revision =
     (if revision = [] \<or> starts_with ''0'' revision \<or> \<not> list_all is_ascii_digit revision then None
      else parse_uint 64 revision)"

definition revision_of :: "string \<Rightarrow> string \<Rightarrow> nat option" where
  "revision_of base version =
     (if version = base then Some 0
      else Option.bind (strip_prefix base version) (\<lambda>tail.
           Option.bind (strip_prefix ''-'' tail) revision_number))"

text \<open>\<open>Iterator::max_by_key\<close>: of equal keys the last one wins.\<close>

definition later_max :: "nat \<times> string \<Rightarrow> (nat \<times> string) option \<Rightarrow> (nat \<times> string) option" where
  "later_max x best =
     (case best of None \<Rightarrow> Some x | Some b \<Rightarrow> if fst b \<le> fst x then Some x else Some b)"

definition newest_for_base :: "string \<Rightarrow> string list \<Rightarrow> string option" where
  "newest_for_base base offered =
     map_option snd
       (fold later_max (List.map_filter (\<lambda>v. map_option (\<lambda>r. (r, v)) (revision_of base v)) offered) None)"

definition resolve_revision :: "('e, 'v) platform \<Rightarrow> string \<Rightarrow> string \<Rightarrow> ('e, failure + string) io" where
  "resolve_revision P name base =
     and_then (mapping_err (io_failure Staging ''could not run systemd-sysupdate: '') (list_component P name)) (\<lambda>listed.
       if \<not> finished_ok listed
       then ret (Err (command_failure Staging Failed (''could not list '' @ name @ '' versions'') listed))
       else case parse_listed_versions P (finished_stdout listed) of
           None \<Rightarrow> ret (Err (with_stderr (finished_stdout listed) (with_command (finished_command listed)
             (at Staging (new_failure Failed
               (''could not read the '' @ name @ '' versions systemd-sysupdate listed''))))))
         | Some offered \<Rightarrow>
             (case newest_for_base base offered of
                Some v \<Rightarrow> ret (Ok v)
              | None \<Rightarrow> ret (Err (with_command (finished_command listed) (at Staging (new_failure Failed
                  (''the feed offers no '' @ name @ '' image for '' @ base)))))))"

section \<open>Space\<close>

definition require_space :: "('e, 'v) platform \<Rightarrow> u64 \<Rightarrow> ('e, failure + unit) io" where
  "require_space P needed =
     and_then (mapping_err (io_failure Checking []) (available_bytes P)) (\<lambda>available.
       if needed \<le> available then ret (Ok ())
       else ret (Err (at Checking (new_failure NoSpace
         (''insufficient space: transaction needs '' @ show_nat (unat needed) @ '' bytes, '' @
          show_nat (unat available) @ '' available'')))))"

definition missing_rollback_size :: "('e, 'v) platform \<Rightarrow> string \<Rightarrow> ('e, io_error + u64) io" where
  "missing_rollback_size P name =
     and_then (load_state P) (\<lambda>s.
     bind (reads (\<lambda>w. case Option.bind (state_get s name) known_good_version of
         Some v \<Rightarrow> exists_path w (rollback_path name v w)
       | None \<Rightarrow> False)) (\<lambda>retained.
       if retained then ret (Ok 0)
       else
         bind (reads (active_path name)) (\<lambda>active.
         bind (fs_metadata_len active) (\<lambda>r.
           case r of
             Inr n \<Rightarrow> ret (Ok n)
           | Inl e \<Rightarrow> if kind e = NotFound then ret (Ok 0) else ret (Err e)))))"

text \<open>The version of an extension that is merged into the running base.\<close>

definition merged_release_path :: "string \<Rightarrow> path" where
  "merged_release_path name = ''/usr/lib/extension-release.d/extension-release.'' @ name"

definition merged_version :: "string \<Rightarrow> ('e, string option) io" where
  "merged_version name =
     bind (fs_read_to_string (merged_release_path name)) (\<lambda>r.
       ret (case r of
           Inl _ \<Rightarrow> None
         | Inr contents \<Rightarrow> find_map (\<lambda>line.
             case strip_prefix ''SYSEXT_VERSION_ID='' line of
               None \<Rightarrow> None
             | Some value \<Rightarrow>
                 let v = trim_matches (CHR 0x22) (trim value)
                 in if version_valid v then Some v else None) (str_lines contents)))"

section \<open>Validating and placing an image\<close>

text \<open>What the image must declare: its name, a usable base, and the requested base if there is one.\<close>

definition check_release ::
  "string \<Rightarrow> string option \<Rightarrow> image_release \<Rightarrow> failure + string" where
  "check_release name requested release =
     (if release_name release \<noteq> Some name
      then Err (at Validating (new_failure Untrusted
        (''image declares extension '' @
         debug_str (case release_name release of Some n \<Rightarrow> n | None \<Rightarrow> ''none'') @
         '', staging was requested for '' @ name)))
      else case (case release_base release of Some v \<Rightarrow> if version_valid v then Some v else None
                 | None \<Rightarrow> None) of
          None \<Rightarrow> Err (at Validating (new_failure BaseMismatch (name @ '' declares no usable base version'')))
        | Some declared \<Rightarrow>
            if (case requested of Some q \<Rightarrow> declared \<noteq> q | None \<Rightarrow> False)
            then Err (at Validating (new_failure BaseMismatch
              (name @ '' declares base '' @ declared @ '', staging was requested for '' @
               (case requested of Some q \<Rightarrow> q | None \<Rightarrow> []))))
            else Ok declared)"

text \<open>The end of the placement for the running base: the candidate becomes part of the state.\<close>

definition record_candidate ::
  "('e, 'v) platform \<Rightarrow> string \<Rightarrow> string \<Rightarrow> path \<Rightarrow> ('e, failure + unit) io" where
  "record_candidate P name version target =
     and_then (mapping_err (io_failure Staging ''could not read agent state: '') (load_state P)) (\<lambda>s.
     bind (store P (entry name (\<lambda>e. e\<lparr>candidate_version := Some version, phase := Staged\<rparr>) s)) (\<lambda>r.
       case r of
         Inr _ \<Rightarrow> ret (Ok ())
       | Inl e \<Rightarrow>
           bind (durable_remove target) (\<lambda>_.
           ret (Err (io_failure Staging ''could not record staged image: '' e)))))"

text \<open>Everything behind the checks of \<open>validate_and_place\<close>: the target is known.\<close>

definition place_image ::
  "('e, 'v) platform \<Rightarrow> string \<Rightarrow> path \<Rightarrow> path \<Rightarrow> bool \<Rightarrow> string option \<Rightarrow> ('e, failure + unit) io" where
  "place_image P name staging target for_running declared_version =
     and_then (mapping_err (io_failure Staging []) (fs_metadata_len staging)) (\<lambda>image_size.
     and_then (if for_running
               then mapping_err (io_failure Checking []) (missing_rollback_size P name)
               else ret (Ok 0)) (\<lambda>rollback_size.
     and_then (require_space P (activation_space image_size rollback_size)) (\<lambda>_.
     and_then (if for_running
               then mapping_err (io_failure Staging ''could not prune old candidates: '') (prune_candidates name None)
               else ret (Ok ())) (\<lambda>_.
     and_then (mapping_err (io_failure Staging ''could not set staged image mode: '') (durable_mode staging 420)) (\<lambda>_.
     and_then (mapping_err (io_failure Staging ''could not place the image: '') (durable_move staging target)) (\<lambda>_.
       if for_running
       then (case declared_version of
           Some v \<Rightarrow> record_candidate P name v target
         | None \<Rightarrow> stop (Panicked ''checked above''))
       else ret (Ok ())))))))"

definition validate_and_place ::
  "('e, 'v) platform \<Rightarrow> string \<Rightarrow> string option \<Rightarrow> path \<Rightarrow> ('e, failure + placed) io" where
  "validate_and_place P name requested staging =
     and_then (mapping_err (io_failure Validating ''could not validate the image: '') (validate_image P staging)) (\<lambda>validated.
       if \<not> finished_ok validated
       then ret (Err (command_failure Validating Untrusted (name @ '' failed signed image validation'') validated))
       else
         and_then (mapping_err (io_failure Validating ''could not read the image: '') (read_image_release P staging)) (\<lambda>release.
           case check_release name requested release of
             Inl e \<Rightarrow> ret (Err e)
           | Inr base \<Rightarrow>
               bind (reads os_version) (\<lambda>running.
                 let for_running = (running = Some base);
                     declared_version =
                       (case release_version release of
                          Some v \<Rightarrow> if version_valid v then Some v else None
                        | None \<Rightarrow> None)
                 in and_then
                      (if for_running
                       then case declared_version of
                           None \<Rightarrow> ret (Err (at Validating (new_failure Failed
                             (name @ '' declares no usable extension version''))))
                         | Some v \<Rightarrow> bind (reads (candidate_path name v)) (\<lambda>p. ret (Ok p))
                       else ret (Ok (scoped_active_path name base))) (\<lambda>target.
                    and_then (place_image P name staging target for_running declared_version) (\<lambda>_.
                    ret (Ok \<lparr>placed_path = lossy target, placed_base = base,
                             placed_extension_version = declared_version,
                             placed_for_running_base = for_running\<rparr>))))))"

section \<open>Staging an extension\<close>

definition placed_as :: "string \<Rightarrow> bool \<Rightarrow> placed \<Rightarrow> staged" where
  "placed_as name acquired p =
     \<lparr>staged_name = name, staged_version = placed_base p, staged_path = placed_path p,
      staged_acquired = acquired, staged_extension_version = placed_extension_version p,
      staged_for_running_base = placed_for_running_base p\<rparr>"

text \<open>The private copy is digested, validated, placed and removed again.\<close>

definition digest_and_place ::
  "('e, 'v) platform \<Rightarrow> string \<Rightarrow> string option \<Rightarrow> string \<Rightarrow> path \<Rightarrow> ('e, failure + staged) io" where
  "digest_and_place P name base digest staging =
     (let expected = (case strip_prefix ''sha256:'' digest of Some d \<Rightarrow> d | None \<Rightarrow> digest)
      in bind (sha256 P staging) (\<lambda>digested.
        case digested of
          Inl e \<Rightarrow>
            bind (durable_remove staging) (\<lambda>_.
            ret (Err (io_failure Validating ''could not digest the staged image: '' e)))
        | Inr actual \<Rightarrow>
            if \<not> eq_ignore_ascii_case actual expected
            then bind (durable_remove staging) (\<lambda>_.
              ret (Err (at Validating (new_failure DigestMismatch
                (''image digest is '' @ actual @ '', caller declared '' @ expected)))))
            else
              bind (validate_and_place P name base staging) (\<lambda>outcome.
              bind (durable_remove staging) (\<lambda>_.
              ret (map_sum id (placed_as name False) outcome)))))"

definition supplied ::
  "('e, 'v) platform \<Rightarrow> string \<Rightarrow> string option \<Rightarrow> path \<Rightarrow> string \<Rightarrow> ('e, failure + staged) io" where
  "supplied P name base p digest =
     (if \<not> is_absolute p then ret (Err (new_failure Malformed ''an image path must be absolute''))
      else bind (reads (\<lambda>w. exists_path w p)) (\<lambda>present.
        if \<not> present
        then ret (Err (at Checking (new_failure CodeNotFound (''no image at '' @ lossy p))))
        else
          and_then (mapping_err (io_failure Checking []) (fs_open p)) (\<lambda>src.
          and_then (mapping_err (io_failure Checking []) (fs_len src)) (\<lambda>image_size.
          bind (reads (\<lambda>w. case base of Some q \<Rightarrow> os_version w = Some q | None \<Rightarrow> True)) (\<lambda>running.
          and_then (if running
                    then mapping_err (io_failure Checking []) (missing_rollback_size P name)
                    else ret (Ok 0)) (\<lambda>rollback_size.
          and_then (require_space P (staging_space image_size rollback_size)) (\<lambda>_.
            let staging = join STAGING_DIR (name @ ''.raw'')
            in and_then (mapping_err (io_failure Staging ''could not stage the image: '')
                   (and_then (fs_create_dir_all STAGING_DIR) (\<lambda>_. durable_copy_file src staging image_size))) (\<lambda>_.
               digest_and_place P name base digest staging))))))))"

text \<open>The downloaded image is checked for presence and size, then treated as a supplied one.\<close>

definition place_download ::
  "('e, 'v) platform \<Rightarrow> string \<Rightarrow> string \<Rightarrow> string \<Rightarrow> finished \<Rightarrow> ('e, failure + placed) io" where
  "place_download P name base selected run_result =
     (let staged = join STAGING_DIR (name @ ''_'' @ selected @ ''.raw'')
      in bind (reads (\<lambda>w. exists_path w staged)) (\<lambda>present.
        if \<not> present
        then ret (Err (with_stderr (finished_stdout run_result) (with_command (finished_command run_result)
          (at Staging (new_failure Failed
            (name @ '' was acquired but no image for '' @ selected @ '' is present''))))))
        else
          and_then (mapping_err (io_failure Staging []) (fs_metadata_len staged)) (\<lambda>downloaded_size.
            if downloaded_size > MAX_ACQUIRED_IMAGE
            then ret (Err (at Staging (new_failure NoSpace
              (''acquired image is '' @ show_nat (unat downloaded_size) @ '' bytes; limit is '' @
               show_nat (unat MAX_ACQUIRED_IMAGE)))))
            else validate_and_place P name (Some base) staged)))"

definition acquire_image ::
  "('e, 'v) platform \<Rightarrow> string \<Rightarrow> string \<Rightarrow> string option \<Rightarrow> ('e, failure + staged) io" where
  "acquire_image P name base version =
     (if (case version of Some v \<Rightarrow> \<not> version_valid v | None \<Rightarrow> False)
      then ret (Err (new_failure Malformed (''unusable extension version '' @
        debug_str (case version of Some v \<Rightarrow> v | None \<Rightarrow> []))))
      else bind (components P) (\<lambda>known.
        if name \<notin> set known
        then ret (Err (at Checking (new_failure CodeNotFound
          (''no source is configured for '' @ name @ ''; supply an image instead''))))
        else
          and_then (mapping_err (io_failure Staging ''could not create extension staging directory: '')
            (fs_create_dir_all STAGING_DIR)) (\<lambda>_.
          and_then (require_space P (sat_add MAX_ACQUIRED_IMAGE (16 * 1024 * 1024))) (\<lambda>_.
          and_then (case version of Some v \<Rightarrow> ret (Ok v) | None \<Rightarrow> resolve_revision P name base) (\<lambda>selected.
          and_then (mapping_err (io_failure Staging ''could not run systemd-sysupdate: '')
            (acquire_component P name (Some selected))) (\<lambda>run_result.
            if \<not> finished_ok run_result
            then bind (clear_staged name) (\<lambda>_.
              ret (Err (command_failure Staging Failed (''could not acquire '' @ name) run_result)))
            else
              bind (place_download P name base selected run_result) (\<lambda>outcome.
              bind (clear_staged name) (\<lambda>_.
              ret (map_sum id (placed_as name True) outcome)))))))))"

definition stage_extension ::
  "('e, 'v) platform \<Rightarrow> string \<Rightarrow> string option \<Rightarrow> source \<Rightarrow> ('e, failure + staged) io" where
  "stage_extension P name base src =
     (if \<not> version_valid name
      then ret (Err (new_failure Malformed (''unusable extension name '' @ debug_str name)))
      else case src of
          Acquire version \<Rightarrow>
            and_then (case base of Some b \<Rightarrow> ret (Ok b) | None \<Rightarrow> reads (target_base None)) (\<lambda>b.
            acquire_image P name b version)
        | Supplied p digest \<Rightarrow> supplied P name base p digest)"

section \<open>Staging a base\<close>

fun verify_images :: "('e, 'v) platform \<Rightarrow> string \<Rightarrow> string list \<Rightarrow> ('e, failure + unit) io" where
  "verify_images P pending [] = ret (Ok ())"
| "verify_images P pending (name # rest) =
     (let img = scoped_active_path name pending
      in bind (reads (\<lambda>w. exists_path w img)) (\<lambda>present.
        if \<not> present
        then ret (Err (at Checking (new_failure Precondition
          (name @ '' is installed but has no image staged for '' @ pending))))
        else
          and_then (mapping_err (io_failure Validating (''could not validate '' @ lossy img @ '': ''))
            (validate_image P img)) (\<lambda>validated.
            if \<not> finished_ok validated
            then ret (Err (command_failure Validating Untrusted
              (name @ '' has an untrusted image staged for '' @ pending) validated))
            else
              and_then (mapping_err (io_failure Validating (''could not inspect '' @ lossy img @ '': ''))
                (read_image_release P img)) (\<lambda>rel.
                if release_name rel \<noteq> Some name \<or> release_base rel \<noteq> Some pending
                then ret (Err (at Validating (new_failure BaseMismatch
                  (name @ '' has an incompatible image staged for '' @ pending))))
                else verify_images P pending rest))))"

text \<open>Installed for the running base, merged, or required: sorted, without duplicates.\<close>

definition extensions_in_use :: "('e, 'v) platform \<Rightarrow> string \<Rightarrow> ('e, string list) io" where
  "extensions_in_use P running =
     bind (installed_extensions_for running) (\<lambda>installed.
     bind (merged_extensions P) (\<lambda>merged.
     bind (load_state P) (\<lambda>loaded.
       ret (remdups_adj (sort (installed @
         (case merged of Inr names \<Rightarrow> names | Inl _ \<Rightarrow> []) @
         (case loaded of Inr s \<Rightarrow> state_required s | Inl _ \<Rightarrow> [])))))))"

definition verify_extensions_for :: "('e, 'v) platform \<Rightarrow> string \<Rightarrow> ('e, failure + unit) io" where
  "verify_extensions_for P pending =
     bind (reads os_version) (\<lambda>r.
       case r of
         None \<Rightarrow> ret (Err (new_failure Failed ''could not read the running base version''))
       | Some running \<Rightarrow>
           if running = pending then ret (Ok ())
           else bind (extensions_in_use P running) (\<lambda>names. verify_images P pending names))"

text \<open>The last step: the boot entry of the pending base is selected for the next boot.\<close>

definition select_entry :: "('e, 'v) platform \<Rightarrow> string \<Rightarrow> ('e, failure + staged_base) io" where
  "select_entry P pending =
     bind (pending_boot_entry pending) (\<lambda>found.
       case found of
         None \<Rightarrow> ret (Err (at Staging (new_failure Failed
           (''no counted boot entry was written for '' @ pending))))
       | Some boot_entry \<Rightarrow>
           and_then (mapping_err (io_failure Staging ''could not run bootctl: '') (set_oneshot P boot_entry)) (\<lambda>selected.
             if \<not> finished_ok selected
             then ret (Err (command_failure Staging Failed ''could not select the staged boot entry'' selected))
             else ret (Ok \<lparr>base_version = Some pending, base_pending = True,
               base_boot_entry = Some boot_entry\<rparr>)))"

definition stage_target :: "('e, 'v) platform \<Rightarrow> string \<Rightarrow> ('e, failure + staged_base) io" where
  "stage_target P target =
     and_then (verify_extensions_for P target) (\<lambda>_.
     and_then (mapping_err (io_failure Staging ''could not run systemd-sysupdate: '')
       (sysupdate_base P (Some target))) (\<lambda>run_result.
       if \<not> finished_ok run_result
       then ret (Err (command_failure Staging Failed ''could not stage the base image'' run_result))
       else
         bind (sync_disks P) (\<lambda>_.
         and_then (mapping_err (\<lambda>e. at Checking (new_failure Failed e)) pending_base_version) (\<lambda>pending.
           case pending of
             None \<Rightarrow> ret (Ok \<lparr>base_version = Some target, base_pending = False, base_boot_entry = None\<rparr>)
           | Some p \<Rightarrow>
               if p \<noteq> target
               then ret (Err (at Checking (new_failure Precondition
                 (''requested base '' @ target @ '', but sysupdate left '' @ p @ '' pending''))))
               else and_then (verify_extensions_for P p) (\<lambda>_. select_entry P p)))))"

definition stage_base :: "('e, 'v) platform \<Rightarrow> string option \<Rightarrow> ('e, failure + staged_base) io" where
  "stage_base P version =
     (if (case version of Some v \<Rightarrow> \<not> version_valid v | None \<Rightarrow> False)
      then ret (Err (new_failure Malformed (''unusable base version '' @
        debug_str (case version of Some v \<Rightarrow> v | None \<Rightarrow> []))))
      else
        and_then (case version of
            Some v \<Rightarrow> ret (Ok (Some v))
          | None \<Rightarrow> mapping_err (\<lambda>e. at Checking (new_failure Failed e)) (available_base_version P)) (\<lambda>target.
          case target of
            None \<Rightarrow> ret (Ok \<lparr>base_version = None, base_pending = False, base_boot_entry = None\<rparr>)
          | Some t \<Rightarrow> stage_target P t))"

end
