(* ===== verification/Agent.thy ===== *)
theory Agent
  imports Ops
begin

text \<open>
  The supervisor of \<open>agent/src/main.rs\<close>: adopting, verifying, recovering, activating, removing and
  reconciling extensions. A function with a \<open>&mut State\<close> takes the state and returns it changed.
\<close>

section \<open>Health and recovery\<close>

definition healthy_now :: "('e, 'v) platform \<Rightarrow> ruleset \<Rightarrow> ('e, string + unit) io" where
  "healthy_now P r = and_then (wait_until_ready P r) (\<lambda>_. probe P r)"

datatype adopt_error = NoRuleset string | AdoptFailed string

definition show_adopt_error :: "adopt_error \<Rightarrow> string" where
  "show_adopt_error e =
     (case e of NoRuleset m \<Rightarrow> ''active image has no usable ruleset: '' @ m | AdoptFailed m \<Rightarrow> m)"

definition adopted :: "string \<Rightarrow> extension_state \<Rightarrow> extension_state" where
  "adopted version e =
     e\<lparr>required := True, active_version := Some version, known_good_version := Some version,
       phase := Active, terminal_os_version := None, last_health := Some ''healthy'',
       last_failure := None\<rparr>"

definition adopt_active ::
  "('e, 'v) platform \<Rightarrow> state \<Rightarrow> string \<Rightarrow> string \<Rightarrow> ('e, (adopt_error + unit) \<times> state) io" where
  "adopt_active P s name version =
     bind (load_named name) (\<lambda>loaded.
       case loaded of
         Inl e \<Rightarrow> ret (Err (NoRuleset (show_config_error e)), s)
       | Inr r \<Rightarrow>
           bind (reads (active_path name)) (\<lambda>active.
           bind (reads (\<lambda>w. exists_path w active)) (\<lambda>present.
             if \<not> present then ret (Err (AdoptFailed (''no active image at '' @ lossy active)), s)
             else bind (healthy_now P r) (\<lambda>health.
               case health of
                 Inl m \<Rightarrow> ret (Err (AdoptFailed m), s)
               | Inr _ \<Rightarrow>
                   bind (reads (rollback_path name version)) (\<lambda>retained.
                   bind (reads (\<lambda>w. exists_path w retained)) (\<lambda>kept.
                   bind (if \<not> kept then durable_copy active retained else ret (Ok ())) (\<lambda>copied.
                     case copied of
                       Inl e \<Rightarrow> ret (Err (AdoptFailed (io_text e)), s)
                     | Inr _ \<Rightarrow>
                         let s' = entry name (adopted version) s
                         in bind (store P s') (\<lambda>stored.
                           ret (map_err (\<lambda>e. AdoptFailed (io_text e)) stored, s')))))))))"

definition failed_entry :: "string \<Rightarrow> string option \<Rightarrow> extension_state \<Rightarrow> extension_state" where
  "failed_entry reason os e =
     e\<lparr>phase := Unrecoverable, last_failure := Some reason, last_health := None,
       terminal_os_version := os\<rparr>"

definition mark_failed :: "string \<Rightarrow> string \<Rightarrow> string option \<Rightarrow> state \<Rightarrow> state" where
  "mark_failed name reason os s = entry name (failed_entry reason os) s"

definition terminal ::
  "('e, 'v) platform \<Rightarrow> state \<Rightarrow> string \<Rightarrow> string \<Rightarrow> ('e, (string + unit) \<times> state) io" where
  "terminal P s name reason =
     bind (reads os_version) (\<lambda>os.
       let s' = mark_failed name reason os s
       in bind (store P s') (\<lambda>r.
         case r of
           Inr _ \<Rightarrow> ret (Err reason, s')
         | Inl e \<Rightarrow> ret (Err (reason @ ''; could not record terminal state: '' @ io_text e), s')))"

text \<open>
  The part of \<open>recover\<close> that puts the retained image back and proves it; an error is the reason
  that the extension ends in a terminal phase with.
\<close>

definition restore_image ::
  "('e, 'v) platform \<Rightarrow> string \<Rightarrow> string \<Rightarrow> string \<Rightarrow> path \<Rightarrow> ('e, string + unit) io" where
  "restore_image P name reason version img =
     and_then (mapping_err
       (\<lambda>e. reason @ ''; could not restore known-good '' @ version @ '': '' @ io_text e)
       (install_active img name)) (\<lambda>_.
     and_then (mapping_err
       (\<lambda>e. reason @ ''; restored '' @ version @ '' but could not refresh extensions: '' @ io_text e)
       (sysext_refresh P)) (\<lambda>_.
     and_then (mapping_err
       (\<lambda>e. reason @ ''; restored '' @ version @ '' but could not reload systemd: '' @ io_text e)
       (daemon_reload P)) (\<lambda>_.
     and_then (mapping_err
       (\<lambda>e. reason @ ''; restored '' @ version @ '' has no usable ruleset: '' @ show_config_error e)
       (load_named name)) (\<lambda>r.
     mapping_err
       (\<lambda>e. reason @ ''; known-good '' @ version @ '' also failed: '' @ e)
       (healthy_now P r)))))"

text \<open>Stop what the merged image declares, if it declares anything; a failure is only reported.\<close>

definition stop_current :: "('e, 'v) platform \<Rightarrow> string \<Rightarrow> ('e, unit) io" where
  "stop_current P name =
     bind (load_named name) (\<lambda>loaded.
       case loaded of
         Inl _ \<Rightarrow> ret ()
       | Inr current \<Rightarrow>
           bind (stop_unit P (service current)) (\<lambda>stopped.
             case stopped of
               Inr _ \<Rightarrow> ret ()
             | Inl e \<Rightarrow> say (name @ '': could not stop '' @ service current @ '' before recovery: '' @ io_text e)))"

definition reverting :: "string \<Rightarrow> extension_state \<Rightarrow> extension_state" where
  "reverting reason e = e\<lparr>phase := Reverting, last_failure := Some reason\<rparr>"

definition recovered :: "string \<Rightarrow> string \<Rightarrow> extension_state \<Rightarrow> extension_state" where
  "recovered reason version e =
     e\<lparr>phase := Recovered, active_version := Some version, candidate_version := None,
       last_health := Some ''recovered'', last_failure := Some reason, terminal_os_version := None\<rparr>"

text \<open>The end of a recovery that worked.\<close>

definition finish_recovery ::
  "('e, 'v) platform \<Rightarrow> state \<Rightarrow> string \<Rightarrow> string \<Rightarrow> string \<Rightarrow> ('e, (string + unit) \<times> state) io" where
  "finish_recovery P s name reason version =
     (let s' = entry name (recovered reason version) s
      in bind (store P s') (\<lambda>stored.
        case stored of
          Inl e \<Rightarrow> ret (Err (''recovered onto '' @ version @ '', but could not record it: '' @ io_text e), s')
        | Inr _ \<Rightarrow>
            bind (prune_candidates name None) (\<lambda>pc.
            bind (case pc of Inr _ \<Rightarrow> ret ()
              | Inl e \<Rightarrow> say (name @ '': recovered, but candidate cleanup failed: '' @ io_text e)) (\<lambda>_.
            bind (prune_rollbacks name (Some version)) (\<lambda>pr.
            bind (case pr of Inr _ \<Rightarrow> ret ()
              | Inl e \<Rightarrow> say (name @ '': recovered, but rollback cleanup failed: '' @ io_text e)) (\<lambda>_.
            bind (say (name @ '': recovered onto '' @ version)) (\<lambda>_.
            ret (Ok (), s'))))))))"

definition recover_onto ::
  "('e, 'v) platform \<Rightarrow> state \<Rightarrow> string \<Rightarrow> string \<Rightarrow> string \<Rightarrow> path \<Rightarrow> ('e, (string + unit) \<times> state) io" where
  "recover_onto P s name reason version img =
     bind (say (name @ '': '' @ reason @ ''; reverting to '' @ version)) (\<lambda>_.
       let s1 = entry name (reverting reason) s
       in bind (store P s1) (\<lambda>stored.
         case stored of
           Inl e \<Rightarrow> ret (Err (reason @ ''; could not record recovery before replacing the image: '' @ io_text e), s1)
         | Inr _ \<Rightarrow>
             bind (stop_current P name) (\<lambda>_.
             bind (restore_image P name reason version img) (\<lambda>restored.
               case restored of
                 Inl m \<Rightarrow> terminal P s1 name m
               | Inr _ \<Rightarrow> finish_recovery P s1 name reason version))))"

definition recover ::
  "('e, 'v) platform \<Rightarrow> state \<Rightarrow> string \<Rightarrow> string \<Rightarrow> ('e, (string + unit) \<times> state) io" where
  "recover P s name reason =
     (case Option.bind (state_get s name) known_good_version of
        None \<Rightarrow> terminal P s name (reason @ ''; no known-good image to fall back to'')
      | Some version \<Rightarrow>
          bind (reads (rollback_path name version)) (\<lambda>img.
          bind (reads (\<lambda>w. exists_path w img)) (\<lambda>present.
            if \<not> present
            then terminal P s name (reason @ ''; known-good image '' @ version @ '' is missing'')
            else recover_onto P s name reason version img)))"

section \<open>The health gate\<close>

definition healthy_entry :: "extension_state \<Rightarrow> extension_state" where
  "healthy_entry e =
     e\<lparr>phase := Active, terminal_os_version := None, last_health := Some ''healthy'', last_failure := None\<rparr>"

definition proven :: "string \<Rightarrow> extension_state \<Rightarrow> extension_state" where
  "proven version e =
     e\<lparr>active_version := Some version, known_good_version := Some version, candidate_version := None\<rparr>"

text \<open>Adopt the image that proved healthy under this base, if the state names another.\<close>

definition adopt_merged ::
  "('e, 'v) platform \<Rightarrow> state \<Rightarrow> string \<Rightarrow> ruleset \<Rightarrow> ('e, (string + unit) \<times> state) io" where
  "adopt_merged P s name r =
     bind (merged_version name) (\<lambda>merged.
       case merged of
         None \<Rightarrow> ret (Ok (), s)
       | Some version \<Rightarrow>
           bind (reads (rollback_path name version)) (\<lambda>rollback.
           bind (reads (\<lambda>w. exists_path w rollback)) (\<lambda>kept.
             if Option.bind (state_get s name) active_version \<noteq> Some version \<or> \<not> kept then
               bind (soak P r) (\<lambda>soaked.
                 case soaked of
                   Inl m \<Rightarrow> ret (Err m, s)
                 | Inr _ \<Rightarrow>
                     bind (reads (active_path name)) (\<lambda>active.
                     bind (durable_copy active rollback) (\<lambda>copied.
                       case copied of
                         Inl e \<Rightarrow> ret (Err (''could not retain healthy '' @ version @ '': '' @ io_text e), s)
                       | Inr _ \<Rightarrow> ret (Ok (), entry name (proven version) s))))
             else ret (Ok (), s))))"

definition verify_or_recover ::
  "('e, 'v) platform \<Rightarrow> state \<Rightarrow> string \<Rightarrow> string list \<Rightarrow> ('e, (string + unit) \<times> state) io" where
  "verify_or_recover P s name merged =
     (if (case state_get s name of Some e \<Rightarrow> is_terminal (phase e) | None \<Rightarrow> False)
      then ret (Err ''in a terminal state; not retrying automatically'', s)
      else bind (load_named name) (\<lambda>loaded.
        case loaded of
          Inl e \<Rightarrow> recover P s name (''no usable ruleset: '' @ show_config_error e)
        | Inr r \<Rightarrow>
            if merged \<noteq> [] \<and> name \<notin> set merged
            then recover P s name ''required extension is not merged''
            else bind (healthy_now P r) (\<lambda>health.
              case health of
                Inl m \<Rightarrow> recover P s name m
              | Inr _ \<Rightarrow>
                  bind (adopt_merged P s name r) (\<lambda>(res, s').
                    case res of
                      Inl m \<Rightarrow> ret (Err m, s')
                    | Inr _ \<Rightarrow> ret (Ok (), entry name healthy_entry s')))))"

fun gate_all ::
  "('e, 'v) platform \<Rightarrow> string list \<Rightarrow> state \<Rightarrow> string list \<Rightarrow> ('e, string list \<times> state) io" where
  "gate_all P merged s [] = ret ([], s)"
| "gate_all P merged s (name # rest) =
     bind (verify_or_recover P s name merged) (\<lambda>(res, s').
       case res of
         Inr _ \<Rightarrow> bind (say (name @ '': healthy'')) (\<lambda>_. gate_all P merged s' rest)
       | Inl reason \<Rightarrow>
           bind (say (name @ '': '' @ reason)) (\<lambda>_.
           bind (gate_all P merged s' rest) (\<lambda>(failures, s'').
           ret (name # failures, s''))))"

fun say_all :: "string list \<Rightarrow> ('e, unit) io" where
  "say_all [] = ret ()"
| "say_all (l # rest) = bind (say l) (\<lambda>_. say_all rest)"

text \<open>Drop the refusals of another base, if the running one is known.\<close>

definition forget_stale :: "state \<Rightarrow> ('e, state) io" where
  "forget_stale s =
     bind (reads os_version) (\<lambda>os.
       case os of
         None \<Rightarrow> ret s
       | Some v \<Rightarrow>
           (case forget_stale_terminals v s of
              (cleared, s') \<Rightarrow>
                bind (say_all (map (\<lambda>n. n @ '': clearing a refusal recorded under a previous image'') cleared))
                  (\<lambda>_. ret s')))"

definition health_gate :: "('e, 'v) platform \<Rightarrow> ('e, string + unit) io" where
  "health_gate P =
     and_then (mapping_err io_text (load_state P)) (\<lambda>loaded.
     bind (forget_stale loaded) (\<lambda>s.
       if state_required s = []
       then bind (say ''no required extensions; nothing to verify'') (\<lambda>_. ret (Ok ()))
       else
         bind (merged_extensions P) (\<lambda>m.
         bind (gate_all P (case m of Inr names \<Rightarrow> names | Inl _ \<Rightarrow> []) s (state_required s)) (\<lambda>(failures, s').
         and_then (mapping_err io_text (store P s')) (\<lambda>_.
           if failures = [] then ret (Ok ())
           else ret (Err (''required extensions unhealthy: '' @ str_join '', '' failures)))))))"

section \<open>Reconciling\<close>

definition cleared_entry :: "extension_state \<Rightarrow> extension_state" where
  "cleared_entry e = e\<lparr>active_version := None, known_good_version := None, candidate_version := None\<rparr>"

definition removed_entry :: "extension_state \<Rightarrow> extension_state" where
  "removed_entry e = (cleared_entry e)\<lparr>phase := Idle, last_health := None, last_failure := None\<rparr>"

definition complete_removal ::
  "('e, 'v) platform \<Rightarrow> state \<Rightarrow> string \<Rightarrow> ('e, (string + unit) \<times> state) io" where
  "complete_removal P s name =
     bind (load_named name) (\<lambda>loaded.
     bind (case loaded of Inl _ \<Rightarrow> ret () | Inr r \<Rightarrow> bind (stop_unit P (service r)) (\<lambda>_. ret ())) (\<lambda>_.
     bind (mapping_err io_text
       (and_then (remove_active name) (\<lambda>_.
        and_then (sysext_refresh P) (\<lambda>_.
        and_then (daemon_reload P) (\<lambda>_.
        and_then (prune_candidates name None) (\<lambda>_.
        prune_rollbacks name None)))))) (\<lambda>done_all.
       ret (done_all, (case done_all of Inr _ \<Rightarrow> entry name removed_entry s | Inl _ \<Rightarrow> s)))))"

definition staged_gone :: "bool \<Rightarrow> extension_state \<Rightarrow> extension_state" where
  "staged_gone active e =
     (let e1 = e\<lparr>candidate_version := None, phase := (if active then Active else Idle)\<rparr>;
          e2 = (if \<not> active \<and> \<not> required e1
                then e1\<lparr>active_version := None, known_good_version := None\<rparr> else e1)
      in e2\<lparr>last_failure := Some ''staged candidate disappeared before activation''\<rparr>)"

text \<open>A step that may fail, with its failure as one more line.\<close>

definition noted :: "string \<Rightarrow> ('e, io_error + unit) io \<Rightarrow> ('e, string list) io" where
  "noted what m =
     bind m (\<lambda>r. ret (case r of Inl e \<Rightarrow> [what @ io_text e] | Inr _ \<Rightarrow> []))"

definition recover_noted ::
  "('e, 'v) platform \<Rightarrow> state \<Rightarrow> string \<Rightarrow> string \<Rightarrow> ('e, string list \<times> state) io" where
  "recover_noted P s name reason =
     bind (recover P s name reason) (\<lambda>(r, s').
       ret (case r of Inl e \<Rightarrow> [name @ '': '' @ e] | Inr _ \<Rightarrow> [], s'))"

definition reconcile_phase ::
  "('e, 'v) platform \<Rightarrow> state \<Rightarrow> string \<Rightarrow> phase \<Rightarrow> string option \<Rightarrow> ('e, string list \<times> state) io" where
  "reconcile_phase P s name ph candidate =
     (case ph of
        Staged \<Rightarrow>
          bind (reads (\<lambda>w. case candidate of
              Some v \<Rightarrow> exists_path w (candidate_path name v w) | None \<Rightarrow> False)) (\<lambda>present.
            if present then ret ([], s)
            else bind (reads (\<lambda>w. exists_path w (active_path name w))) (\<lambda>active.
              ret ([], entry name (staged_gone active) s)))
      | Removing \<Rightarrow>
          bind (complete_removal P s name) (\<lambda>(r, s').
            ret (case r of Inl e \<Rightarrow> [name @ '': could not finish removal: '' @ e] | Inr _ \<Rightarrow> [], s'))
      | Idle \<Rightarrow>
          bind (reads (\<lambda>w. exists_path w (active_path name w))) (\<lambda>active.
            let s' = (if \<not> active \<and> (case state_get s name of Some e \<Rightarrow> \<not> required e | None \<Rightarrow> False)
                      then entry name cleared_entry s else s)
            in bind (noted (name @ '': could not prune candidates: '') (prune_candidates name None)) (\<lambda>fs.
               ret (fs, s')))
      | Unrecoverable \<Rightarrow>
          bind (noted (name @ '': could not prune candidates: '') (prune_candidates name None)) (\<lambda>fs.
          ret (fs, s))
      | _ \<Rightarrow>
          if ph = Active \<or> ph = Recovered then
            bind (reads (\<lambda>w. exists_path w (active_path name w))) (\<lambda>active.
            bind (if active then ret ([], s)
                  else if (case state_get s name of Some e \<Rightarrow> required e | None \<Rightarrow> False)
                  then recover_noted P s name ''active image disappeared between operations''
                  else ret ([], entry name (\<lambda>e. (cleared_entry e)\<lparr>phase := Idle\<rparr>) s)) (\<lambda>(fs, s').
            bind (noted (name @ '': could not prune candidates: '') (prune_candidates name None)) (\<lambda>fs'.
            ret (fs @ fs', s'))))
          else recover_noted P s name (''interrupted while in phase '' @ debug_phase ph))"

type_synonym reconcile_entry = "string \<times> phase \<times> string option \<times> string option"

definition reconcile_entries :: "state \<Rightarrow> reconcile_entry list" where
  "reconcile_entries s =
     map (\<lambda>(n, e). (n, phase e, candidate_version e, known_good_version e)) (extensions s)"

definition kept_candidates :: "reconcile_entry list \<Rightarrow> 'e world \<Rightarrow> path list" where
  "kept_candidates es w =
     List.map_filter (\<lambda>(n, ph, candidate, known_good).
       if ph = Staged then map_option (\<lambda>v. candidate_path n v w) candidate else None) es"

fun reconcile_all ::
  "('e, 'v) platform \<Rightarrow> state \<Rightarrow> reconcile_entry list \<Rightarrow> ('e, string list \<times> state) io" where
  "reconcile_all P s [] = ret ([], s)"
| "reconcile_all P s ((name, ph, candidate, known_good) # rest) =
     bind (reconcile_phase P s name ph candidate) (\<lambda>(fs, s1).
     bind (noted (name @ '': could not prune rollbacks: '') (prune_rollbacks name known_good)) (\<lambda>fs'.
     bind (reconcile_all P s1 rest) (\<lambda>(fs'', s2).
     ret (fs @ fs' @ fs'', s2))))"

fun remove_orphans :: "path list \<Rightarrow> path list \<Rightarrow> ('e, string list) io" where
  "remove_orphans kept [] = ret []"
| "remove_orphans kept (c # rest) =
     (if c \<in> set kept then remove_orphans kept rest
      else
        bind (noted (''could not remove orphan candidate '' @ lossy c @ '': '') (durable_remove c)) (\<lambda>fs.
        bind (remove_orphans kept rest) (\<lambda>fs'. ret (fs @ fs'))))"

definition clean_candidates :: "path list \<Rightarrow> ('e, string list) io" where
  "clean_candidates kept =
     bind candidate_files (\<lambda>r.
       case r of
         Inl e \<Rightarrow> ret [''could not enumerate candidates: '' @ io_text e]
       | Inr cs \<Rightarrow> remove_orphans kept cs)"

definition reconcile_state :: "('e, 'v) platform \<Rightarrow> ('e, string + unit) io" where
  "reconcile_state P =
     and_then (mapping_err (\<lambda>e. ''could not clean interrupted staging files: '' @ io_text e)
       prune_transaction_files) (\<lambda>_.
     and_then (mapping_err io_text (load_state P)) (\<lambda>loaded.
     bind (forget_stale loaded) (\<lambda>s.
     bind (reads (kept_candidates (reconcile_entries s))) (\<lambda>kept.
     bind (reconcile_all P s (reconcile_entries s)) (\<lambda>(failures, s').
     bind (clean_candidates kept) (\<lambda>failures'.
     and_then (mapping_err io_text (store P s')) (\<lambda>_.
       if failures @ failures' = [] then ret (Ok ())
       else ret (Err (str_join ''; '' (failures @ failures'))))))))))"

section \<open>Activation\<close>

record activation =
  activated_version :: string
  activated_known_good :: "string option"
  replayed :: bool

text \<open>From stopping the current unit to the ruleset that arrived with the candidate.\<close>

definition merge_candidate ::
  "('e, 'v) platform \<Rightarrow> string \<Rightarrow> path \<Rightarrow> ('e, (string \<times> stage) + ruleset) io" where
  "merge_candidate P name candidate =
     and_then (bind (load_named name) (\<lambda>loaded.
         case loaded of
           Inl _ \<Rightarrow> ret (Ok ())
         | Inr current \<Rightarrow>
             mapping_err (\<lambda>e. (io_text e, AtActivating)) (stop_unit P (service current)))) (\<lambda>_.
     and_then (mapping_err (\<lambda>e. (''could not install the image: '' @ io_text e, AtActivating))
       (install_active candidate name)) (\<lambda>_.
     and_then (mapping_err (\<lambda>e. (''could not merge the image: '' @ io_text e, AtActivating))
       (sysext_refresh P)) (\<lambda>_.
     and_then (mapping_err (\<lambda>e. (''could not reload systemd: '' @ io_text e, AtActivating))
       (daemon_reload P)) (\<lambda>_.
     mapping_err (\<lambda>e. (''candidate supplied no usable ruleset: '' @ show_config_error e, AtActivating))
       (load_named name)))))"

definition committed_entry :: "string \<Rightarrow> string option \<Rightarrow> extension_state \<Rightarrow> extension_state" where
  "committed_entry version request e =
     (let e' = e\<lparr>phase := Active, terminal_os_version := None, active_version := Some version,
                 candidate_version := None, last_health := Some ''healthy'', last_failure := None,
                 required := True\<rparr>
      in case request of Some i \<Rightarrow> record_completed i e' | None \<Rightarrow> e')"

text \<open>From the first start to the committed state.\<close>

definition prove_candidate ::
  "('e, 'v) platform \<Rightarrow> state \<Rightarrow> string \<Rightarrow> string \<Rightarrow> string option \<Rightarrow> ruleset \<Rightarrow>
     ('e, ((string \<times> stage) + unit) \<times> state) io" where
  "prove_candidate P s name version request r =
     (let s1 = entry name (\<lambda>e. e\<lparr>phase := Starting\<rparr>) s
      in bind (store P s1) (\<lambda>stored.
        case stored of
          Inl e \<Rightarrow> ret (Err (''could not record starting phase: '' @ io_text e, AtActivating), s1)
        | Inr _ \<Rightarrow>
            bind (wait_until_ready P r) (\<lambda>ready.
              case ready of
                Inl m \<Rightarrow> ret (Err (m, AtActivating), s1)
              | Inr _ \<Rightarrow>
                  let s2 = entry name (\<lambda>e. e\<lparr>phase := Soaking\<rparr>) s1
                  in bind (store P s2) (\<lambda>stored.
                    case stored of
                      Inl e \<Rightarrow> ret (Err (''could not record soaking phase: '' @ io_text e, AtSoaking), s2)
                    | Inr _ \<Rightarrow>
                        bind (soak P r) (\<lambda>soaked.
                          case soaked of
                            Inl m \<Rightarrow> ret (Err (m, AtSoaking), s2)
                          | Inr _ \<Rightarrow>
                              let committed = entry name (committed_entry version request) s2
                              in bind (store P committed) (\<lambda>stored.
                                case stored of
                                  Inl e \<Rightarrow> ret (Err (''could not commit active state: '' @ io_text e,
                                    AtActivating), s2)
                                | Inr _ \<Rightarrow> ret (Ok (), committed)))))))"

text \<open>The closure of \<open>activate_extension\<close>; the unit is known once the candidate's ruleset is.\<close>

definition try_candidate ::
  "('e, 'v) platform \<Rightarrow> state \<Rightarrow> string \<Rightarrow> string \<Rightarrow> string option \<Rightarrow> path \<Rightarrow>
     ('e, ((string \<times> stage) + unit) \<times> string option \<times> state) io" where
  "try_candidate P s name version request candidate =
     bind (merge_candidate P name candidate) (\<lambda>merged.
       case merged of
         Inl e \<Rightarrow> ret (Err e, None, s)
       | Inr r \<Rightarrow>
           bind (prove_candidate P s name version request r) (\<lambda>(res, s').
           ret (res, Some (service r), s')))"

text \<open>What follows a candidate that did not prove itself: the log, the recovery, the failure.\<close>

definition revert ::
  "('e, 'v) platform \<Rightarrow> state \<Rightarrow> string \<Rightarrow> string \<Rightarrow> stage \<Rightarrow> string option \<Rightarrow> ('e, failure) io" where
  "revert P s name reason st unit_name =
     bind (case unit_name of
         None \<Rightarrow> ret []
       | Some u \<Rightarrow> bind (journal P (Some u) 40 None None) (\<lambda>j.
           ret (case j of Inr (lines, _) \<Rightarrow> lines | Inl _ \<Rightarrow> []))) (\<lambda>lines.
     bind (recover P s name reason) (\<lambda>(reverted, s').
       let f = with_log lines
         (at (case reverted of Inr _ \<Rightarrow> AtReverting | Inl _ \<Rightarrow> st)
           (new_failure Failed (case reverted of Inr _ \<Rightarrow> reason @ ''; reverted'' | Inl e \<Rightarrow> e)))
       in ret (case unit_name of Some u \<Rightarrow> with_unit u f | None \<Rightarrow> f)))"

text \<open>Bring an image that is merged but not recorded under supervision before it is replaced.\<close>

definition adopt_unrecorded ::
  "('e, 'v) platform \<Rightarrow> state \<Rightarrow> string \<Rightarrow> ('e, failure + state) io" where
  "adopt_unrecorded P s name =
     bind (reads (\<lambda>w. Option.bind (state_get s name) known_good_version = None \<and>
         exists_path w (active_path name w))) (\<lambda>unrecorded.
       if \<not> unrecorded then ret (Ok s)
       else bind (merged_version name) (\<lambda>merged.
         case merged of
           None \<Rightarrow> ret (Ok s)
         | Some current \<Rightarrow>
             bind (adopt_active P s name current) (\<lambda>(res, s').
               case res of
                 Inr _ \<Rightarrow> ret (Ok s')
               | Inl (NoRuleset e) \<Rightarrow>
                   bind (say (name @ '': not adopting active '' @ current @
                     '', which has no usable ruleset ('' @ e @
                     ''); the candidate has no known-good image to fall back to'')) (\<lambda>_. ret (Ok s'))
               | Inl e \<Rightarrow>
                   ret (Err (at Checking (new_failure Failed
                     (''could not adopt the active image: '' @ show_adopt_error e)))))))"

text \<open>The size of the rollback image that is still missing.\<close>

definition outgoing_size :: "string \<Rightarrow> string option \<Rightarrow> ('e, io_error + u64) io" where
  "outgoing_size name previous =
     (case previous of
        None \<Rightarrow> ret (Ok 0)
      | Some v \<Rightarrow>
          bind (reads (\<lambda>w. exists_path w (rollback_path name v w))) (\<lambda>retained.
            if retained then ret (Ok 0)
            else bind (reads (active_path name)) (\<lambda>active. fs_metadata_len active)))"

text \<open>Retain the outgoing image, so that there is something to fall back to.\<close>

definition retain_outgoing :: "string \<Rightarrow> string option \<Rightarrow> ('e, failure + unit) io" where
  "retain_outgoing name previous =
     (case previous of
        None \<Rightarrow> ret (Ok ())
      | Some v \<Rightarrow>
          bind (reads (active_path name)) (\<lambda>active.
          bind (reads (rollback_path name v)) (\<lambda>retained.
          bind (reads (\<lambda>w. exists_path w active \<and> \<not> exists_path w retained)) (\<lambda>missing.
            if missing
            then mapping_err (io_failure Staging ''could not retain the outgoing image: '')
              (durable_copy active retained)
            else ret (Ok ())))))"

definition activating ::
  "string \<Rightarrow> string option \<Rightarrow> string option \<Rightarrow> extension_state \<Rightarrow> extension_state" where
  "activating version request previous e =
     (let e' = e\<lparr>candidate_version := Some version, request_id := request, phase := Activating\<rparr>
      in case previous of Some v \<Rightarrow> e'\<lparr>known_good_version := Some v\<rparr> | None \<Rightarrow> e')"

text \<open>The candidate is tried, and reverted or confirmed; the record says that it is being activated.\<close>

definition carry_out ::
  "('e, 'v) platform \<Rightarrow> state \<Rightarrow> string \<Rightarrow> string \<Rightarrow> string option \<Rightarrow> path \<Rightarrow> string option \<Rightarrow>
     ('e, failure + activation) io" where
  "carry_out P s name version request candidate previous =
     bind (try_candidate P s name version request candidate) (\<lambda>(res, unit_name, s').
       case res of
         Inl (reason, st) \<Rightarrow> bind (revert P s' name reason st unit_name) (\<lambda>f. ret (Err f))
       | Inr _ \<Rightarrow>
           bind (prune_candidates name None) (\<lambda>pc.
           bind (case pc of Inr _ \<Rightarrow> ret ()
             | Inl e \<Rightarrow> say (name @ '': active, but candidate cleanup failed: '' @ io_text e)) (\<lambda>_.
           bind (prune_rollbacks name previous) (\<lambda>pr.
           bind (case pr of Inr _ \<Rightarrow> ret ()
             | Inl e \<Rightarrow> say (name @ '': active, but rollback cleanup failed: '' @ io_text e)) (\<lambda>_.
           ret (Ok \<lparr>activated_version = version, activated_known_good = previous, replayed = False\<rparr>))))))"

text \<open>Promotion of a candidate whose space has been checked and whose predecessor is retained.\<close>

definition promote ::
  "('e, 'v) platform \<Rightarrow> state \<Rightarrow> string \<Rightarrow> string \<Rightarrow> string option \<Rightarrow> path \<Rightarrow> string option \<Rightarrow>
     ('e, failure + activation) io" where
  "promote P s name version request candidate previous =
     (let s' = entry name (activating version request previous) s
      in and_then (mapping_err (io_failure Staging []) (store P s')) (\<lambda>_.
         carry_out P s' name version request candidate previous))"

text \<open>Space for the transaction, then the outgoing image, then the promotion.\<close>

definition transact ::
  "('e, 'v) platform \<Rightarrow> state \<Rightarrow> string \<Rightarrow> string \<Rightarrow> string option \<Rightarrow> path \<Rightarrow>
     ('e, failure + activation) io" where
  "transact P s name version request candidate =
     and_then (mapping_err (io_failure Checking []) (fs_metadata_len candidate)) (\<lambda>candidate_size.
       let previous = Option.bind (state_get s name) active_version
       in and_then (mapping_err (io_failure Checking []) (outgoing_size name previous)) (\<lambda>rollback_size.
            let needed = activation_space candidate_size rollback_size
            in and_then (mapping_err (io_failure Checking []) (available_bytes P)) (\<lambda>available.
                 if available < needed
                 then ret (Err (at Checking (new_failure NoSpace
                   (''insufficient space: transaction needs '' @ show_nat (unat needed) @ '' bytes, '' @
                    show_nat (unat available) @ '' available''))))
                 else
                   and_then (retain_outgoing name previous) (\<lambda>_.
                   promote P s name version request candidate previous))))"

definition replay ::
  "state \<Rightarrow> string \<Rightarrow> string option \<Rightarrow> extension_state option" where
  "replay s name request =
     (case request of
        None \<Rightarrow> None
      | Some i \<Rightarrow>
          (case state_get s name of
             Some e \<Rightarrow> if already_completed e i then Some e else None
           | None \<Rightarrow> None))"

definition activate_extension ::
  "('e, 'v) platform \<Rightarrow> string \<Rightarrow> string \<Rightarrow> string option \<Rightarrow> ('e, failure + activation) io" where
  "activate_extension P name version request =
     and_then (mapping_err (\<lambda>e. new_failure Failed (''could not read agent state: '' @ io_text e)) (load_state P)) (\<lambda>s.
       case replay s name request of
         Some e \<Rightarrow> ret (Ok \<lparr>activated_version = version, activated_known_good = known_good_version e,
           replayed = True\<rparr>)
       | None \<Rightarrow>
           bind (reads (candidate_path name version)) (\<lambda>candidate.
           bind (reads (\<lambda>w. exists_path w candidate)) (\<lambda>present.
             if \<not> present
             then ret (Err (at Checking (new_failure CodeNotFound
               (''no staged candidate at '' @ lossy candidate))))
             else
               and_then (adopt_unrecorded P s name) (\<lambda>s'.
               transact P s' name version request candidate))))"

end
