(* ===== verification/Api.thy ===== *)
theory Api
  imports Agent
begin

text \<open>
  The privileged socket of \<open>agent/src/api.rs\<close>: a request is dispatched on its command, mutations run
  under the operation lock after interrupted work was reconciled, and every outcome is a reply.
\<close>

section \<open>Reading a request\<close>

definition field_text :: "('e, 'v) platform \<Rightarrow> 'v \<Rightarrow> string \<Rightarrow> string option" where
  "field_text P v key =
     Option.bind (Option.bind (json_get P v key) (json_str P)) (\<lambda>s.
       let t = trim s in if t \<noteq> [] then Some t else None)"

definition field_number :: "('e, 'v) platform \<Rightarrow> 'v \<Rightarrow> string \<Rightarrow> u64 option" where
  "field_number P v key = Option.bind (json_get P v key) (json_u64 P)"

section \<open>Exclusive operations\<close>

definition busy :: "'v reply" where
  "busy = reply_failed (new_failure Busy ''another privileged operation is in flight'')"

definition exclusive :: "('e, 'v) platform \<Rightarrow> ('e, 'v reply) io \<Rightarrow> ('e, 'v reply) io" where
  "exclusive P operation =
     bind try_acquire (\<lambda>r.
       case r of
         Inl e \<Rightarrow> ret (reply_failed (new_failure Failed (''could not acquire operation lock: '' @ io_text e)))
       | Inr None \<Rightarrow> ret busy
       | Inr (Some l) \<Rightarrow>
           bind (bind (reconcile_state P) (\<lambda>reconciled.
             case reconciled of
               Inl e \<Rightarrow> ret (reply_failed (new_failure Failed
                 (''could not reconcile interrupted work: '' @ e)))
             | Inr _ \<Rightarrow> operation)) (\<lambda>reply.
           bind (drop_lock l) (\<lambda>_. ret reply)))"

section \<open>Commands\<close>

definition AGENT_VERSION :: string where
  "AGENT_VERSION = ''0.2.0''"

definition hello :: "('e, 'v) platform \<Rightarrow> ('e, 'v reply) io" where
  "hello P =
     bind (components P) (\<lambda>cs.
     bind (reads os_version) (\<lambda>os.
       ret (maybe ''base_version'' (map_option (value_str P) os)
         (with_value ''components'' (value_strs P cs)
         (with_value ''capabilities'' (value_strs P COMMANDS)
         (with_value ''agent_version'' (value_str P AGENT_VERSION) reply_ok))))))"

definition update_status :: "('e, 'v) platform \<Rightarrow> ('e, 'v reply) io" where
  "update_status P =
     bind (available_base_version P) (\<lambda>r.
       case r of
         Inr available \<Rightarrow>
           bind (update_pending P) (\<lambda>pending.
             ret (with_value ''pending'' (value_bool P pending)
               (maybe ''available'' (map_option (value_str P) available) reply_ok)))
       | Inl e \<Rightarrow> ret (reply_failed (at Checking (new_failure Failed e))))"

definition staged_reply :: "('e, 'v) platform \<Rightarrow> staged \<Rightarrow> 'v reply" where
  "staged_reply P s =
     maybe ''extension_version'' (map_option (value_str P) (staged_extension_version s))
       (with_value ''for_running_base'' (value_bool P (staged_for_running_base s))
       (with_value ''acquired'' (value_bool P (staged_acquired s))
       (with_value ''staged'' (value_str P (staged_path s))
       (with_value ''version'' (value_str P (staged_version s))
       (with_value ''name'' (value_str P (staged_name s)) reply_ok)))))"

definition api_stage_extension :: "('e, 'v) platform \<Rightarrow> 'v \<Rightarrow> ('e, 'v reply) io" where
  "api_stage_extension P request =
     (case field_text P request ''name'' of
        None \<Rightarrow> ret (reply_failed (new_failure Malformed ''stage-extension needs a name''))
      | Some name \<Rightarrow>
          let base = field_text P request ''base''
          in if (case base of Some b \<Rightarrow> \<not> version_valid b | None \<Rightarrow> False)
             then ret (reply_failed (new_failure Malformed (''unusable base version '' @
               debug_str (case base of Some b \<Rightarrow> b | None \<Rightarrow> []))))
             else case (case field_text P request ''path'' of
                 Some p \<Rightarrow> map_option (Supplied p) (field_text P request ''digest'')
               | None \<Rightarrow> Some (Acquire (field_text P request ''version''))) of
                 None \<Rightarrow> ret (reply_failed (new_failure Malformed ''a supplied image must declare a digest''))
               | Some src \<Rightarrow>
                   bind (stage_extension P name base src) (\<lambda>r.
                     ret (case r of Inr s \<Rightarrow> staged_reply P s | Inl f \<Rightarrow> reply_failed f)))"

definition activation_reply :: "('e, 'v) platform \<Rightarrow> string \<Rightarrow> activation \<Rightarrow> 'v reply" where
  "activation_reply P name a =
     maybe ''known_good'' (map_option (value_str P) (activated_known_good a))
       (with_value ''replayed'' (value_bool P (replayed a))
       (with_value ''phase'' (value_str P ''active'')
       (with_value ''version'' (value_str P (activated_version a))
       (with_value ''name'' (value_str P name) reply_ok))))"

definition api_activate_extension :: "('e, 'v) platform \<Rightarrow> 'v \<Rightarrow> ('e, 'v reply) io" where
  "api_activate_extension P request =
     (case field_text P request ''name'' of
        None \<Rightarrow> ret (reply_failed (new_failure Malformed ''activate-extension needs a name''))
      | Some name \<Rightarrow>
          (case field_text P request ''version'' of
             None \<Rightarrow> ret (reply_failed (new_failure Malformed ''activate-extension needs a version''))
           | Some version \<Rightarrow>
               if \<not> version_valid name \<or> \<not> version_valid version
               then ret (reply_failed (new_failure Malformed ''unusable name or version''))
               else bind (activate_extension P name version (field_text P request ''request_id'')) (\<lambda>r.
                 ret (case r of Inr a \<Rightarrow> activation_reply P name a | Inl f \<Rightarrow> reply_failed f))))"

definition api_stage_base :: "('e, 'v) platform \<Rightarrow> 'v \<Rightarrow> ('e, 'v reply) io" where
  "api_stage_base P request =
     bind (stage_base P (field_text P request ''version'')) (\<lambda>r.
       ret (case r of
           Inr s \<Rightarrow>
             maybe ''boot_entry'' (map_option (value_str P) (base_boot_entry s))
               (with_value ''pending'' (value_bool P (base_pending s))
               (maybe ''version'' (map_option (value_str P) (base_version s)) reply_ok))
         | Inl f \<Rightarrow> reply_failed f))"

definition MAX_LINES :: u64 where
  "MAX_LINES = 2000"

definition clamp :: "u64 \<Rightarrow> u64 \<Rightarrow> u64 \<Rightarrow> u64" where
  "clamp lo hi n = (if n < lo then lo else if n > hi then hi else n)"

definition requested_lines :: "('e, 'v) platform \<Rightarrow> 'v \<Rightarrow> u64" where
  "requested_lines P request =
     clamp 1 MAX_LINES (case field_number P request ''lines'' of Some n \<Rightarrow> n | None \<Rightarrow> 200)"

definition logs :: "('e, 'v) platform \<Rightarrow> 'v \<Rightarrow> ('e, 'v reply) io" where
  "logs P request =
     (let lines = requested_lines P request
      in bind (journal P (field_text P request ''unit'') lines (field_text P request ''cursor'')
           (field_text P request ''priority'')) (\<lambda>r.
         ret (case r of
             Inr (collected, next) \<Rightarrow>
               with_value ''eof'' (value_bool P ((word_of_nat (length collected) :: u64) < lines))
                 (maybe ''cursor'' (map_option (value_str P) next)
                 (with_value ''lines'' (value_strs P collected) reply_ok))
           | Inl e \<Rightarrow> reply_failed (at Checking (new_failure Failed (''could not read the journal: '' @ io_text e))))))"

definition dispatch :: "('e, 'v) platform \<Rightarrow> 'v \<Rightarrow> ('e, 'v reply) io" where
  "dispatch P request =
     (case field_text P request ''command'' of
        None \<Rightarrow> ret (reply_failed (new_failure Malformed ''request has no command''))
      | Some c \<Rightarrow>
          if c = ''hello'' then hello P
          else if c = ''update-status'' then update_status P
          else if c = ''stage-extension'' then exclusive P (api_stage_extension P request)
          else if c = ''activate-extension'' then exclusive P (api_activate_extension P request)
          else if c = ''stage-base'' then exclusive P (api_stage_base P request)
          else if c = ''logs'' then logs P request
          else ret (reply_failed (unsupported c)))"

text \<open>
  One connection: the line that was read, or the error, and the bytes that are written back. A reply
  that cannot be encoded is not written.
\<close>

definition serve_connection :: "('e, 'v) platform \<Rightarrow> io_error + string \<Rightarrow> ('e, string option) io" where
  "serve_connection P received =
     (case received of
        Inl _ \<Rightarrow> ret None
      | Inr line \<Rightarrow>
          bind (case json_parse P (trim line) of
              Inr request \<Rightarrow> dispatch P request
            | Inl e \<Rightarrow> ret (reply_failed (new_failure Malformed (''unreadable request: '' @ e)))) (\<lambda>reply.
          ret (map_option (\<lambda>b. b @ [CHR 0x0A]) (encode_reply P reply))))"

end
