(* ===== verification/Cli.thy ===== *)
theory Cli
  imports Api
begin

text \<open>
  The command line of \<open>agent/src/main.rs\<close>: every command that changes something runs under the
  operation lock after interrupted work was reconciled. The socket loop of \<open>serve\<close> is a parameter.
\<close>

section \<open>Arguments\<close>

definition first_argument :: "string list \<Rightarrow> string option" where
  "first_argument args = (case args of [] \<Rightarrow> None | a # _ \<Rightarrow> Some a)"

definition argument :: "nat \<Rightarrow> string list \<Rightarrow> string option" where
  "argument i args = (if i < length args then Some (args ! i) else None)"

text \<open>\<open>--name value\<close>: the argument behind the first one that is the name.\<close>

fun option_value :: "string list \<Rightarrow> string \<Rightarrow> string option" where
  "option_value [] name = None"
| "option_value (a # rest) name = (if a = name then first_argument rest else option_value rest name)"

section \<open>Commands\<close>

definition locked :: "('e, 'v) platform \<Rightarrow> ('e, string + unit) io \<Rightarrow> ('e, string + unit) io" where
  "locked P operation =
     and_then (mapping_err (\<lambda>e. ''could not acquire operation lock: '' @ io_text e) acquire) (\<lambda>l.
     bind (and_then (reconcile_state P) (\<lambda>_. operation)) (\<lambda>r.
     bind (drop_lock l) (\<lambda>_. ret r)))"

definition loading :: "('e, 'v) platform \<Rightarrow> ('e, string + state) io" where
  "loading P = mapping_err io_text (load_state P)"

definition storing_state :: "('e, 'v) platform \<Rightarrow> state \<Rightarrow> ('e, string + unit) io" where
  "storing_state P s = mapping_err io_text (store P s)"

definition adopt :: "('e, 'v) platform \<Rightarrow> string list \<Rightarrow> ('e, string + unit) io" where
  "adopt P args =
     (case (first_argument args, argument 1 args) of
        (Some name, Some version) \<Rightarrow>
          and_then (loading P) (\<lambda>s.
          bind (adopt_active P s name version) (\<lambda>(r, s').
            case r of
              Inl e \<Rightarrow> ret (Err (show_adopt_error e))
            | Inr _ \<Rightarrow> bind (say (name @ '': adopted active '' @ version @ '' as known-good'')) (\<lambda>_. ret (Ok ()))))
      | _ \<Rightarrow> ret (Err ''usage: carbide-agent adopt NAME VERSION''))"

definition describe :: "failure \<Rightarrow> string" where
  "describe f =
     message f @
     (case failed_command f of Some c \<Rightarrow> [CHR 0x0A] @ ''  command: '' @ c | None \<Rightarrow> []) @
     (case exit_code f of
        Some c \<Rightarrow> [CHR 0x0A] @ ''  exit: '' @ (if c < 0 then ''-'' else []) @ show_nat (nat (abs c))
      | None \<Rightarrow> []) @
     (case stderr_tail f of Some t \<Rightarrow> [CHR 0x0A] @ ''  stderr: '' @ trim t | None \<Rightarrow> [])"

definition cli_activate :: "('e, 'v) platform \<Rightarrow> string list \<Rightarrow> ('e, string + unit) io" where
  "cli_activate P args =
     (case (first_argument args, argument 1 args) of
        (Some name, Some version) \<Rightarrow>
          bind (activate_extension P name version (argument 2 args)) (\<lambda>r.
            case r of
              Inl f \<Rightarrow> ret (Err (message f))
            | Inr a \<Rightarrow>
                bind (say (if replayed a then name @ '': request already applied''
                           else name @ '': active on '' @ activated_version a)) (\<lambda>_. ret (Ok ())))
      | _ \<Rightarrow> ret (Err ''usage: carbide-agent activate NAME VERSION''))"

definition UUID_PATH :: path where
  "UUID_PATH = ''/proc/sys/kernel/random/uuid''"

definition cli_stage_extension :: "('e, 'v) platform \<Rightarrow> string list \<Rightarrow> ('e, string + unit) io" where
  "cli_stage_extension P args =
     (case (case first_argument args of
          Some n \<Rightarrow> if starts_with ''--'' n then None else Some n | None \<Rightarrow> None) of
        None \<Rightarrow> ret (Err ''usage: carbide-agent stage-extension NAME [options]'')
      | Some name \<Rightarrow>
          (case (case option_value args ''--path'' of
               Some p \<Rightarrow> map_option (Supplied p) (option_value args ''--digest'')
             | None \<Rightarrow> Some (Acquire (option_value args ''--version''))) of
             None \<Rightarrow> ret (Err ''a supplied image must declare --digest'')
           | Some src \<Rightarrow>
               and_then (mapping_err describe (stage_extension P name (option_value args ''--base'') src)) (\<lambda>st.
                 if ''--activate'' \<notin> set args \<or> \<not> staged_for_running_base st
                 then bind (say (staged_name st @ '': staged for CarbideOS '' @ staged_version st @ '' at '' @
                        staged_path st)) (\<lambda>_. ret (Ok ()))
                 else case staged_extension_version st of
                     None \<Rightarrow> ret (Err (name @ '' declares no usable extension version''))
                   | Some version \<Rightarrow>
                       bind (fs_read_to_string UUID_PATH) (\<lambda>uuid.
                       bind (activate_extension P name version (map_option trim (ok uuid))) (\<lambda>r.
                         case r of
                           Inl f \<Rightarrow> ret (Err (describe f))
                         | Inr _ \<Rightarrow> bind (say (name @ '': active on '' @ version)) (\<lambda>_. ret (Ok ())))))))"

definition cli_stage_base :: "('e, 'v) platform \<Rightarrow> string list \<Rightarrow> ('e, string + unit) io" where
  "cli_stage_base P args =
     bind (stage_base P (case first_argument args of
         Some v \<Rightarrow> if starts_with ''--'' v then None else Some v | None \<Rightarrow> None)) (\<lambda>r.
       case r of
         Inl f \<Rightarrow> ret (Err (describe f))
       | Inr st \<Rightarrow>
           bind (say (if base_pending st
               then ''staged CarbideOS '' @ (case base_version st of Some v \<Rightarrow> v | None \<Rightarrow> []) @
                 '' for the next boot ('' @ (case base_boot_entry st of Some e \<Rightarrow> e | None \<Rightarrow> []) @ '')''
               else ''no CarbideOS update to stage'')) (\<lambda>_. ret (Ok ())))"

definition rollback_command :: "('e, 'v) platform \<Rightarrow> string list \<Rightarrow> ('e, string + unit) io" where
  "rollback_command P args =
     (case first_argument args of
        None \<Rightarrow> ret (Err ''usage: carbide-agent rollback NAME'')
      | Some name \<Rightarrow>
          and_then (loading P) (\<lambda>s.
          bind (recover P s name ''operator requested rollback'') (\<lambda>(r, s').
          and_then (storing_state P s') (\<lambda>_. ret r))))"

definition remove_extension :: "('e, 'v) platform \<Rightarrow> string list \<Rightarrow> ('e, string + unit) io" where
  "remove_extension P args =
     (case first_argument args of
        None \<Rightarrow> ret (Err ''usage: carbide-agent remove NAME'')
      | Some name \<Rightarrow>
          and_then (loading P) (\<lambda>s.
            let s1 = entry name (\<lambda>e. e\<lparr>required := False, phase := Removing\<rparr>) s
            in and_then (storing_state P s1) (\<lambda>_.
               bind (complete_removal P s1 name) (\<lambda>(r, s2).
                 case r of
                   Inl e \<Rightarrow> ret (Err e)
                 | Inr _ \<Rightarrow>
                     and_then (storing_state P s2) (\<lambda>_.
                     bind (say (name @ '': removed from the running base'')) (\<lambda>_. ret (Ok ())))))))"

definition set_required :: "('e, 'v) platform \<Rightarrow> string list \<Rightarrow> bool \<Rightarrow> ('e, string + unit) io" where
  "set_required P args value =
     (case first_argument args of
        None \<Rightarrow> ret (Err ''usage: carbide-agent require|unrequire NAME'')
      | Some name \<Rightarrow>
          and_then (loading P) (\<lambda>s.
          and_then (storing_state P (entry name (\<lambda>e. e\<lparr>required := value\<rparr>) s)) (\<lambda>_.
          bind (say (name @ '': '' @ (if value then ''required'' else ''no longer required''))) (\<lambda>_.
          ret (Ok ())))))"

definition reset_command :: "('e, 'v) platform \<Rightarrow> string list \<Rightarrow> ('e, string + unit) io" where
  "reset_command P args =
     (case first_argument args of
        None \<Rightarrow> ret (Err ''usage: carbide-agent reset NAME'')
      | Some name \<Rightarrow>
          and_then (loading P) (\<lambda>s.
          and_then (storing_state P
            (entry name (\<lambda>e. e\<lparr>phase := Idle, last_failure := None, last_health := None\<rparr>) s)) (\<lambda>_.
          bind (say (name @ '': reset; will be checked again'')) (\<lambda>_.
          ret (Ok ())))))"

text \<open>\<open>serde_json::to_string_pretty\<close> writes the text that \<open>to_vec_pretty\<close> encodes.\<close>

definition status_command :: "('e, 'v) platform \<Rightarrow> ('e, string + unit) io" where
  "status_command P =
     and_then (loading P) (\<lambda>s.
       case encode_state P s of
         Inl e \<Rightarrow> ret (Err e)
       | Inr encoded \<Rightarrow> bind (say encoded) (\<lambda>_. ret (Ok ())))"

section \<open>The main function\<close>

text \<open>\<open>usage\<close>: what \<open>help\<close> prints.\<close>

fun in_lines :: "string list \<Rightarrow> string" where
  "in_lines [] = []"
| "in_lines [l] = l"
| "in_lines (l # ls) = l @ [CHR 0x0A] @ in_lines ls"

definition usage :: "('e, unit) io" where
  "usage = say (in_lines
     [''Usage: carbide-agent COMMAND'',
      [],
      ''  health-gate              Verify every required extension is healthy'',
      ''  activate NAME VERSION    Activate a staged candidate, reverting on failure'',
      ''  stage-extension NAME [--base V] [--path P --digest D] [--version V]'',
      ''                           Place an image for a base version. Without --path'',
      ''                           the agent fetches it through its own configuration.'',
      ''  stage-base [VERSION]     Stage a base image and select its boot entry'',
      ''  adopt NAME VERSION       Record an already-active, healthy image as known-good'',
      ''  rollback NAME            Return an extension to its known-good image'',
      ''  remove NAME              Remove an optional extension from the running base'',
      ''  require NAME             Record that this node must have NAME'',
      ''  unrequire NAME           Stop requiring NAME'',
      ''  reset NAME               Clear a terminal state so NAME is checked again'',
      ''  status                   Report agent state as JSON'',
      ''  serve [PATH]             Answer requests on a socket, systemd'' @ [CHR 0x27] @ ''s if PATH is absent'',
      [],
      ''Rulesets are read only from /usr/lib/carbide/health.d.'',
      ''Images live in /var/lib/extensions; only the active one ends in .raw.''])"

text \<open>\<open>True\<close> is \<open>ExitCode::SUCCESS\<close>.\<close>

definition main ::
  "('e, 'v) platform \<Rightarrow> (string option \<Rightarrow> ('e, string + unit) io) \<Rightarrow> string list \<Rightarrow> ('e, bool) io" where
  "main P serve argv =
     (let cmd = (case first_argument argv of Some c \<Rightarrow> c | None \<Rightarrow> ''help''); rest = drop 1 argv
      in if cmd \<in> {''help'', ''--help'', ''-h''} then bind usage (\<lambda>_. ret True)
         else
           bind (if cmd = ''health-gate'' then locked P (health_gate P)
                 else if cmd = ''activate'' then locked P (cli_activate P rest)
                 else if cmd = ''stage-extension'' then locked P (cli_stage_extension P rest)
                 else if cmd = ''stage-base'' then locked P (cli_stage_base P rest)
                 else if cmd = ''adopt'' then locked P (adopt P rest)
                 else if cmd = ''rollback'' then locked P (rollback_command P rest)
                 else if cmd = ''remove'' then locked P (remove_extension P rest)
                 else if cmd = ''require'' then locked P (set_required P rest True)
                 else if cmd = ''unrequire'' then locked P (set_required P rest False)
                 else if cmd = ''reset'' then locked P (reset_command P rest)
                 else if cmd = ''status'' then status_command P
                 else if cmd = ''serve'' then serve (argument 1 argv)
                 else ret (Err (''unknown command '' @ debug_str cmd))) (\<lambda>r.
             case r of
               Inr _ \<Rightarrow> ret True
             | Inl m \<Rightarrow> bind (say (''carbide-agent: '' @ m)) (\<lambda>_. ret False)))"

end
