(* ===== verification/Recovery.thy ===== *)
theory Recovery
  imports Cli
begin

text \<open>
  What the supervisor guarantees across failures and power losses. \<open>supervised\<close> states what a
  transaction may do to an invariant; its interpretations say that the retained image is never
  touched while a transaction runs, and that the record on disk names it. The properties are about
  activation and recovery as a whole.
\<close>

section \<open>States that have something to fall back to\<close>

text \<open>The phases in which an extension's image may have been replaced.\<close>

definition replacing :: "phase \<Rightarrow> bool" where
  "replacing ph \<longleftrightarrow> ph \<notin> {Idle, Staged, Removing}"

definition falls_back :: "string \<Rightarrow> string \<Rightarrow> state \<Rightarrow> bool" where
  "falls_back name v s \<longleftrightarrow> well_ordered s \<and> Option.bind (state_get s name) known_good_version = Some v"

definition journaled :: "string \<Rightarrow> string \<Rightarrow> state \<Rightarrow> bool" where
  "journaled name v s \<longleftrightarrow>
     well_ordered s \<and> (\<exists>e. state_get s name = Some e \<and> known_good_version e = Some v \<and> replacing (phase e))"

lemma journaled_falls_back: "journaled name v s \<Longrightarrow> falls_back name v s"
  by (auto simp: journaled_def falls_back_def)

lemma journaled_entry:
  assumes "falls_back name v s"
    and "\<And>e. known_good_version (f e) = known_good_version e" "\<And>e. replacing (phase (f e))"
  shows "journaled name v (entry name f s)"
  using assms by (auto simp: journaled_def falls_back_def split: Option.bind_splits)

lemma journaled_steps:
  assumes "falls_back name v s"
  shows "journaled name v (entry name (reverting reason) s)"
    "journaled name v (entry name (recovered reason version) s)"
    "journaled name v (mark_failed name reason os s)"
    "journaled name v (entry name (\<lambda>e. e\<lparr>phase := Starting\<rparr>) s)"
    "journaled name v (entry name (\<lambda>e. e\<lparr>phase := Soaking\<rparr>) s)"
    "journaled name v (entry name (committed_entry version request) s)"
  unfolding mark_failed_def
  by (rule journaled_entry [OF assms];
      simp add: reverting_def recovered_def failed_entry_def committed_entry_def record_completed_def
        replacing_def Let_def split: option.split)+

lemma journaled_activating:
  "well_ordered s \<Longrightarrow> journaled name v (entry name (activating version request (Some v)) s)"
  by (simp add: journaled_def activating_def replacing_def)

section \<open>What a supervised transaction keeps\<close>

text \<open>
  An invariant that everything a transaction on \<open>name\<close> does keeps, as long as the state that is
  stored falls back to \<open>v\<close>.
\<close>

locale supervised =
  fixes P :: "('e, 'v) platform" and I :: "'e world \<Rightarrow> bool" and name :: string and v :: string
  assumes obeying: "obeys P I"
    and steadily: "steady I"
    and storing: "journaled name v s \<Longrightarrow> keeps I (store P s)"
    and installing: "keeps I (install_active img name)"
    and pruning: "keeps I (prune_candidates name None)" "keeps I (prune_rollbacks name (Some v))"
begin

lemmas basics = keeps_intros obeying steadily storing installing pruning obeys_rest [OF obeying]

lemma keeps_healthy_now: "keeps I (healthy_now P r)"
  unfolding healthy_now_def by (intro basics)

lemma keeps_terminal: "falls_back name v s \<Longrightarrow> keeps I (terminal P s name reason)"
  unfolding terminal_def Let_def by (intro basics journaled_steps)

lemma keeps_restore_image: "keeps I (restore_image P name reason version img)"
  unfolding restore_image_def by (intro basics keeps_healthy_now)

lemma keeps_stop_current: "keeps I (stop_current P name)"
  unfolding stop_current_def by (intro basics)

lemma keeps_finish_recovery: "falls_back name v s \<Longrightarrow> keeps I (finish_recovery P s name reason v)"
  unfolding finish_recovery_def Let_def by (intro basics journaled_steps)

lemma keeps_recover:
  assumes "falls_back name v s"
  shows "keeps I (recover P s name reason)"
proof -
  have s1: "falls_back name v (entry name (reverting reason) s)"
    by (rule journaled_falls_back [OF journaled_steps(1) [OF assms]])
  have "keeps I (recover_onto P s name reason v img)" for img
    unfolding recover_onto_def Let_def
    by (intro basics journaled_steps assms keeps_stop_current keeps_restore_image keeps_terminal
        keeps_finish_recovery s1)
  with assms show ?thesis
    unfolding recover_def
    by (auto simp: falls_back_def intro!: basics keeps_terminal)
qed

lemma keeps_merge_candidate: "keeps I (merge_candidate P name candidate)"
  unfolding merge_candidate_def by (intro basics)

lemma falls_back_steps:
  "falls_back name v s \<Longrightarrow> falls_back name v (entry name (\<lambda>e. e\<lparr>phase := Starting\<rparr>) s)"
  "falls_back name v s \<Longrightarrow> falls_back name v (entry name (\<lambda>e. e\<lparr>phase := Soaking\<rparr>) s)"
  "falls_back name v s \<Longrightarrow> falls_back name v (entry name (committed_entry version request) s)"
  by (blast intro: journaled_falls_back journaled_steps)+

lemma keeps_prove_candidate:
  "falls_back name v s \<Longrightarrow> keeps I (prove_candidate P s name version request r)"
  unfolding prove_candidate_def Let_def by (intro basics journaled_steps falls_back_steps)

lemma returns_prove_candidate:
  "falls_back name v s \<Longrightarrow> returns (\<lambda>(_, s'). falls_back name v s') (prove_candidate P s name version request r)"
  unfolding prove_candidate_def Let_def
  by (intro returns_intros) (simp_all add: falls_back_steps)

lemma returns_try_candidate:
  assumes "falls_back name v s"
  shows "returns (\<lambda>(_, _, s'). falls_back name v s') (try_candidate P s name version request candidate)"
  unfolding try_candidate_def
  by (intro returns_intros returns_bind_from [OF returns_prove_candidate [OF assms]])
    (use assms in \<open>auto intro: returns_intros\<close>)

lemma keeps_try_candidate:
  assumes "falls_back name v s"
  shows "keeps I (try_candidate P s name version request candidate)"
  unfolding try_candidate_def by (intro basics keeps_merge_candidate keeps_prove_candidate assms)

lemma keeps_revert:
  assumes "falls_back name v s"
  shows "keeps I (revert P s name reason st un)"
  unfolding revert_def Let_def by (intro basics keeps_recover assms)

lemma keeps_carry_out:
  assumes "falls_back name v s"
  shows "keeps I (carry_out P s name version request candidate (Some v))"
  unfolding carry_out_def
proof (rule keeps_bind_from [OF keeps_try_candidate [OF assms] returns_try_candidate [OF assms]])
  fix x :: "((string \<times> stage) + Product_Type.unit) \<times> string option \<times> state"
  assume R: "case x of (_, _, s') \<Rightarrow> falls_back name v s'"
  obtain res un s2 where x: "x = (res, un, s2)" by (cases x)
  with R have "falls_back name v s2" by simp
  then show "keeps I (case x of (res, unit_name, s') \<Rightarrow>
       case res of
         Inl (reason, st) \<Rightarrow> bind (revert P s' name reason st unit_name) (\<lambda>f. ret (Err f))
       | Inr _ \<Rightarrow>
           bind (prune_candidates name None) (\<lambda>pc.
           bind (case pc of Inr _ \<Rightarrow> ret ()
             | Inl e \<Rightarrow> say (name @ '': active, but candidate cleanup failed: '' @ io_text e)) (\<lambda>_.
           bind (prune_rollbacks name (Some v)) (\<lambda>pr.
           bind (case pr of Inr _ \<Rightarrow> ret ()
             | Inl e \<Rightarrow> say (name @ '': active, but rollback cleanup failed: '' @ io_text e)) (\<lambda>_.
           ret (Ok \<lparr>activated_version = version, activated_known_good = Some v, replayed = False\<rparr>))))))"
    unfolding x prod.case by (intro basics keeps_revert)
qed

end

section \<open>Invariants of a supervised transaction\<close>

lemma obeys_conj: "obeys P I \<Longrightarrow> obeys P J \<Longrightarrow> obeys P (\<lambda>w. I w \<and> J w)"
  by (simp add: obeys_def keeps_conj)

lemma obeys_implies: "(b \<Longrightarrow> obeys P I) \<Longrightarrow> obeys P (\<lambda>w. b \<longrightarrow> I w)"
  by (cases b) (auto simp: obeys_def keeps_def)

lemma steady_implies: "(b \<Longrightarrow> steady I) \<Longrightarrow> steady (\<lambda>w. b \<longrightarrow> I w)"
  by (auto simp: steady_def)

lemma foreign_state: "foreign p \<Longrightarrow> p \<noteq> state_staging"
  using state_paths(1) by (auto simp: foreign_def)

lemma scope_stays: "stays OS_RELEASE u w \<Longrightarrow> scope w = scope u"
  by (simp add: scope_def os_version_cong [of w u] stays_def frame_bytes_at)

lemma rollback_path_stays: "stays OS_RELEASE u w \<Longrightarrow> rollback_path name v w = rollback_path name v u"
  by (simp add: rollback_path_def scope_stays)

text \<open>The retained image, while the base that is running stays the same.\<close>

definition undisturbed :: "('e, 'v) platform \<Rightarrow> string \<Rightarrow> string \<Rightarrow> 'e world \<Rightarrow> bool" where
  "undisturbed P name v u \<longleftrightarrow>
     plain name \<and> plain v \<and> plain (scope u) \<and> tame P (rollback_path name v u) \<and> tame P OS_RELEASE"

lemma rollback_file_part:
  assumes "plain name" "plain v" "plain (scope u)"
  shows "\<not> ends_with ''.candidate'' (lossy (file_part (rollback_path name v u)))"
proof -
  have "ends_with ''.rollback'' (lossy (file_part (rollback_path name v u)))"
    unfolding slots_plain(7) [OF assms] by (simp only: append_assoc [symmetric] ends_with_append)
  moreover have "\<not> ends_with ''.rollback'' ''.candidate''" by code_simp
  ultimately show ?thesis using ends_with_suffix_cases [of "''.rollback''" _ "''.candidate''"] by auto
qed

lemma keeps_prune_rollbacks_kept:
  "keeps (\<lambda>w. stays (rollback_path name v u) u w \<and> stays OS_RELEASE u w) (prune_rollbacks name (Some v))"
  unfolding prune_rollbacks_def
proof (rule keeps_bind_reads)
  fix w
  assume "stays (rollback_path name v u) u w \<and> stays OS_RELEASE u w"
  then have R: "rollback_path name v w = rollback_path name v u" by (simp add: rollback_path_stays)
  show "keeps (\<lambda>w. stays (rollback_path name v u) u w \<and> stays OS_RELEASE u w)
      (bind (reads scope) (\<lambda>os. prune_matching_in EXTENSIONS_DIR (name @ ''_'' @ os @ ''.raw.'') ''.rollback''
         (map_option (\<lambda>v. rollback_path name v w) (Some v))))"
    by (intro keeps_conj keeps_intros keeps_prune_matching_in)
      (simp_all add: R spared_def foreign_slots(7) [OF foreign_paths(1)])
qed

lemma rollback_not_state: "rollback_path name v u \<noteq> state_path" "rollback_path name v u \<noteq> state_staging"
  using foreign_slots(3) [OF foreign_paths(2)] temporary_slots(3) state_paths(1) by metis+

interpretation retaining: supervised P
  "\<lambda>w. undisturbed P name v u \<longrightarrow> stays (rollback_path name v u) u w \<and> stays OS_RELEASE u w" name v
  for P :: "('e, 'v) platform" and name v u
proof
  let ?I = "\<lambda>w. stays (rollback_path name v u) u w \<and> stays OS_RELEASE u w"
  show "obeys P (\<lambda>w. undisturbed P name v u \<longrightarrow> ?I w)"
    by (intro obeys_implies obeys_conj tame_obeys) (simp_all add: undisturbed_def)
  show "steady (\<lambda>w. undisturbed P name v u \<longrightarrow> ?I w)"
    by (intro steady_implies steady_conj steady_stays)
  show "keeps (\<lambda>w. undisturbed P name v u \<longrightarrow> ?I w) (store P s)" for s
    by (intro keeps_implies keeps_conj keeps_store rollback_not_state)
      (use foreign_state [OF foreign_paths(1)] in \<open>auto simp: OS_RELEASE_def state_path_simp\<close>)
  show "keeps (\<lambda>w. undisturbed P name v u \<longrightarrow> ?I w) (install_active img name)" for img
    by (intro keeps_implies keeps_conj keeps_install_active keeps_foreign foreign_paths temporary_slots)
      (use slots_differ in metis)+
  show "keeps (\<lambda>w. undisturbed P name v u \<longrightarrow> ?I w) (prune_candidates name None)"
    by (intro keeps_implies keeps_conj keeps_prune_candidates keeps_foreign foreign_paths)
      (simp_all add: rollback_file_part undisturbed_def)
  show "keeps (\<lambda>w. undisturbed P name v u \<longrightarrow> ?I w) (prune_rollbacks name (Some v))"
    by (intro keeps_implies keeps_prune_rollbacks_kept)
qed

text \<open>The record on disk, whichever of its versions a power loss brings back.\<close>

definition faithful :: "('e, 'v) platform \<Rightarrow> bool" where
  "faithful P \<longleftrightarrow> (\<forall>s b. encode_state P s = Ok b \<longrightarrow> decode_state P (b @ [CHR 0x0A]) = Ok s)"

definition recorded :: "('e, 'v) platform \<Rightarrow> (state \<Rightarrow> bool) \<Rightarrow> 'e world \<Rightarrow> bool" where
  "recorded P A w \<longleftrightarrow> coherent w \<and> survives w state_path (\<lambda>z. \<exists>s. A s \<and> reads_as P s z)"

lemma recorded_stays: "recorded P A w \<Longrightarrow> stays state_path w w' \<Longrightarrow> recorded P A w'"
  by (auto simp: recorded_def stays_def frame_survives)

lemma keeps_recorded:
  assumes "\<And>u. keeps (stays state_path u) m"
  shows "keeps (recorded P A) m"
  by (rule keeps_through_stays [OF assms]) (auto simp: recorded_def stays_def frame_survives)

lemma steady_recorded: "steady (recorded P A)"
  by (simp add: steady_def recorded_def)

lemma store_unencoded: "encode_state P s = Err e \<Longrightarrow> keeps (stays p u) (store P s)"
  unfolding store_def Let_def by (intro keeps_intros) simp_all

lemma keeps_store_recorded:
  assumes "faithful P" "A s"
  shows "keeps (recorded P A) (store P s)"
proof (cases "encode_state P s")
  case (Inl e)
  then show ?thesis by (intro keeps_recorded store_unencoded)
next
  case (Inr b)
  let ?b = "b @ [CHR 0x0A]" and ?Q = "\<lambda>z. \<exists>s. A s \<and> reads_as P s z"
  from assms Inr have new: "?Q (Some ?b)" by (auto simp: faithful_def reads_as_def)
  have good: "recorded P A w'" if "recorded P A w" "tried ?b state_path w w'" for w w'
    using that(2) unfolding tried_def
  proof
    assume "replaced ?b state_path w w'"
    moreover from this have "survives w' state_path (\<lambda>z. ?Q z \<or> z = Some ?b)"
      using that(1) replaced_survives [of ?b state_path w w' ?Q] by (simp add: recorded_def)
    ultimately show ?thesis
      using new survives_mono [of w' state_path _ ?Q] by (auto simp: recorded_def replaced_def)
  qed (rule recorded_stays [OF that(1)])
  show ?thesis
    unfolding keeps_iff_hoare
  proof (rule hoareI)
    fix w r w'
    assume w: "recorded P A w" "store P s w = (Done r, w')"
    then have "stays state_path w w" by (simp add: recorded_def)
    from hoareD [OF hoare_store [OF Inr] this w(2)] have "tried ?b state_path w w'"
      by (cases r) (simp_all add: tried_intros published_replaced)
    with w(1) show "recorded P A w'" by (rule good)
  next
    fix w r w'
    assume w: "recorded P A w" "store P s w = (Stopped r, w')"
    then have "stays state_path w w" by (simp add: recorded_def)
    from good [OF w(1) hoareD_stop [OF hoare_store [OF Inr] this w(2)]] show "recorded P A w'" .
  qed
qed

interpretation recording: supervised P
  "\<lambda>w. faithful P \<and> tame P state_path \<longrightarrow> recorded P (journaled name v) w" name v
  for P :: "('e, 'v) platform" and name v
proof
  let ?b = "faithful P \<and> tame P state_path" and ?I = "recorded P (journaled name v)"
  have "obeys P ?I" if "tame P state_path"
    using that unfolding obeys_def tame_def
    by (auto intro!: keeps_recorded keeps_sleep keeps_say)
  then show "obeys P (\<lambda>w. ?b \<longrightarrow> ?I w)" by (intro obeys_implies) blast
  show "steady (\<lambda>w. ?b \<longrightarrow> ?I w)" by (intro steady_implies steady_recorded)
  show "keeps (\<lambda>w. ?b \<longrightarrow> ?I w) (store P s)" if "journaled name v s" for s
    using that by (intro keeps_implies keeps_store_recorded) auto
  show "keeps (\<lambda>w. ?b \<longrightarrow> ?I w) (install_active img name)" "keeps (\<lambda>w. ?b \<longrightarrow> ?I w) (prune_candidates name None)"
    "keeps (\<lambda>w. ?b \<longrightarrow> ?I w) (prune_rollbacks name (Some v))" for img
    by (intro keeps_implies keeps_recorded keeps_foreign foreign_paths)+
qed

lemma hoare_conj:
  assumes "hoare I m Q C" "keeps J m"
  shows "hoare (\<lambda>w. I w \<and> J w) m (\<lambda>r w. Q r w \<and> J w) (\<lambda>w. C w \<and> J w)"
  using assms unfolding keeps_iff_hoare hoare_def by blast

lemma hoare_conj_result:
  assumes "hoare I m (\<lambda>r. case r of Inl e \<Rightarrow> E e | Inr x \<Rightarrow> A x) C" "keeps J m"
  shows "hoare (\<lambda>w. I w \<and> J w) m
    (\<lambda>r. case r of Inl e \<Rightarrow> \<lambda>w. E e w \<and> J w | Inr x \<Rightarrow> \<lambda>w. A x w \<and> J w) (\<lambda>w. C w \<and> J w)"
  by (rule hoare_weaken [OF hoare_conj [OF assms]]) (auto split: sum.splits)

section \<open>Activation, cut short anywhere\<close>

text \<open>
  A replaceable extension: its active image \<open>B\<close> is on disk, the record calls it \<open>v\<close>, and a retained
  copy of \<open>v\<close> that exists already is on disk as \<open>G\<close>. The programs that run leave the agent's files
  alone.
\<close>

definition kept_image :: "string \<Rightarrow> string \<Rightarrow> string set \<Rightarrow> 'e world \<Rightarrow> 'e world \<Rightarrow> bool" where
  "kept_image name v Bs u w \<longleftrightarrow>
     coherent w \<and> (\<exists>g \<in> Bs. survives w (rollback_path name v u) (\<lambda>z. z = Some g))"

definition same_slots :: "string \<Rightarrow> string \<Rightarrow> 'e world \<Rightarrow> 'e world \<Rightarrow> bool" where
  "same_slots name v u w \<longleftrightarrow>
     active_path name w = active_path name u \<and>
     exists_path w (rollback_path name v u) = exists_path u (rollback_path name v u)"

definition untouched :: "string \<Rightarrow> string \<Rightarrow> 'e world \<Rightarrow> 'e world \<Rightarrow> bool" where
  "untouched name v u w \<longleftrightarrow>
     stays (active_path name u) u w \<and> stays (rollback_path name v u) u w \<and> stays OS_RELEASE u w \<and>
     same_slots name v u w"

lemma active_path_cong: "scope w = scope u \<Longrightarrow> live w = live u \<Longrightarrow> dirs w = dirs u \<Longrightarrow>
    active_path name w = active_path name u"
  by (simp add: active_path_def exists_path_def Let_def)

lemma scope_faults [simp]: "scope (w\<lparr>faults := f\<rparr>) = scope w"
  by (simp add: scope_def os_version_def os_release_def)

lemma steady_untouched: "steady (untouched name v u)"
  by (simp add: steady_def untouched_def same_slots_def active_path_cong [of "_\<lparr>faults := _\<rparr>"])

definition careful :: "('e, 'v) platform \<Rightarrow> string \<Rightarrow> string \<Rightarrow> 'e world \<Rightarrow> bool" where
  "careful P name v u \<longleftrightarrow>
     undisturbed P name v u \<and> tame P (active_path name u) \<and> tame P state_path \<and> faithful P \<and>
     obeys P (same_slots name v u)"

lemma obeys_untouched: "careful P name v u \<Longrightarrow> obeys P (untouched name v u)"
proof -
  assume "careful P name v u"
  then have "obeys P (\<lambda>w. stays (active_path name u) u w \<and> stays (rollback_path name v u) u w \<and>
      stays OS_RELEASE u w \<and> same_slots name v u w)"
    by (intro obeys_conj tame_obeys) (simp_all add: careful_def undisturbed_def)
  then show ?thesis by (simp add: untouched_def [abs_def])
qed

lemma active_path_cases:
  "active_path name u = scoped_active_path name (scope u) \<or> active_path name u = legacy_active_path name"
  by (simp add: active_path_def Let_def)

lemma active_apart:
  "active_path name u \<noteq> rollback_path name v w" "active_path name u \<noteq> state_path"
  "active_path name u \<noteq> state_staging" "\<not> temporary (active_path name u)"
proof -
  show t: "\<not> temporary (active_path name u)"
    using active_path_cases [of name u] temporary_slots by metis
  then show "active_path name u \<noteq> state_staging" using state_paths(1) by auto
  show "active_path name u \<noteq> rollback_path name v w"
    using active_path_cases [of name u] slots_differ by metis
  show "active_path name u \<noteq> state_path"
    using active_path_cases [of name u] foreign_slots(1,2) [OF foreign_paths(2)] by metis
qed

text \<open>Retaining the outgoing image: afterwards there is one that survives, and nothing else changed.\<close>

lemma hoare_retain_outgoing:
  assumes B: "bytes_at u (active_path name u) = Some B" "length B < 2 ^ 64"
    and G: "exists_path u (rollback_path name v u) \<Longrightarrow> survives u (rollback_path name v u) (\<lambda>z. z = Some G)"
  shows "hoare (untouched name v u) (retain_outgoing name (Some v))
    (\<lambda>r. case r of Inl _ \<Rightarrow> \<lambda>w. stays (active_path name u) u w \<and> stays OS_RELEASE u w
       | Inr _ \<Rightarrow> \<lambda>w. kept_image name v {B, G} u w \<and> stays (active_path name u) u w \<and> stays OS_RELEASE u w)
    (\<lambda>w. stays (active_path name u) u w \<and> stays OS_RELEASE u w)"
    (is "hoare _ _ ?Q ?C")
proof -
  let ?A = "active_path name u" and ?R = "rollback_path name v u"
  note defs = untouched_def same_slots_def
  have ex: "exists_path w ?A" if "untouched name v u w" for w
    using that B by (auto simp: defs exists_path_def stays_def frame_def bytes_at_def now_def)
  have kept: "kept_image name v {B, G} u w" if "untouched name v u w" "exists_path w ?R" for w
    using that G frame_survives [of ?R u w "\<lambda>z. z = Some G"]
    by (auto simp: kept_image_def defs stays_def)
  have copy: "hoare (untouched name v u) (durable_copy ?A ?R)
      (\<lambda>r. case r of Inl _ \<Rightarrow> ?C | Inr _ \<Rightarrow> \<lambda>w. published B ?R w \<and> ?C w) ?C"
  proof -
    have h: "hoare (\<lambda>w. (stays ?R u w \<and> bytes_at w ?A = Some B) \<and> stays ?A u w \<and> stays OS_RELEASE u w)
      (durable_copy ?A ?R)
      (\<lambda>r. case r of Inl _ \<Rightarrow> \<lambda>w. tried B ?R u w \<and> stays ?A u w \<and> stays OS_RELEASE u w
        | Inr _ \<Rightarrow> \<lambda>w. published B ?R w \<and> stays ?A u w \<and> stays OS_RELEASE u w)
      (\<lambda>w. tried B ?R u w \<and> stays ?A u w \<and> stays OS_RELEASE u w)"
      by (rule hoare_conj_result [OF hoare_durable_copy [OF temporary_slots(3) B(2)]])
        (intro keeps_conj keeps_durable_copy keeps_foreign foreign_paths temporary_slots active_apart
          not_temporary_of)
    show ?thesis
      by (rule hoare_weaken_result [OF h])
        (use B(1) in \<open>auto simp: defs stays_def frame_bytes_at\<close>)
  qed
  show ?thesis
    unfolding retain_outgoing_def option.case
  proof (rule hoareI)
    fix w r w'
    assume w: "untouched name v u w"
      and run: "bind (reads (active_path name)) (\<lambda>active. bind (reads (rollback_path name v)) (\<lambda>retained.
        bind (reads (\<lambda>w. exists_path w active \<and> \<not> exists_path w retained)) (\<lambda>missing.
          if missing then mapping_err (io_failure Staging ''could not retain the outgoing image: '')
            (durable_copy active retained) else ret (Ok ())))) w = (Done r, w')"
    from w have p: "active_path name w = ?A" "rollback_path name v w = ?R"
      by (simp_all add: defs rollback_path_stays)
    show "?Q r w'"
    proof (cases "exists_path w ?R")
      case True
      with run p have "r = Ok ()" "w' = w" by (simp_all add: bind_reads ret_def)
      with kept [OF w True] w show ?thesis by (simp add: defs)
    next
      case False
      with run p ex [OF w] have "mapping_err (io_failure Staging ''could not retain the outgoing image: '')
          (durable_copy ?A ?R) w = (Done r, w')" by (simp add: bind_reads)
      then obtain x where x: "durable_copy ?A ?R w = (Done x, w')"
          "r = map_err (io_failure Staging ''could not retain the outgoing image: '') x"
        by (auto simp: mapping_err_def bind_Done_iff ret_def)
      from hoareD [OF copy w x(1)] show ?thesis
        by (cases x) (auto simp: x(2) kept_image_def published_survives, auto simp: published_def)
    qed
  next
    fix w s w'
    assume w: "untouched name v u w"
      and run: "bind (reads (active_path name)) (\<lambda>active. bind (reads (rollback_path name v)) (\<lambda>retained.
        bind (reads (\<lambda>w. exists_path w active \<and> \<not> exists_path w retained)) (\<lambda>missing.
          if missing then mapping_err (io_failure Staging ''could not retain the outgoing image: '')
            (durable_copy active retained) else ret (Ok ())))) w = (Stopped s, w')"
    from w have p: "active_path name w = ?A" "rollback_path name v w = ?R"
      by (simp_all add: defs rollback_path_stays)
    show "?C w'"
    proof (cases "exists_path w ?R")
      case True
      with run p show ?thesis by (simp add: bind_reads ret_def)
    next
      case False
      with run p ex [OF w] have "mapping_err (io_failure Staging ''could not retain the outgoing image: '')
          (durable_copy ?A ?R) w = (Stopped s, w')" by (simp add: bind_reads)
      then have "durable_copy ?A ?R w = (Stopped s, w')"
        by (auto simp: mapping_err_def bind_def ret_def split: prod.splits outcome.splits)
      from hoareD_stop [OF copy w this] show ?thesis .
    qed
  qed
qed

lemma store_records:
  assumes "faithful P" "A s" "coherent w" "store P s w = (Done (Ok ()), w')"
  shows "recorded P A w'"
proof (cases "encode_state P s")
  case (Inl e)
  have "returns (\<lambda>r. r \<noteq> Ok ()) (store P s)"
    unfolding store_def Let_def Inl sum.case and_then_def by (intro returns_intros) simp_all
  with assms(4) show ?thesis by (auto dest: returnsD)
next
  case (Inr b)
  from assms(3) have "stays state_path w w" by simp
  from hoareD [OF hoare_store [OF Inr] this assms(4)] have "published (b @ [CHR 0x0A]) state_path w'" by simp
  then have "coherent w'" "survives w' state_path (\<lambda>z. z = Some (b @ [CHR 0x0A]))"
    by (auto simp: published_survives) (simp add: published_def)
  moreover from assms(1,2) Inr have "\<exists>s. A s \<and> reads_as P s (Some (b @ [CHR 0x0A]))"
    by (auto simp: faithful_def reads_as_def)
  ultimately show ?thesis
    unfolding recorded_def by (auto intro: survives_mono)
qed

text \<open>Nothing happened to the active image, or the record and the retained image are both safe.\<close>

definition fallback_ready ::
  "('e, 'v) platform \<Rightarrow> string \<Rightarrow> string \<Rightarrow> string set \<Rightarrow> 'e world \<Rightarrow> 'e world \<Rightarrow> bool" where
  "fallback_ready P name v Bs u w \<longleftrightarrow>
     stays OS_RELEASE u w \<and>
     (stays (active_path name u) u w \<or> recorded P (journaled name v) w \<and> kept_image name v Bs u w)"

lemma keeps_kept_image:
  assumes "\<And>u. keeps (stays (rollback_path name v w0) u) m"
  shows "keeps (kept_image name v Bs w0) m"
  by (rule keeps_through_stays [OF assms]) (auto simp: kept_image_def stays_def dest: frame_survives)

lemma hoare_promote:
  fixes P :: "('e, 'v) platform" and u :: "'e world" and Bs :: "string set"
  assumes c: "careful P name v u" and s: "well_ordered s"
  defines "F \<equiv> fallback_ready P name v Bs u"
  shows "hoare (\<lambda>w. kept_image name v Bs u w \<and> stays (active_path name u) u w \<and> stays OS_RELEASE u w)
    (promote P s name version request candidate (Some v)) (\<lambda>_. F) F"
    (is "hoare ?I _ _ _")
proof -
  let ?s = "entry name (activating version request (Some v)) s"
  have j: "journaled name v ?s" by (rule journaled_activating [OF s])
  from c have fa: "faithful P" "tame P state_path" by (simp_all add: careful_def)
  have IF: "?I w \<Longrightarrow> F w" for w by (simp add: F_def fallback_ready_def)
  have "keeps ?I (store P ?s)"
    by (intro keeps_conj keeps_kept_image keeps_store rollback_not_state active_apart)
      (use foreign_state [OF foreign_paths(1)] in \<open>auto simp: OS_RELEASE_def state_path_simp\<close>)
  then have st: "?I w'" if "?I w" "store P ?s w = (r, w')" for w r w'
    using that keepsD by blast
  have rest: "F w'" if w: "?I w" "recorded P (journaled name v) w"
    and run: "carry_out P ?s name version request candidate (Some v) w = (r, w')" for w w' r
  proof -
    from w have os: "stays OS_RELEASE u w" and co: "coherent w" by (auto simp: kept_image_def)
    have R: "rollback_path name v w = rollback_path name v u" by (rule rollback_path_stays [OF os])
    have un: "undisturbed P name v w"
      using c scope_stays [OF os] by (simp add: careful_def undisturbed_def R)
    note fb = journaled_falls_back [OF j]
    have "undisturbed P name v w \<longrightarrow> stays (rollback_path name v w) w w \<and> stays OS_RELEASE w w"
      using co by simp
    from keepsD [OF retaining.keeps_carry_out [OF fb] this run] un R
    have k: "stays (rollback_path name v u) w w'" "stays OS_RELEASE w w'" by simp_all
    have "faithful P \<and> tame P state_path \<longrightarrow> recorded P (journaled name v) w" using w(2) by blast
    from keepsD [OF recording.keeps_carry_out [OF fb] this run] fa
    have "recorded P (journaled name v) w'" by simp
    moreover from w(1) k(1) have "kept_image name v Bs u w'"
      by (auto simp: kept_image_def stays_def dest: frame_survives)
    moreover from os k(2) have "stays OS_RELEASE u w'" by (rule stays_trans)
    ultimately show ?thesis by (simp add: F_def fallback_ready_def)
  qed
  have "hoare ?I (store P ?s) (\<lambda>r. case r of Inl e \<Rightarrow> ?I
      | Inr (_ :: Product_Type.unit) \<Rightarrow> \<lambda>w. ?I w \<and> recorded P (journaled name v) w) ?I"
  proof (rule hoareI)
    fix w r w'
    assume w: "?I w" "store P ?s w = (Done r, w')"
    with st have "?I w'" by blast
    moreover have "recorded P (journaled name v) w'" if "r = Inr y" for y
      using store_records [of P "journaled name v" ?s w w', OF fa(1) j] w that by (simp add: kept_image_def)
    ultimately show "(case r of Inl e \<Rightarrow> ?I | Inr (_ :: Product_Type.unit) \<Rightarrow>
        \<lambda>w. ?I w \<and> recorded P (journaled name v) w) w'"
      by (cases r) simp_all
  qed (use st in blast)
  then have "hoare ?I (mapping_err (io_failure Staging []) (store P ?s))
      (\<lambda>r. case r of Inl e \<Rightarrow> F | Inr (_ :: Product_Type.unit) \<Rightarrow>
        \<lambda>w. ?I w \<and> recorded P (journaled name v) w) F"
    by (intro hoare_mapping_err) (erule hoare_weaken_result, use IF in \<open>simp_all\<close>)
  moreover have "hoare (\<lambda>w. ?I w \<and> recorded P (journaled name v) w)
      (carry_out P ?s name version request candidate (Some v)) (\<lambda>_. F) F"
    using rest by (intro hoareI) blast+
  ultimately show ?thesis
    unfolding promote_def Let_def
    by (intro hoare_and_then [where R = "\<lambda>_ w. ?I w \<and> recorded P (journaled name v) w"]) simp_all
qed

lemma hoare_and_then_keeps:
  assumes "keeps I m" "\<And>w. I w \<Longrightarrow> F w" "\<And>x. hoare I (f x) (\<lambda>_. F) F"
  shows "hoare I (and_then m f) (\<lambda>_. F) F"
  by (rule hoare_and_then [where R = "\<lambda>_. I"], rule hoare_weaken_result [OF hoare_keeps_Ok [OF assms(1)]])
    (simp_all add: assms)

lemma hoare_transact:
  fixes P :: "('e, 'v) platform" and u :: "'e world"
  assumes c: "careful P name v u" and s: "well_ordered s" "Option.bind (state_get s name) active_version = Some v"
    and B: "bytes_at u (active_path name u) = Some B" "length B < 2 ^ 64"
    and G: "exists_path u (rollback_path name v u) \<Longrightarrow> survives u (rollback_path name v u) (\<lambda>z. z = Some G)"
  defines "F \<equiv> fallback_ready P name v {B, G} u"
  shows "hoare (untouched name v u) (transact P s name version request candidate) (\<lambda>_. F) F"
proof -
  let ?U = "untouched name v u"
  have UF: "?U w \<Longrightarrow> F w" for w by (simp add: F_def fallback_ready_def untouched_def)
  have IF: "stays (active_path name u) u w \<and> stays OS_RELEASE u w \<Longrightarrow> F w" for w
    by (simp add: F_def fallback_ready_def)
  note reading = keeps_intros steady_untouched obeys_untouched [OF c]
  have out: "keeps ?U (outgoing_size name previous)" for previous
    unfolding outgoing_size_def by (intro reading)
  have ret_out: "hoare ?U (retain_outgoing name (Some v)) (\<lambda>r. case r of Inl _ \<Rightarrow> F
      | Inr (_ :: Product_Type.unit) \<Rightarrow> \<lambda>w. kept_image name v {B, G} u w \<and>
          stays (active_path name u) u w \<and> stays OS_RELEASE u w) F"
    by (rule hoare_weaken_result [OF hoare_retain_outgoing [OF B G]]) (simp_all add: IF)
  show ?thesis
    unfolding transact_def Let_def s(2)
    by (intro hoare_and_then_keeps UF keeps_if reading out)
      (auto intro!: hoare_ret UF hoare_and_then [OF ret_out hoare_promote [OF c s(1), of "{B, G}", folded F_def]])
qed

lemma survives_stays: "stays p u w \<Longrightarrow> survives u p Q \<Longrightarrow> survives w p Q"
  unfolding stays_def by (blast intro: frame_survives)

lemma survives_power_loss_some:
  "recorded P A w \<Longrightarrow> power_loss w w' \<Longrightarrow> faults w' = [] \<Longrightarrow>
     \<exists>s. A s \<and> load_state P w' = (Done (Ok s), w')"
  using survives_power_loss [of w state_path] load_state_reads [of P _ w']
  by (fastforce simp: recorded_def)

text \<open>
  An extension in service: the record on disk is \<open>s\<close> and says that version \<open>v\<close> of \<open>name\<close> is active,
  with a known-good version; the active image, the identity of the base and, if there is one, the
  retained image of \<open>v\<close> are safely on disk.
\<close>

definition in_service ::
  "('e, 'v) platform \<Rightarrow> string \<Rightarrow> string \<Rightarrow> state \<Rightarrow> string \<Rightarrow> string \<Rightarrow> 'e world \<Rightarrow> bool" where
  "in_service P name v s B G w \<longleftrightarrow>
     coherent w \<and> reads_as P s (bytes_at w state_path) \<and> well_ordered s \<and>
     (case state_get s name of None \<Rightarrow> False
      | Some e \<Rightarrow> active_version e = Some v \<and> known_good_version e \<noteq> None) \<and>
     length B < 2 ^ 64 \<and> survives w (active_path name w) (\<lambda>z. z = Some B) \<and>
     survives w OS_RELEASE (\<lambda>z. z = bytes_at w OS_RELEASE) \<and>
     (exists_path w (rollback_path name v w) \<longrightarrow>
        survives w (rollback_path name v w) (\<lambda>z. z = Some G))"

text \<open>A failure that is injected does not pretend that a file is missing.\<close>

definition honest :: "fault list \<Rightarrow> bool" where
  "honest fs \<longleftrightarrow> list_all (\<lambda>f. case f of Fails e _ \<Rightarrow> kind e \<noteq> NotFound | _ \<Rightarrow> True) fs"

lemma load_state_cases:
  assumes "load_state P w = (q, w')" "honest (faults w)" "reads_as P s (bytes_at w state_path)"
  obtains fs where "w' = w\<lparr>faults := fs\<rparr>" "q = Done (Ok s) \<or> (\<exists>e. q = Done (Err e)) \<or> (\<exists>x. q = Stopped x)"
proof -
  have "w' = w\<lparr>faults := tl (faults w)\<rparr> \<and>
      (q = Done (Ok s) \<or> (\<exists>e. q = Done (Err e)) \<or> (\<exists>x. q = Stopped x))"
    using assms
    by (cases "faults w"; cases "bytes_at w state_path")
      (auto simp: load_state_def bind_def fs_read_def prim_def ret_def honest_def reads_as_def
        not_found_def split: fault.splits if_splits)
  then show ?thesis using that by blast
qed

lemma hoare_activate_extension:
  assumes c: "careful P name v u" and sv: "in_service P name v s B G u" and h: "honest (faults u)"
    and run: "activate_extension P name version request u = (r, w')"
  shows "fallback_ready P name v {B, G} u w'"
proof -
  let ?F = "fallback_ready P name v {B, G} u"
  from sv have co: "coherent u" and rd: "reads_as P s (bytes_at u state_path)" and so: "well_ordered s"
    and B: "length B < 2 ^ 64" "bytes_at u (active_path name u) = Some B"
    and G: "exists_path u (rollback_path name v u) \<Longrightarrow> survives u (rollback_path name v u) (\<lambda>z. z = Some G)"
    by (auto simp: in_service_def dest: survives_now)
  from sv obtain e where e: "state_get s name = Some e" "active_version e = Some v" "known_good_version e \<noteq> None"
    by (auto simp: in_service_def split: option.splits)
  have UF: "untouched name v u w \<Longrightarrow> ?F w" for w by (simp add: fallback_ready_def untouched_def)
  obtain q w1 where l: "load_state P u = (q, w1)" by (cases "load_state P u")
  from load_state_cases [OF l h rd] obtain fs where w1: "w1 = u\<lparr>faults := fs\<rparr>"
    and q: "q = Done (Ok s) \<or> (\<exists>e. q = Done (Err e)) \<or> (\<exists>x. q = Stopped x)" .
  have U: "untouched name v u u" using co by (simp add: untouched_def same_slots_def)
  have U1: "untouched name v u w1" unfolding w1 by (rule steadyD [OF steady_untouched U])
  have skip: "adopt_unrecorded P s name w = (Done (Ok s), w)" for w
    using e by (simp add: adopt_unrecorded_def bind_reads ret_def)
  show ?thesis
  proof (cases "q = Done (Ok s) \<and> replay s name request = None \<and> exists_path w1 (candidate_path name version w1)")
    case True
    then have "transact P s name version request (candidate_path name version w1) w1 = (r, w')"
      using run l skip
      by (simp add: activate_extension_def and_then_run mapping_err_def bind_run ret_def bind_reads)
    with hoareD [OF hoare_transact [OF c so _ B(2,1) G] U1] hoareD_stop [OF hoare_transact [OF c so _ B(2,1) G] U1]
    show ?thesis using e by (cases r) auto
  next
    case False
    with run l q have "w' = w1"
      by (auto simp: activate_extension_def and_then_def mapping_err_def bind_def ret_def reads_def
          split: option.splits if_splits)
    with U1 show ?thesis by (simp add: UF)
  qed
qed


text \<open>A platform whose programs do nothing to the world, and one whose records are numbered.\<close>

definition inert :: "('e, 'v) platform \<Rightarrow> bool" where
  "inert P \<longleftrightarrow> (\<forall>c. \<exists>x. exec P c = ret x) \<and> (\<forall>c. \<exists>x. spawn P c = ret x) \<and> (\<forall>i. \<exists>x. try_wait P i = ret x) \<and>
     (\<forall>i. \<exists>x. kill P i = ret x) \<and> (\<forall>i. \<exists>x. wait P i = ret x)"

lemma inert_keeps:
  assumes "inert P"
  shows "keeps I (exec P c)" "keeps I (spawn P a)" "keeps I (try_wait P i)" "keeps I (kill P i)" "keeps I (wait P i)"
proof -
  from assms obtain x1 x2 x3 x4 x5 where
    "exec P c = ret x1" "spawn P a = ret x2" "try_wait P i = ret x3" "kill P i = ret x4" "wait P i = ret x5"
    unfolding inert_def by metis
  then show "keeps I (exec P c)" "keeps I (spawn P a)" "keeps I (try_wait P i)" "keeps I (kill P i)" "keeps I (wait P i)"
    by (simp_all add: keeps_ret)
qed

lemma views_scope [simp]:
  "scope (w\<lparr>clock := c\<rparr>) = scope w" "scope (w\<lparr>console := x\<rparr>) = scope w"
  "exists_path (w\<lparr>clock := c\<rparr>) p = exists_path w p" "exists_path (w\<lparr>console := x\<rparr>) p = exists_path w p"
  by (simp_all add: scope_def os_version_def os_release_def exists_path_def bytes_at_def now_def)

lemma inert_careful:
  assumes "inert P" "faithful P" "plain name" "plain v" "plain (scope u)"
  shows "careful P name v u"
proof -
  have t: "tame P p" for p using assms(1) by (simp add: tame_def inert_keeps)
  have "keeps (same_slots name v u) (sleep d)" "keeps (same_slots name v u) (say l)" for d l
    by (simp_all add: keeps_def sleep_def say_def same_slots_def active_path_def Let_def)
  with assms t show ?thesis
    by (simp add: careful_def undisturbed_def obeys_def inert_keeps)
qed

definition numbered :: "state list \<Rightarrow> string \<Rightarrow> (unit, unit) platform" where
  "numbered ss out =
     sample_platform\<lparr>
       exec := (\<lambda>_. ret (Ok \<lparr>output_code = Some 0, output_success = True, output_stdout = out, output_stderr = []\<rparr>)),
       encode_state := (\<lambda>s. case find (\<lambda>i. ss ! i = s) [0..<length ss] of
         Some i \<Rightarrow> Ok (replicate i CHR ''#'') | None \<Rightarrow> Err ''unknown state''),
       decode_state := (\<lambda>b. if b \<noteq> [] \<and> length b \<le> length ss then Ok (ss ! (length b - 1)) else Err ''unknown text'')\<rparr>"

lemma numbered_inert: "inert (numbered ss out)"
  by (auto simp: inert_def numbered_def sample_platform_def)

lemma numbered_faithful: "faithful (numbered ss out)"
  by (auto simp: faithful_def numbered_def find_Some_iff Suc_leI split: option.splits)

definition bench_state :: state where
  "bench_state = entry ''a'' (\<lambda>e. e\<lparr>required := True, active_version := Some ''1'',
     known_good_version := Some ''1'', candidate_version := Some ''2'', phase := Staged\<rparr>) default_state"

definition bench_platform :: "(unit, unit) platform" where
  "bench_platform = numbered [bench_state, entry ''a'' (activating ''2'' None (Some ''1'')) bench_state]
     (''Avail'' @ [CHR 0x0A] @ ''99999999'' @ [CHR 0x0A])"

text \<open>Version 1 of \<open>a\<close> is active on base 9, and version 2 is staged.\<close>

definition bench_file :: "string \<Rightarrow> inode" where
  "bench_file b = \<lparr>cached = b, synced = b, mode = 420\<rparr>"

definition bench :: "fault list \<Rightarrow> unit world" where
  "bench fs =
     \<lparr>live = [(''/etc/os-release'', 0), (''/var/lib/carbide/agent/state.json'', 1),
        (''/var/lib/extensions/a_9.raw'', 2), (''/var/lib/extensions/a_9.raw.2.candidate'', 3),
        (''/var/lib/extensions/a_9.raw.1.rollback'', 4), (''/usr/lib/carbide/health.d/a.conf'', 5)],
      older = [], inodes = (\<lambda>i. bench_file ([''VERSION_ID=9'', [CHR 0x0A], ''old'', ''new'', ''old'',
        ''[Extension]'' @ [CHR 0x0A] @ ''Unit=x''] ! i)), fresh = 6,
      dirs = [''/var/lib/extensions'', ''/var/lib/carbide/agent'', ''/etc'', ''/''], faults = fs,
      clock = 0, lock_taken = False, lock_fd = None, console = [], outside = ()\<rparr>"

lemma bench_coherent: "coherent (bench fs)"
  by (auto simp: coherent_def points_def versions_def bench_def temporary_def ends_with_def
      starts_with_def split: if_splits)

lemma bench_paths:
  "scope (bench fs) = ''9''" "active_path ''a'' (bench fs) = ''/var/lib/extensions/a_9.raw''"
  "rollback_path ''a'' ''1'' (bench fs) = ''/var/lib/extensions/a_9.raw.1.rollback''"
  by code_simp+

lemma bench_in_service: "in_service bench_platform ''a'' ''1'' bench_state ''old'' ''old'' (bench fs)"
proof -
  have st: "map_of (live (bench fs)) state_path = Some 1" by code_simp
  have "decode_state bench_platform [CHR 0x0A] = Ok bench_state"
    by (simp add: bench_platform_def numbered_def)
  then have "reads_as bench_platform bench_state (bytes_at (bench fs) state_path)"
    using st by (simp add: reads_as_def bytes_at_def now_def) (simp add: bench_def bench_file_def)
  moreover have "survives (bench fs) ''/var/lib/extensions/a_9.raw'' (\<lambda>z. z = Some ''old'')"
    "survives (bench fs) ''/var/lib/extensions/a_9.raw.1.rollback'' (\<lambda>z. z = Some ''old'')"
    "survives (bench fs) OS_RELEASE (\<lambda>z. z = bytes_at (bench fs) OS_RELEASE)"
    by (simp_all add: survives_def past_def versions_def bench_def bench_file_def OS_RELEASE_def bytes_at_def now_def)
  ultimately show ?thesis
    unfolding in_service_def bench_paths
    by (simp add: bench_coherent) (simp add: bench_state_def)
qed

lemma bench_careful: "careful bench_platform ''a'' ''1'' (bench fs)"
  unfolding bench_platform_def
  by (rule inert_careful [OF numbered_inert numbered_faithful]) (unfold bench_paths, code_simp+)



section \<open>Recovery\<close>

lemma install_active_Ok:
  assumes "coherent w" "bytes_at w src = Some b" "length b < 2 ^ 64" "src \<noteq> legacy_active_path name"
    and run: "install_active src name w = (Done (Ok ()), w')"
  shows "published b (scoped_active_path name (scope w)) w'"
proof -
  let ?T = "scoped_active_path name (scope w)" and ?L = "legacy_active_path name"
  obtain v where v: "coherent v" "bytes_at v src = Some b" "durable_copy src ?T v = (Done (Ok ()), w')"
  proof (cases "?L \<noteq> ?T \<and> exists_path w ?L")
    case True
    with run obtain v where r: "durable_remove ?L w = (Done (Ok ()), v)" "durable_copy src ?T v = (Done (Ok ()), w')"
      by (auto simp: install_active_def Let_def bind_reads and_then_Ok_iff)
    have "stays src w w" using assms(1) by simp
    from keepsD [OF keeps_durable_remove [OF assms(4)] this r(1)] assms(2) that r(2)
    show ?thesis by (auto simp: stays_def frame_bytes_at)
  next
    case False
    with run that assms(1,2) show ?thesis by (auto simp: install_active_def Let_def bind_reads)
  qed
  have "stays ?T v v \<and> bytes_at v src = Some b" using v by simp
  from hoareD [OF hoare_durable_copy [OF temporary_slots(1) assms(3)] this v(3)] show ?thesis by simp
qed

lemma terminal_not_Ok: "terminal P s name m w \<noteq> (Done (Ok x, s'), w')"
proof -
  have "returns (\<lambda>(r, _). r \<noteq> Ok x) (terminal P s name m)"
    unfolding terminal_def Let_def by (intro returns_intros) simp_all
  then show ?thesis by (auto dest: returnsD)
qed

lemma unit_result [simp]: "(\<forall>e. r \<noteq> Inl e) \<longleftrightarrow> r = Inr ()" "r \<noteq> Inr () \<longleftrightarrow> (\<exists>e. r = Inl e)"
  by (cases r; simp)+

lemma bind_say: "bind (say l) f w = f () (w\<lparr>console := console w @ [l]\<rparr>)"
  by (simp add: bind_def say_def)

text \<open>A recovery that reports success went through all of its steps.\<close>

lemma recover_Ok:
  assumes "recover P s name reason w = (Done (Ok (), s'), w')"
  obtains v w0 w1 w2 w3 w4 where "Option.bind (state_get s name) known_good_version = Some v"
    "exists_path w (rollback_path name v w)" "w0 = w\<lparr>console := console w0\<rparr>"
    "store P (entry name (reverting reason) s) w0 = (Done (Ok ()), w1)"
    "stop_current P name w1 = (Done (), w2)"
    "restore_image P name reason v (rollback_path name v w) w2 = (Done (Ok ()), w3)"
    "store P s' w3 = (Done (Ok ()), w4)"
    "s' = entry name (recovered reason v) (entry name (reverting reason) s)"
    "\<And>I. keeps I (prune_candidates name None) \<Longrightarrow> keeps I (prune_rollbacks name (Some v)) \<Longrightarrow>
       (\<And>l. keeps I (say l)) \<Longrightarrow> I w4 \<Longrightarrow> I w'"
proof -
  let ?s = "entry name (reverting reason) s"
  obtain v where v: "Option.bind (state_get s name) known_good_version = Some v"
      "exists_path w (rollback_path name v w)"
      "recover_onto P s name reason v (rollback_path name v w) w = (Done (Ok (), s'), w')"
    using assms by (auto simp: recover_def bind_reads terminal_not_Ok split: option.splits if_splits)
  define w0 where "w0 = w\<lparr>console := console w @ [name @ '': '' @ reason @ ''; reverting to '' @ v]\<rparr>"
  from v(3) have run: "bind (store P ?s) (\<lambda>stored. case stored of
        Inl e \<Rightarrow> ret (Err (reason @ ''; could not record recovery before replacing the image: '' @ io_text e), ?s)
      | Inr _ \<Rightarrow> bind (stop_current P name) (\<lambda>_. bind (restore_image P name reason v (rollback_path name v w))
          (\<lambda>restored. case restored of Inl m \<Rightarrow> terminal P ?s name m
            | Inr _ \<Rightarrow> finish_recovery P ?s name reason v))) w0 = (Done (Ok (), s'), w')"
    by (simp only: recover_onto_def Let_def bind_say w0_def)
  then obtain q w1 where st: "store P ?s w0 = (Done q, w1)" by (auto simp only: bind_Done_iff)
  with run have q: "q = Ok ()" by (cases q) (simp_all add: bind_run st ret_def)
  with run st obtain w2 r w3 where sc: "stop_current P name w1 = (Done (), w2)"
      "restore_image P name reason v (rollback_path name v w) w2 = (Done r, w3)"
      and rest: "(case r of Inl m \<Rightarrow> terminal P ?s name m
        | Inr _ \<Rightarrow> finish_recovery P ?s name reason v) w3 = (Done (Ok (), s'), w')"
    by (auto simp: bind_run bind_Done_iff)
  from rest have r: "r = Ok ()" and fin: "finish_recovery P ?s name reason v w3 = (Done (Ok (), s'), w')"
    by (cases r; simp add: terminal_not_Ok)+
  let ?s2 = "entry name (recovered reason v) ?s"
  from fin obtain q2 w4 where st2: "store P ?s2 w3 = (Done q2, w4)"
    by (auto simp only: finish_recovery_def Let_def bind_Done_iff)
  with fin have q2: "q2 = Ok ()" by (cases q2) (simp_all add: finish_recovery_def Let_def bind_run ret_def)
  with fin st2 have rest2: "bind (prune_candidates name None) (\<lambda>pc.
            bind (case pc of Inr _ \<Rightarrow> ret ()
              | Inl e \<Rightarrow> say (name @ '': recovered, but candidate cleanup failed: '' @ io_text e)) (\<lambda>_.
            bind (prune_rollbacks name (Some v)) (\<lambda>pr.
            bind (case pr of Inr _ \<Rightarrow> ret ()
              | Inl e \<Rightarrow> say (name @ '': recovered, but rollback cleanup failed: '' @ io_text e)) (\<lambda>_.
            bind (say (name @ '': recovered onto '' @ v)) (\<lambda>_.
            ret (Ok () :: string + Product_Type.unit, ?s2)))))) w4 = (Done (Ok (), s'), w')" (is "?rest w4 = _")
    by (simp add: finish_recovery_def Let_def bind_run)
  have "returns (\<lambda>x. x = (Ok (), ?s2)) ?rest" by (intro returns_intros refl)
  with rest2 have s': "s' = ?s2" by (auto dest: returnsD)
  have "I w'" if "keeps I (prune_candidates name None)" "keeps I (prune_rollbacks name (Some v))"
      "\<And>l. keeps I (say l)" "I w4" for I
  proof -
    have "keeps I ?rest" by (intro keeps_intros that)
    with that(4) rest2 show ?thesis using keepsD by blast
  qed
  moreover have "w0 = w\<lparr>console := console w0\<rparr>" by (simp add: w0_def)
  ultimately show ?thesis using that v sc st st2 q r q2 s' by blast
qed

lemma obeys_through:
  assumes "tame P p" and "\<And>w. I w \<Longrightarrow> coherent w" and "\<And>w w'. I w \<Longrightarrow> stays p w w' \<Longrightarrow> I w'"
  shows "obeys P I"
  using assms(1) unfolding obeys_def tame_def
  by (intro conjI allI keeps_through_stays [OF _ assms(2,3)] keeps_sleep keeps_say) blast+

lemma published_stays: "published b t w \<Longrightarrow> stays t w w' \<Longrightarrow> published b t w'"
proof -
  assume p: "published b t w" and s: "stays t w w'"
  then obtain k where "past w t = {Some (whole b k)}" by (auto simp: published_def)
  with s have "past w' t \<subseteq> {Some (whole b k)}" "coherent w'" by (simp_all add: stays_def frame_def)
  with now_in_past [of w' t] show ?thesis unfolding published_def by (metis empty_iff subset_singletonD)
qed

lemma published_coherent: "published b t w \<Longrightarrow> coherent w"
  by (simp add: published_def)

lemma obeys_published: "tame P t \<Longrightarrow> obeys P (published b t)"
  by (rule obeys_through [OF _ published_coherent published_stays])

lemma keeps_published: "(\<And>u. keeps (stays t u) m) \<Longrightarrow> keeps (published b t) m"
  by (rule keeps_through_stays [OF _ published_coherent published_stays])

lemma steady_published: "steady (published b t)"
  by (simp add: steady_def published_def)

lemma restore_image_published:
  assumes run: "restore_image P name reason v img w = (Done (Ok ()), w')"
    and w: "coherent w" "bytes_at w img = Some b" "length b < 2 ^ 64" "img \<noteq> legacy_active_path name"
    and t: "tame P (scoped_active_path name (scope w))"
  shows "published b (scoped_active_path name (scope w)) w'"
proof -
  let ?I = "published b (scoped_active_path name (scope w))"
  from and_then_Ok_iff [THEN iffD1, OF run [unfolded restore_image_def]]
  obtain y w1 where w1: "install_active img name w = (Done (Ok y), w1)"
    and rest: "and_then (mapping_err
       (\<lambda>e. reason @ ''; restored '' @ v @ '' but could not refresh extensions: '' @ io_text e)
       (sysext_refresh P)) (\<lambda>_.
     and_then (mapping_err
       (\<lambda>e. reason @ ''; restored '' @ v @ '' but could not reload systemd: '' @ io_text e)
       (daemon_reload P)) (\<lambda>_.
     and_then (mapping_err
       (\<lambda>e. reason @ ''; restored '' @ v @ '' has no usable ruleset: '' @ show_config_error e)
       (load_named name)) (\<lambda>r.
     mapping_err (\<lambda>e. reason @ ''; known-good '' @ v @ '' also failed: '' @ e) (healthy_now P r)))) w1 =
       (Done (Ok ()), w')" (is "?rest w1 = _")
    unfolding mapping_err_Ok_iff by blast
  note ob = obeys_published [OF t, of b]
  have "keeps ?I ?rest"
    unfolding healthy_now_def by (intro keeps_intros steady_published ob)
  moreover have "?I w1" using install_active_Ok [OF w] w1 by simp
  ultimately show ?thesis using rest keepsD by blast
qed

lemma scoped_file_part:
  assumes "plain name" "plain (scope u)"
  shows "\<not> ends_with ''.candidate'' (lossy (file_part (scoped_active_path name (scope u))))"
    "\<not> ends_with ''.rollback'' (lossy (file_part (scoped_active_path name (scope u))))"
proof -
  let ?n = "name @ ''_'' @ scope u @ ''.raw''"
  have "lossy (file_part (scoped_active_path name (scope u))) = ?n"
    unfolding scoped_active_path_def by (rule plain_slot(2)) (simp_all only: assms plain_append plain_literals simp_thms append_is_Nil_conv list.distinct)
  moreover have "ends_with ''.raw'' ?n" by (simp only: append_assoc [symmetric] ends_with_append)
  moreover have "\<not> ends_with ''.raw'' ''.candidate''" "\<not> ends_with ''.raw'' ''.rollback''" by code_simp+
  ultimately show "\<not> ends_with ''.candidate'' (lossy (file_part (scoped_active_path name (scope u))))"
    "\<not> ends_with ''.rollback'' (lossy (file_part (scoped_active_path name (scope u))))"
    using ends_with_suffix_cases [of "''.raw''" ?n] by auto
qed

lemma scoped_not_state: "scoped_active_path name os \<noteq> state_path" "scoped_active_path name os \<noteq> state_staging"
  using foreign_slots(1) [OF foreign_paths(2)] temporary_slots(1) state_paths(1) by metis+

text \<open>
  C5: a recovery that reports success is complete and durable. After any later power loss the
  active image is the retained image of the known-good version, byte for byte, and the record that
  is loaded is the one that \<open>recover\<close> returned: recovered, on the known-good version, which stays the
  version to fall back to, and with no candidate.
\<close>

theorem recovery_durable:
  assumes "undisturbed P name v w" "tame P (scoped_active_path name (scope w))" "coherent w"
    and "falls_back name v s" "bytes_at w (rollback_path name v w) = Some G" "length G < 2 ^ 64"
    and "faithful P" "tame P state_path"
    and "recover P s name reason w = (Done (Ok (), s'), w')" "power_loss w' w''" "faults w'' = []"
  shows "bytes_at w'' (scoped_active_path name (scope w)) = Some G \<and>
    load_state P w'' = (Done (Ok s'), w'') \<and>
    (\<exists>e. state_get s' name = Some e \<and> phase e = Recovered \<and> active_version e = Some v \<and>
       known_good_version e = Some v \<and> candidate_version e = None)"
proof -
  let ?R = "rollback_path name v w" and ?T = "scoped_active_path name (scope w)"
  note un = assms(1)
  then have plain: "plain name" "plain (scope w)" by (simp_all add: undisturbed_def)
  obtain v' w0 w1 w2 w3 w4 where v': "Option.bind (state_get s name) known_good_version = Some v'"
    and "exists_path w (rollback_path name v' w)"
    and w0: "w0 = w\<lparr>console := console w0\<rparr>" "store P (entry name (reverting reason) s) w0 = (Done (Ok ()), w1)"
    and w12: "stop_current P name w1 = (Done (), w2)"
    and w23: "restore_image P name reason v' (rollback_path name v' w) w2 = (Done (Ok ()), w3)"
    and w34: "store P s' w3 = (Done (Ok ()), w4)"
    and s': "s' = entry name (recovered reason v') (entry name (reverting reason) s)"
    and last: "\<And>I. keeps I (prune_candidates name None) \<Longrightarrow> keeps I (prune_rollbacks name (Some v')) \<Longrightarrow>
       (\<And>l. keeps I (say l)) \<Longrightarrow> I w4 \<Longrightarrow> I w'"
    by (rule recover_Ok [OF assms(9)], rule that) blast+
  from v' assms(4) have [simp]: "v' = v" by (simp add: falls_back_def)
  let ?I = "\<lambda>x. undisturbed P name v w \<longrightarrow> stays ?R w x \<and> stays OS_RELEASE w x"
  from w0(1) obtain x where "w0 = w\<lparr>console := x\<rparr>" by blast
  then have "?I w0" by (simp add: assms(3))
  from keepsD [OF retaining.storing this w0(2)] have "?I w1"
    using journaled_steps(1) [OF assms(4)] by simp
  from keepsD [OF retaining.keeps_stop_current this w12] un have st: "stays ?R w w2" "stays OS_RELEASE w w2"
    by auto
  then have "bytes_at w2 ?R = Some G" "coherent w2" "scope w2 = scope w"
    using assms(5) by (auto simp: scope_stays) (auto simp: stays_def dest: frame_bytes_at)
  with restore_image_published [OF w23, of G] assms(2,6) have "published G ?T w3" by (simp add: slots_differ(3) [THEN not_sym])
  moreover have "keeps (published G ?T) (store P s')"
    by (intro keeps_published keeps_store scoped_not_state)
  ultimately have p4: "published G ?T w4" using w34 keepsD by blast
  have "published G ?T w'"
    by (rule last [of "published G ?T", OF _ _ _ p4]; intro keeps_published keeps_prune_candidates keeps_prune_rollbacks_other
        keeps_say scoped_file_part plain)
  from survives_power_loss [OF published_survives [OF this] assms(10)]
  have "bytes_at w'' ?T = Some G" .
  moreover have "recorded P (\<lambda>x. x = s') w4"
    by (rule store_records [OF assms(7) _ published_coherent [OF \<open>published G ?T w3\<close>] w34]) simp
  then have "recorded P (\<lambda>x. x = s') w'"
    by (rule last [of "recorded P (\<lambda>x. x = s')", rotated 3]; intro keeps_recorded keeps_foreign foreign_paths keeps_say)
  from survives_power_loss_some [OF this assms(10,11)] have "load_state P w'' = (Done (Ok s'), w'')" by auto
  moreover have "\<exists>e. state_get s' name = Some e \<and> phase e = Recovered \<and> active_version e = Some v \<and>
       known_good_version e = Some v \<and> candidate_version e = None"
    using assms(4) unfolding s' by (auto simp: recovered_def reverting_def falls_back_def split: Option.bind_splits)
  ultimately show ?thesis by blast
qed

text \<open>The same extension after a failed activation: its retained image is put back.\<close>

definition recovering_platform :: "(unit, unit) platform" where
  "recovering_platform =
     (let s1 = entry ''a'' (reverting ''r'') bench_state
      in numbered [s1, entry ''a'' (recovered ''r'' ''1'') s1] [])"

lemma recovery_durable_witness:
  "case recover recovering_platform bench_state ''a'' ''r'' (bench []) of (r, w') \<Rightarrow>
     bytes_at (w'\<lparr>older := []\<rparr>) ''/var/lib/extensions/a_9.raw'' = Some ''old'' \<and>
     load_state recovering_platform (w'\<lparr>older := []\<rparr>) =
       (Done (Ok (entry ''a'' (recovered ''r'' ''1'') (entry ''a'' (reverting ''r'') bench_state))), w'\<lparr>older := []\<rparr>)"
proof -
  let ?s = "entry ''a'' (recovered ''r'' ''1'') (entry ''a'' (reverting ''r'') bench_state)"
  let ?P = recovering_platform and ?run = "recover recovering_platform bench_state ''a'' ''r'' (bench [])"
  have "case ?run of (r, w') \<Rightarrow> r = Done (Ok (), ?s) \<and> faults w' = []"
    by code_simp
  then obtain w' where w': "?run = (Done (Ok (), ?s), w')" "faults (w'\<lparr>older := []\<rparr>) = []"
    by (cases ?run) auto
  have P: "inert ?P" "faithful ?P"
    by (simp_all add: recovering_platform_def Let_def numbered_inert numbered_faithful)
  have c: "careful ?P ''a'' ''1'' (bench [])"
    by (rule inert_careful [OF P]) (unfold bench_paths, code_simp+)
  have t: "tame ?P p" for p using P(1) by (simp add: tame_def inert_keeps)
  have "falls_back ''a'' ''1'' bench_state"
    by (simp add: falls_back_def bench_state_def)
  moreover have "bytes_at (bench []) (rollback_path ''a'' ''1'' (bench [])) = Some ''old''"
    unfolding bench_paths by (simp add: bench_def bytes_at_def now_def bench_file_def)
  moreover have "undisturbed ?P ''a'' ''1'' (bench [])" using c by (simp add: careful_def)
  moreover have "scoped_active_path ''a'' (scope (bench [])) = ''/var/lib/extensions/a_9.raw''"
    unfolding bench_paths by code_simp
  ultimately show ?thesis
    using recovery_durable [OF _ t bench_coherent _ _ _ P(2) t w'(1) power_loss_live w'(2), of "''1''" "''old''"]
    unfolding w'(1) by simp
qed

end
