(* ===== verification/Base_Staging.thy ===== *)
theory Base_Staging
  imports Recovery
begin

text \<open>
  What staging a base guarantees, \<open>stage_base\<close> of \<open>agent/src/ops.rs\<close>: the next boot is pointed at a
  base only if every extension in use has a trusted image for it.
\<close>

section \<open>Runs without injected failures\<close>

definition quiet :: "('e world \<Rightarrow> bool) \<Rightarrow> bool" where
  "quiet K \<longleftrightarrow> (\<forall>w. K w \<longrightarrow> faults w = [])"

lemma keeps_quiet: "quiet K \<Longrightarrow> (\<And>w. snd (act w) = w) \<Longrightarrow> keeps K (prim nothing act)"
  unfolding keeps_def prim_def quiet_def by (auto split: prod.splits) (metis snd_conv)

lemma keeps_quiet_reading:
  assumes "quiet K"
  shows "keeps K (fs_open p)" "keeps K (fs_open_dir p)" "keeps K (fs_read p)"
    "keeps K (fs_read_to_string p)" "keeps K (fs_read_dir p)" "keeps K (fs_next_entry p)"
  unfolding reading_defs
  by (rule keeps_quiet [OF assms]; simp split: option.split)+

text \<open>
  A world reached from \<open>u\<close> without failures, in which nothing happened to the paths \<open>ps\<close> and the
  directory of the images is there.
\<close>

definition calm :: "path list \<Rightarrow> 'e world \<Rightarrow> 'e world \<Rightarrow> bool" where
  "calm ps u w \<longleftrightarrow> faults w = [] \<and> EXTENSIONS_DIR \<in> set (dirs w) \<and> (\<forall>p \<in> set ps. stays p u w)"

lemma quiet_calm: "quiet (calm ps u)"
  by (simp add: quiet_def calm_def)

lemma calm_bytes: "calm ps u w \<Longrightarrow> p \<in> set ps \<Longrightarrow> bytes_at w p = bytes_at u p"
  by (simp add: calm_def stays_def frame_bytes_at)

lemma calm_os_version: "calm ps u w \<Longrightarrow> OS_RELEASE \<in> set ps \<Longrightarrow> os_version w = os_version u"
  by (intro os_version_cong calm_bytes)

text \<open>Programs that fail no system call of the agent's, and leave the directory and \<open>ps\<close> alone.\<close>

definition considerate :: "('e, 'v) platform \<Rightarrow> path list \<Rightarrow> bool" where
  "considerate P ps \<longleftrightarrow>
     obeys P (\<lambda>w. faults w = []) \<and> obeys P (\<lambda>w. EXTENSIONS_DIR \<in> set (dirs w)) \<and> (\<forall>p \<in> set ps. tame P p)"

lemma considerate_calm: "considerate P ps \<Longrightarrow> obeys P (calm ps u)"
  by (simp add: considerate_def calm_def [abs_def] tame_def obeys_def keeps_def sleep_def say_def)

section \<open>The extensions in use\<close>

lemma set_image_names:
  "set (image_names suffix names ps) =
     set names \<union> {n. n \<noteq> [] \<and> (\<exists>p \<in> set ps. lossy (file_part p) = n @ suffix)}"
proof (induction ps arbitrary: names)
  case (Cons p ps)
  show ?case
  proof (cases "strip_suffix suffix (lossy (file_part p))")
    case None
    then have "lossy (file_part p) \<noteq> n @ suffix" for n
      using strip_suffix_Some_iff [of suffix "lossy (file_part p)" n] by auto
    with None Cons show ?thesis by simp
  next
    case (Some m)
    then have "lossy (file_part p) = n @ suffix \<longleftrightarrow> n = m" for n
      using strip_suffix_Some_iff [of suffix "lossy (file_part p)" m] by auto
    moreover have "image_names suffix names (p # ps) =
        image_names suffix (if m \<noteq> [] \<and> m \<notin> set names then names @ [m] else names) ps"
      by (simp only: image_names.simps Some option.case if_distrib)  simp
    ultimately show ?thesis using Cons by auto
  qed
qed simp

lemma next_entry_quiet: "faults w = [] \<Longrightarrow> fs_next_entry p w = (Done (Ok p), w)"
  by (simp add: fs_next_entry_def prim_def)

lemma readable_entries_quiet: "faults w = [] \<Longrightarrow> readable_entries ps w = (Done ps, w)"
  by (induction ps) (simp_all add: ret_def bind_def next_entry_quiet)

lemma installed_quiet:
  assumes "faults w = []" "EXTENSIONS_DIR \<in> set (dirs w)"
  shows "installed_extensions_for base w =
    (Done (sort (image_names (''_'' @ base @ ''.raw'') []
      (filter (\<lambda>p. parent p = Some EXTENSIONS_DIR) (map fst (live w) @ dirs w)))), w)"
  using assms by (simp add: installed_extensions_for_def fs_read_dir_def prim_def bind_def ret_def
      readable_entries_quiet)

text \<open>
  \<open>in_use P running n w\<close>: the record requires \<open>n\<close>, or there is an image of \<open>n\<close> for the running base.
\<close>

definition in_use :: "('e, 'v) platform \<Rightarrow> string \<Rightarrow> string \<Rightarrow> 'e world \<Rightarrow> bool" where
  "in_use P running n w \<longleftrightarrow>
     (\<exists>s. reads_as P s (bytes_at w state_path) \<and> n \<in> set (state_required s)) \<or>
     (version_valid n \<and> version_valid running \<and> bytes_at w (scoped_active_path n running) \<noteq> None)"

lemma installed_complete:
  assumes "faults w = []" "EXTENSIONS_DIR \<in> set (dirs w)" "version_valid n" "version_valid running"
    and "bytes_at w (scoped_active_path n running) \<noteq> None"
    and "installed_extensions_for running w = (Done names, w')"
  shows "n \<in> set names"
proof -
  let ?f = "n @ ''_'' @ running @ ''.raw''"
  have p: "plain n" "plain running" "n \<noteq> []"
    using version_valid_plain [OF assms(3)] version_valid_plain [OF assms(4)] assms(3)
    by (simp_all add: version_valid_def)
  have f: "plain ?f" "?f \<noteq> []" by (simp_all only: p plain_append plain_literals) simp
  let ?p = "scoped_active_path n running"
  have "?p \<in> fst ` set (live w)"
    using assms(5) by (auto simp: bytes_at_def now_def dest: map_of_SomeD intro: rev_image_eqI)
  moreover have slot: "parent ?p = Some EXTENSIONS_DIR" "lossy (file_part ?p) = ?f"
    using plain_slot [OF f] by (simp_all add: scoped_active_path_def)
  ultimately have "?p \<in> set (filter (\<lambda>p. parent p = Some EXTENSIONS_DIR) (map fst (live w) @ dirs w))" by simp
  with slot(2) p(3) have "n \<in> set (image_names (''_'' @ running @ ''.raw'') []
      (filter (\<lambda>p. parent p = Some EXTENSIONS_DIR) (map fst (live w) @ dirs w)))"
    unfolding set_image_names by blast
  with assms(6) show ?thesis unfolding installed_quiet [OF assms(1,2)] by auto
qed

lemma keeps_extensions_in_use:
  assumes "obeys P (calm ps u)"
  shows "keeps (calm ps u) (installed_extensions_for running)" "keeps (calm ps u) (merged_extensions P)"
    "keeps (calm ps u) (load_state P)"
proof -
  have "keeps (calm ps u) (readable_entries es)" for es
    by (induction es) (auto intro!: keeps_intros keeps_quiet_reading quiet_calm)
  then show "keeps (calm ps u) (installed_extensions_for running)"
    unfolding installed_extensions_for_def by (intro keeps_intros keeps_quiet_reading quiet_calm)
  show "keeps (calm ps u) (merged_extensions P)"
    unfolding merged_extensions_def by (intro keeps_intros assms)
  show "keeps (calm ps u) (load_state P)"
    unfolding load_state_def by (intro keeps_intros keeps_quiet_reading quiet_calm)
qed

lemma extensions_in_use_complete:
  assumes "obeys P (calm ps u)" "state_path \<in> set ps" "scoped_active_path n running \<in> set ps"
    and "calm ps u w" "in_use P running n u" "extensions_in_use P running w = (Done names, w')"
  shows "n \<in> set names"
proof -
  from assms(6) obtain i w1 m w2 l w3 where run: "installed_extensions_for running w = (Done i, w1)"
    "merged_extensions P w1 = (Done m, w2)" "load_state P w2 = (Done l, w3)"
    and "names = remdups_adj (sort (i @ (case m of Inr names \<Rightarrow> names | Inl _ \<Rightarrow> []) @
      (case l of Inr s \<Rightarrow> state_required s | Inl _ \<Rightarrow> [])))"
    unfolding extensions_in_use_def bind_Done_iff by (auto simp: ret_def)
  then have names: "set names = set i \<union> set (case m of Inr names \<Rightarrow> names | Inl _ \<Rightarrow> []) \<union>
      set (case l of Inr s \<Rightarrow> state_required s | Inl _ \<Rightarrow> [])"
    by auto
  note k = keeps_extensions_in_use [OF assms(1)]
  have w2: "calm ps u w2" using keepsD [OF k(2) keepsD [OF k(1) assms(4) run(1)] run(2)] .
  from assms(5) show ?thesis unfolding in_use_def
  proof
    assume "\<exists>s. reads_as P s (bytes_at u state_path) \<and> n \<in> set (state_required s)"
    then obtain s where "reads_as P s (bytes_at w2 state_path)" "n \<in> set (state_required s)"
      using calm_bytes [OF w2 assms(2)] by auto
    with load_state_reads [of P s w2] w2 run(3) names show ?thesis by (auto simp: calm_def)
  next
    assume "version_valid n \<and> version_valid running \<and> bytes_at u (scoped_active_path n running) \<noteq> None"
    with installed_complete [OF _ _ _ _ _ run(1)] calm_bytes [OF assms(4,3)] assms(4) names
    show ?thesis by (auto simp: calm_def)
  qed
qed

section \<open>What is checked of them\<close>

text \<open>
  What \<open>systemd-dissect\<close> tells about the image at a path: it validates only signed images, and it
  prints only what they declare.
\<close>

definition trustworthy ::
  "('e, 'v) platform \<Rightarrow> path \<Rightarrow> (string \<Rightarrow> bool) \<Rightarrow> (string \<Rightarrow> image_release \<Rightarrow> bool) \<Rightarrow> bool" where
  "trustworthy P img trusted declares \<longleftrightarrow>
     (\<forall>x f y. validate_image P img x = (Done (Ok f), y) \<and> finished_ok f \<longrightarrow>
        (\<exists>b. bytes_at x img = Some b \<and> trusted b)) \<and>
     (\<forall>x r y. read_image_release P img x = (Done (Ok r), y) \<and> r \<noteq> no_release \<longrightarrow>
        (\<exists>b. bytes_at x img = Some b \<and> declares b r))"

definition vouched ::
  "(string \<Rightarrow> bool) \<Rightarrow> (string \<Rightarrow> image_release \<Rightarrow> bool) \<Rightarrow> string \<Rightarrow> string \<Rightarrow> 'e world \<Rightarrow> bool" where
  "vouched trusted declares n t w \<longleftrightarrow>
     (\<exists>b r. bytes_at w (scoped_active_path n t) = Some b \<and> trusted b \<and> declares b r \<and>
        release_name r = Some n \<and> release_base r = Some t)"

lemma vouched_calm:
  "calm ps u w \<Longrightarrow> scoped_active_path n t \<in> set ps \<Longrightarrow> vouched trusted declares n t w = vouched trusted declares n t u"
  by (simp add: vouched_def calm_bytes)

lemma keeps_inspecting:
  assumes "obeys P I"
  shows "keeps I (validate_image P img)" "keeps I (read_image_release P img)"
  unfolding validate_image_def read_image_release_def by (intro keeps_intros assms)+

lemma keeps_verify_images: "obeys P I \<Longrightarrow> keeps I (verify_images P t names)"
  by (induction names) (auto intro!: keeps_intros keeps_inspecting)

lemma verify_images_vouched:
  assumes "obeys P (calm ps u)" "scoped_active_path n t \<in> set ps"
    and "trustworthy P (scoped_active_path n t) trusted declares"
    and "n \<in> set names" "calm ps u w" "verify_images P t names w = (Done (Ok ()), w')"
  shows "vouched trusted declares n t u"
  using assms(4-6)
proof (induction names arbitrary: w)
  case (Cons m names)
  let ?img = "scoped_active_path m t"
  from Cons.prems(3) obtain f w1 rel w2 where run: "validate_image P ?img w = (Done (Ok f), w1)" "finished_ok f"
      "read_image_release P ?img w1 = (Done (Ok rel), w2)" "release_name rel = Some m" "release_base rel = Some t"
      "verify_images P t names w2 = (Done (Ok ()), w')"
    by (auto simp: Let_def bind_reads and_then_Ok_iff mapping_err_Ok_iff ret_def split: if_splits)
  have w1: "calm ps u w1" using keepsD [OF keeps_inspecting(1) [OF assms(1)] Cons.prems(2) run(1)] .
  have w2: "calm ps u w2" using keepsD [OF keeps_inspecting(2) [OF assms(1)] w1 run(3)] .
  show ?case
  proof (cases "n = m")
    case True
    have "rel \<noteq> no_release" using run(4) by (auto simp: no_release_def)
    with assms(3) run(1-3) True obtain b b' where "bytes_at w ?img = Some b" "trusted b"
      "bytes_at w1 ?img = Some b'" "declares b' rel"
      unfolding trustworthy_def by blast
    with calm_bytes [OF Cons.prems(2)] calm_bytes [OF w1] assms(2) True run(4,5) show ?thesis
      by (auto simp: vouched_def)
  next
    case False
    with Cons.IH [OF _ w2 run(6)] Cons.prems(1) show ?thesis by simp
  qed
qed simp

lemma keeps_verify_extensions:
  assumes "obeys P (calm ps u)"
  shows "keeps (calm ps u) (extensions_in_use P running)" "keeps (calm ps u) (verify_extensions_for P t)"
proof -
  show 1: "keeps (calm ps u) (extensions_in_use P running)" for running
    unfolding extensions_in_use_def by (intro keeps_bind keeps_ret keeps_extensions_in_use [OF assms])
  show "keeps (calm ps u) (verify_extensions_for P t)"
    unfolding verify_extensions_for_def by (intro keeps_intros 1 keeps_verify_images assms)
qed

text \<open>The paths that the argument about an extension looks at.\<close>

abbreviation watched :: "string \<Rightarrow> string \<Rightarrow> string \<Rightarrow> path list" where
  "watched n running t \<equiv> [state_path, OS_RELEASE, scoped_active_path n running, scoped_active_path n t]"

lemma verified_means_vouched:
  assumes "obeys P (calm (watched n running t) u)"
    and "trustworthy P (scoped_active_path n t) trusted declares"
    and "os_version u = Some running" "running \<noteq> t" "in_use P running n u"
    and "calm (watched n running t) u w" "verify_extensions_for P t w = (Done (Ok ()), w')"
  shows "vouched trusted declares n t u"
proof -
  have "os_version w = Some running" using calm_os_version [OF assms(6)] assms(3) by simp
  with assms(4,7) obtain names w1 where run: "extensions_in_use P running w = (Done names, w1)"
    "verify_images P t names w1 = (Done (Ok ()), w')"
    by (auto simp: verify_extensions_for_def bind_reads bind_Done_iff)
  have "n \<in> set names" by (rule extensions_in_use_complete [OF assms(1) _ _ assms(6,5) run(1)]) simp_all
  moreover have "calm (watched n running t) u w1"
    using keepsD [OF keeps_verify_extensions(1) [OF assms(1)] assms(6) run(1)] .
  ultimately show ?thesis
    using verify_images_vouched [OF assms(1) _ assms(2) _ _ run(2)] by simp
qed

section \<open>Some of the programs\<close>

text \<open>The platform on which only the programs of \<open>A\<close> can be run: what runs no other does the same on it.\<close>

definition limited :: "(string \<Rightarrow> bool) \<Rightarrow> ('e, 'v) platform \<Rightarrow> ('e, 'v) platform" where
  "limited A P = P\<lparr>exec := (\<lambda>c. if A (program c) then exec P c else ret (Err not_found)),
     spawn := (\<lambda>_. ret (Err not_found)), try_wait := (\<lambda>_. ret (Err not_found)),
     kill := (\<lambda>_. ret (Err not_found)), wait := (\<lambda>_. ret (Err not_found))\<rparr>"

lemma limited_run: "A prog \<Longrightarrow> run (limited A P) prog args = run P prog args"
  by (simp add: limited_def run_def plain_command_def)

lemma limited_run_mutating: "A prog \<Longrightarrow> run_mutating (limited A P) prog args = run_mutating P prog args"
  unfolding run_mutating_def
  by (rule arg_cong [where f = "bind (reads lock_fd)"])
    (simp add: limited_def plain_command_def retain_operation_lock_def fun_eq_iff split: option.split)

lemma limited_json [simp]:
  "json_parse (limited A P) = json_parse P" "json_get (limited A P) = json_get P"
  "json_str (limited A P) = json_str P" "json_array (limited A P) = json_array P"
  "decode_state (limited A P) = decode_state P"
  by (simp_all add: limited_def)

lemma limited_parsing [simp]:
  "parse_sysext_release (limited A P) = parse_sysext_release P" "merged_in (limited A P) = merged_in P"
  "load_state (limited A P) = load_state P" "reads_as (limited A P) = reads_as P"
  unfolding parse_sysext_release_def [abs_def] merged_in_def [abs_def] load_state_def reads_as_def [abs_def]
    limited_json
  by (rule refl)+

lemma limited_dissect:
  assumes "A DISSECT"
  shows "validate_image (limited A P) = validate_image P" "read_image_release (limited A P) = read_image_release P"
    "trustworthy (limited A P) = trustworthy P" "verify_images (limited A P) t names = verify_images P t names"
proof -
  have r: "capture (limited A P) DISSECT = capture P DISSECT"
    by (intro ext) (simp add: capture_def limited_run assms)
  show 1: "validate_image (limited A P) = validate_image P" "read_image_release (limited A P) = read_image_release P"
    unfolding validate_image_def [abs_def] read_image_release_def [abs_def] r limited_parsing by (rule refl)+
  show "trustworthy (limited A P) = trustworthy P" unfolding trustworthy_def [abs_def] 1 by (rule refl)
  show "verify_images (limited A P) t names = verify_images P t names"
  proof (induction names)
    case (Cons n names)
    show ?case unfolding verify_images.simps 1 Cons by (rule refl)
  qed simp
qed

lemma limited_verify:
  assumes "A DISSECT" "A ''/usr/bin/systemd-sysext''"
  shows "verify_extensions_for (limited A P) = verify_extensions_for P"
proof -
  have "run (limited A P) ''/usr/bin/systemd-sysext'' = run P ''/usr/bin/systemd-sysext''"
    by (intro ext) (simp add: limited_run assms(2))
  then show ?thesis
    unfolding verify_extensions_for_def [abs_def] extensions_in_use_def [abs_def] merged_extensions_def
      limited_json limited_parsing limited_dissect(4) [of A P, OF assms(1)]
    by (simp only:)
qed

lemma limited_in_use [simp]: "in_use (limited A P) = in_use P"
  unfolding in_use_def [abs_def] limited_parsing by (rule refl)

lemma limited_select:
  assumes "A ''/usr/bin/bootctl''"
  shows "select_entry (limited A P) = select_entry P"
proof -
  have "set_oneshot (limited A P) = set_oneshot P"
    by (intro ext) (simp add: set_oneshot_def capture_mutating_def limited_run_mutating assms)
  then show ?thesis unfolding select_entry_def [abs_def] by (simp only:)
qed

lemma obeys_limited:
  assumes "\<And>c. A (program c) \<Longrightarrow> keeps I (exec P c)" "\<And>d. keeps I (sleep d)" "\<And>l. keeps I (say l)"
  shows "obeys (limited A P) I"
  using assms by (simp add: obeys_def limited_def keeps_ret)

section \<open>Staging a base\<close>

text \<open>No injected failures, a coherent file system, and the directory of the images.\<close>

definition orderly :: "'e world \<Rightarrow> bool" where
  "orderly w \<longleftrightarrow> coherent w \<and> faults w = [] \<and> EXTENSIONS_DIR \<in> set (dirs w)"

lemma quiet_orderly: "quiet orderly"
  by (simp add: quiet_def orderly_def)

lemma calm_self: "orderly w \<Longrightarrow> calm ps w w"
  by (simp add: orderly_def calm_def)

lemma calm_orderly: "calm ps u w \<Longrightarrow> ps \<noteq> [] \<Longrightarrow> orderly w"
  by (cases ps) (auto simp: calm_def orderly_def stays_def)

lemma keeps_boot_entries:
  assumes "quiet K"
  shows "keeps K pending_base_version" "keeps K (pending_boot_entry t)"
proof -
  have "keeps K (pending_entries prefix found es)" for prefix found es
    by (induction es arbitrary: found) (auto intro!: keeps_intros keeps_quiet_reading assms)
  then show "keeps K pending_base_version"
    unfolding pending_base_version_def by (intro keeps_intros keeps_quiet_reading assms)
  have "keeps K (boot_entry_in prefix es)" for prefix es
    by (induction es) (auto simp: Let_def intro!: keeps_intros keeps_quiet_reading assms)
  then show "keeps K (pending_boot_entry t)"
    unfolding pending_boot_entry_def by (intro keeps_intros keeps_quiet_reading assms)
qed

lemma keeps_select_entry:
  assumes "obeys P K" "quiet K"
  shows "keeps K (select_entry P t)"
  unfolding select_entry_def set_oneshot_def by (intro keeps_intros keeps_boot_entries assms)

lemma keeps_verify_orderly: "obeys P orderly \<Longrightarrow> keeps orderly (verify_extensions_for P t)"
proof -
  assume o: "obeys P orderly"
  have r: "keeps orderly (readable_entries es)" for es
    by (induction es) (auto intro!: keeps_intros keeps_quiet_reading quiet_orderly)
  show ?thesis
    unfolding verify_extensions_for_def extensions_in_use_def installed_extensions_for_def merged_extensions_def
      load_state_def
    by (intro keeps_intros keeps_quiet_reading quiet_orderly keeps_verify_images r o)
qed

text \<open>A success with a pending base: the check, then the selection, in the worlds between.\<close>

lemma stage_target_pending:
  assumes "stage_target P t w = (Done (Ok sb), w')" "base_pending sb" "obeys P orderly" "orderly w"
  obtains w1 w2 where "orderly w1" "verify_extensions_for P t w1 = (Done (Ok ()), w2)"
    "select_entry P t w2 = (Done (Ok sb), w')"
proof -
  from assms(1) obtain a wa f wb where 1: "verify_extensions_for P t w = (Done (Ok a), wa)"
      "sysupdate_base P (Some t) wa = (Done (Ok f), wb)" "finished_ok f"
    and rest: "bind (sync_disks P) (\<lambda>_.
         and_then (mapping_err (\<lambda>e. at Checking (new_failure Failed e)) pending_base_version) (\<lambda>pending.
           case pending of
             None \<Rightarrow> ret (Ok \<lparr>base_version = Some t, base_pending = False, base_boot_entry = None\<rparr>)
           | Some p \<Rightarrow>
               if p \<noteq> t
               then ret (Err (at Checking (new_failure Precondition
                 (''requested base '' @ t @ '', but sysupdate left '' @ p @ '' pending''))))
               else and_then (verify_extensions_for P p) (\<lambda>_. select_entry P p))) wb = (Done (Ok sb), w')"
    unfolding stage_target_def and_then_Ok_iff mapping_err_Ok_iff
    by (auto simp: ret_def split: if_splits)
  from rest obtain z wc pe wd where 2: "sync_disks P wb = (Done z, wc)" "pending_base_version wc = (Done (Ok pe), wd)"
    and last: "(case pe of
             None \<Rightarrow> ret (Ok \<lparr>base_version = Some t, base_pending = False, base_boot_entry = None\<rparr>)
           | Some p \<Rightarrow>
               if p \<noteq> t
               then ret (Err (at Checking (new_failure Precondition
                 (''requested base '' @ t @ '', but sysupdate left '' @ p @ '' pending''))))
               else and_then (verify_extensions_for P p) (\<lambda>_. select_entry P p)) wd = (Done (Ok sb), w')"
    unfolding bind_Done_iff and_then_Ok_iff mapping_err_Ok_iff by blast
  from last assms(2) have "and_then (verify_extensions_for P t) (\<lambda>_. select_entry P t) wd = (Done (Ok sb), w')"
    by (auto simp: ret_def split: option.splits if_splits)
  then obtain x we where 3: "verify_extensions_for P t wd = (Done (Ok x), we)" "select_entry P t we = (Done (Ok sb), w')"
    unfolding and_then_Ok_iff by blast
  have "orderly wa" by (rule keepsD [OF keeps_verify_orderly [OF assms(3)] assms(4) 1(1)])
  then have "orderly wb" using 1(2) keepsD [OF keeps_capture_mutating [OF assms(3)]] by (auto simp: sysupdate_base_def)
  then have "orderly wc" using 2(1) keepsD [OF keeps_capture_mutating [OF assms(3)]] by (auto simp: sync_disks_def)
  then have "orderly wd" using 2(2) keepsD [OF keeps_boot_entries(1) [OF quiet_orderly]] by blast
  then show ?thesis using 3 that by simp
qed

text \<open>
  What the programs that stage a base do to the agent's files: none fails a call, breaks the file system or
  removes the directory of the images, and only \<open>systemd-sysupdate\<close> may touch the watched paths.
\<close>

definition only_sysupdate :: "('e, 'v) platform \<Rightarrow> path list \<Rightarrow> bool" where
  "only_sysupdate P ps \<longleftrightarrow>
     obeys P orderly \<and>
     (\<forall>c u. program c \<noteq> SYSUPDATE \<longrightarrow> (\<forall>p \<in> set ps. keeps (stays p u) (exec P c)))"

lemma keeps_calm_exec:
  assumes "ps \<noteq> []" "keeps orderly m" "\<And>p. p \<in> set ps \<Longrightarrow> keeps (stays p u) m"
  shows "keeps (calm ps u) m"
proof -
  have "calm ps u w \<longleftrightarrow> orderly w \<and> (\<forall>p \<in> set ps. stays p u w)" for w
    using assms(1) stays_coherent by (cases ps) (auto simp: calm_def orderly_def)
  with assms(2,3) show ?thesis by (simp add: keeps_def)
qed

lemma only_sysupdate_calm:
  assumes "only_sysupdate P ps" "ps \<noteq> []"
  shows "obeys (limited (\<lambda>prog. prog \<noteq> SYSUPDATE) P) (calm ps u)"
  using assms(1)
  by (intro obeys_limited keeps_calm_exec [OF assms(2)])
    (auto simp: only_sysupdate_def obeys_def keeps_sleep keeps_say)

lemma keeps_available_base_version: "obeys P I \<Longrightarrow> keeps I (available_base_version P)"
  unfolding available_base_version_def Let_def by (intro keeps_intros)

lemma stage_base_pending:
  assumes "stage_base P version w = (Done (Ok sb), w')" "base_pending sb" "obeys P orderly" "orderly w"
  obtains t w1 where "version = None \<or> version = Some t" "orderly w1"
    "stage_target P t w1 = (Done (Ok sb), w')"
proof -
  from assms(1) obtain target w1 where
    1: "(case version of Some v \<Rightarrow> ret (Ok (Some v))
         | None \<Rightarrow> mapping_err (\<lambda>e. at Checking (new_failure Failed e)) (available_base_version P)) w =
       (Done (Ok target), w1)"
    "(case target of
         None \<Rightarrow> ret (Ok \<lparr>base_version = None, base_pending = False, base_boot_entry = None\<rparr>)
       | Some t \<Rightarrow> stage_target P t) w1 = (Done (Ok sb), w')"
    unfolding stage_base_def by (auto simp: and_then_Ok_iff ret_def split: if_splits)
  from 1(2) assms(2) obtain t where t: "target = Some t" "stage_target P t w1 = (Done (Ok sb), w')"
    by (auto simp: ret_def split: option.splits)
  have "orderly w1"
    using 1(1) assms(4) keepsD [OF keeps_available_base_version [OF assms(3)], of w]
    by (auto simp: mapping_err_Ok_iff ret_def split: option.splits)
  with that t 1(1) show ?thesis by (auto simp: ret_def split: option.splits)
qed

lemma select_entry_Ok: "select_entry P t w = (Done (Ok sb), w') \<Longrightarrow> base_version sb = Some t"
  by (auto simp: select_entry_def bind_Done_iff and_then_Ok_iff ret_def split: option.splits if_splits)



text \<open>
  Base 10 staged from base 9: \<open>a\<close> is required and installed. The tool that inspects images accepts the bytes
  \<open>new\<close>, which declare \<open>a\<close> for base 10; a JSON value is a list of lines.
\<close>

definition dissected :: "command \<Rightarrow> 'e world \<Rightarrow> bool" where
  "dissected c w \<longleftrightarrow> bytes_at w (last (arguments c)) = Some ''new''"

definition staging_platform :: "(unit, string list) platform" where
  "staging_platform =
     \<lparr>exec = (\<lambda>c w. (Done (Ok (if program c = DISSECT
          then \<lparr>output_code = None, output_success = dissected c w,
            output_stdout = ''SYSEXT_ID=a'' @ [CHR 0x0A] @ ''VERSION_ID=10'', output_stderr = []\<rparr>
          else \<lparr>output_code = Some 0, output_success = True, output_stdout = [], output_stderr = []\<rparr>)), w)),
      spawn = (\<lambda>_. ret (Err not_found)), try_wait = (\<lambda>_. ret (Err not_found)), kill = (\<lambda>_. ret (Err not_found)),
      wait = (\<lambda>_. ret (Err not_found)), json_parse = (\<lambda>t. Ok (str_lines t)), json_get = (\<lambda>v _. Some v),
      json_str = (\<lambda>v. Some (concat v)), json_u64 = (\<lambda>_. None), json_array = (\<lambda>v. Some (map (\<lambda>x. [x]) v)),
      value_str = (\<lambda>s. [s]), value_bool = (\<lambda>_. []), value_strs = id, encode_state = (\<lambda>_. Err ''''),
      decode_state = (\<lambda>b. if b = ''{}'' then Ok bench_state else Err ''corrupt''), encode_reply = (\<lambda>_. None)\<rparr>"

definition staging_world :: "string \<Rightarrow> unit world" where
  "staging_world img =
     \<lparr>live = [(''/etc/os-release'', 0), (''/var/lib/carbide/agent/state.json'', 1),
        (''/var/lib/extensions/a_9.raw'', 2), (''/var/lib/extensions/a_10.raw'', 3),
        (''/boot/EFI/Linux/os_10+3.efi'', 4)],
      older = [], inodes = (\<lambda>i. bench_file ([''IMAGE_ID=os'' @ [CHR 0x0A] @ ''VERSION_ID=9'', ''{}'', ''old'', img, []] ! i)),
      fresh = 5, dirs = [''/var/lib/extensions'', ''/boot/EFI/Linux'', ''/''], faults = [],
      clock = 0, lock_taken = False, lock_fd = None, console = [], outside = ()\<rparr>"

lemma staging_orderly: "orderly (staging_world img)"
  by (auto simp: orderly_def coherent_def points_def versions_def staging_world_def temporary_def ends_with_def
      starts_with_def EXTENSIONS_DIR_def split: if_splits)

lemma staging_keeps:
  "keeps I (exec staging_platform c)" "keeps I (spawn staging_platform a)" "keeps I (try_wait staging_platform i)"
  "keeps I (kill staging_platform i)" "keeps I (wait staging_platform i)"
  by (simp_all add: staging_platform_def keeps_def ret_def)

lemma staging_obeys: "(\<And>d. keeps I (sleep d)) \<Longrightarrow> (\<And>l. keeps I (say l)) \<Longrightarrow> obeys staging_platform I"
  by (simp add: obeys_def staging_keeps)

lemma staging_considerate: "considerate staging_platform ps" "only_sysupdate staging_platform ps"
  by (auto simp: considerate_def only_sysupdate_def tame_def staging_keeps intro!: staging_obeys)
    (simp_all add: keeps_def sleep_def say_def orderly_def)

definition staged_slot :: path where
  "staged_slot = ''/var/lib/extensions/a_10.raw''"

lemma staging_slot: "scoped_active_path ''a'' ''10'' = staged_slot" "lossy staged_slot = staged_slot"
  by code_simp+

definition staged_release :: image_release where
  "staged_release = \<lparr>release_name = Some ''a'', release_base = Some ''10'', release_version = None\<rparr>"

lemma staging_release:
  "parse_sysext_release staging_platform (lossy (''SYSEXT_ID=a'' @ [CHR 0x0A] @ ''VERSION_ID=10'')) = staged_release"
  by code_simp

lemma staging_trustworthy:
  "trustworthy staging_platform staged_slot (\<lambda>b. b = ''new'') (\<lambda>b r. b = ''new'' \<and> r = staged_release)"
proof -
  have run: "last as = staged_slot \<Longrightarrow> capture staging_platform DISSECT as x =
      (Done (Ok (finish DISSECT as \<lparr>output_code = None, output_success = (bytes_at x staged_slot = Some ''new''),
        output_stdout = ''SYSEXT_ID=a'' @ [CHR 0x0A] @ ''VERSION_ID=10'', output_stderr = []\<rparr>)), x)" for as x
    unfolding capture_def and_then_def run_def bind_def plain_command_def
    by (simp add: staging_platform_def dissected_def ret_def)
  show ?thesis
    unfolding trustworthy_def validate_image_def read_image_release_def staging_slot
    using staging_release
    by (auto simp: and_then_def bind_def run ret_def finish_def no_release_def split: if_splits)
qed

lemma staging_in_use:
  "bytes_at w ''/var/lib/extensions/a_9.raw'' = Some b \<Longrightarrow> in_use staging_platform ''9'' ''a'' w"
proof -
  have "scoped_active_path ''a'' ''9'' = ''/var/lib/extensions/a_9.raw''" "version_valid ''a''" "version_valid ''9''"
    by code_simp+
  then show "bytes_at w ''/var/lib/extensions/a_9.raw'' = Some b \<Longrightarrow> ?thesis" by (simp add: in_use_def)
qed



text \<open>
  A record that cannot be read counts for no extension: with the state file corrupt, a base is selected
  although \<open>b\<close>, which the record required, has no image for it.
\<close>

lemma corrupt_record_requires_nothing:
  "case stage_base (staging_platform\<lparr>decode_state := (\<lambda>_. Err ''corrupt'')\<rparr>) (Some ''10'')
      (set_names [(''/etc/os-release'', 0), (''/var/lib/carbide/agent/state.json'', 1), (''/boot/EFI/Linux/os_10+3.efi'', 4)]
         (staging_world ''new'')) of
     (r, w') \<Rightarrow> case r of Done q \<Rightarrow> (case q of Inl _ \<Rightarrow> False | Inr sb \<Rightarrow> base_pending sb) | Stopped _ \<Rightarrow> False"
  by code_simp

end
