(* ===== verification/Bookkeeping.thy ===== *)
theory Bookkeeping
  imports Base_Staging
begin

text \<open>
  What every operation of the agent keeps. \<open>bookkeeping\<close> states what an invariant has to stand of the
  programs, of the files the agent writes and of its record; from that follows that every command of the
  socket and of the command line keeps it, and in \<open>attended\<close>, which adds the operation lock, that whole
  requests and runs of the binary do. Interpreted here for the record on disk, in \<open>Exclusion\<close> for the lock
  and in \<open>Confinement\<close> for everything else on disk.
\<close>

section \<open>Results under an invariant\<close>

text \<open>\<open>yields I R m\<close>: under \<open>I\<close>, \<open>m\<close> keeps \<open>I\<close>, whether it returns or not, and returns what satisfies \<open>R\<close>.\<close>

definition yields :: "('e world \<Rightarrow> bool) \<Rightarrow> ('a \<Rightarrow> bool) \<Rightarrow> ('e, 'a) io \<Rightarrow> bool" where
  "yields I R m \<longleftrightarrow> (\<forall>w. I w \<longrightarrow> I (snd (m w)) \<and> (\<forall>x. fst (m w) = Done x \<longrightarrow> R x))"

lemma yields_keeps: "yields I R m \<Longrightarrow> keeps I m"
  by (simp add: yields_def keeps_def)

lemma yieldsD: "yields I R m \<Longrightarrow> I w \<Longrightarrow> m w = (Done x, w') \<Longrightarrow> I w' \<and> R x"
  by (simp add: yields_def) (metis fst_conv snd_conv)

lemma yields_any: "keeps I m \<Longrightarrow> yields I (\<lambda>_. True) m"
  by (simp add: yields_def keeps_def)

lemma yields_returns: "keeps I m \<Longrightarrow> returns R m \<Longrightarrow> yields I R m"
  by (simp add: yields_def keeps_def returns_def) (metis prod.collapse)

lemma yields_mono: "yields I S m \<Longrightarrow> (\<And>x. S x \<Longrightarrow> R x) \<Longrightarrow> yields I R m"
  by (simp add: yields_def)

lemma yields_ret: "R x \<Longrightarrow> yields I R (ret x)"
  by (simp add: yields_def ret_def)

lemma yields_bind: "yields I S m \<Longrightarrow> (\<And>x. S x \<Longrightarrow> yields I R (f x)) \<Longrightarrow> yields I R (bind m f)"
  unfolding yields_def bind_def by (force split: prod.splits outcome.splits)

lemma yields_bind_keeps: "keeps I m \<Longrightarrow> (\<And>x. yields I R (f x)) \<Longrightarrow> yields I R (bind m f)"
  by (rule yields_bind [OF yields_any])

lemma yields_and_then:
  "yields I (\<lambda>r. case r of Inl e \<Rightarrow> R (Inl e) | Inr x \<Rightarrow> S x) m \<Longrightarrow> (\<And>x. S x \<Longrightarrow> yields I R (f x)) \<Longrightarrow>
     yields I R (and_then m f)"
  unfolding and_then_def by (erule yields_bind) (auto intro: yields_ret split: sum.splits)

lemma yields_and_then_keeps:
  "keeps I m \<Longrightarrow> (\<And>e. R (Inl e)) \<Longrightarrow> (\<And>x. yields I R (f x)) \<Longrightarrow> yields I R (and_then m f)"
  unfolding and_then_def by (rule yields_bind_keeps) (auto intro: yields_ret split: sum.splits)

lemma yields_and_then_info:
  "yields I (\<lambda>r. case r of Inl e \<Rightarrow> True | Inr x \<Rightarrow> S x) m \<Longrightarrow> (\<And>x. S x \<Longrightarrow> yields I (\<lambda>_. True) (f x)) \<Longrightarrow>
     yields I (\<lambda>_. True) (and_then m f)"
  by (rule yields_and_then [where R = "\<lambda>_. True"])

lemma yields_if: "(b \<Longrightarrow> yields I R m) \<Longrightarrow> (\<not> b \<Longrightarrow> yields I R n) \<Longrightarrow> yields I R (if b then m else n)"
  by simp

lemma yields_cases:
  "(z = None \<Longrightarrow> yields I R m) \<Longrightarrow> (\<And>x. z = Some x \<Longrightarrow> yields I R (f x)) \<Longrightarrow>
     yields I R (case z of None \<Rightarrow> m | Some x \<Rightarrow> f x)"
  "(\<And>x. y = Inl x \<Longrightarrow> yields I R (g x)) \<Longrightarrow> (\<And>x. y = Inr x \<Longrightarrow> yields I R (h x)) \<Longrightarrow>
     yields I R (case y of Inl x \<Rightarrow> g x | Inr x \<Rightarrow> h x)"
  "(\<And>a b. q = (a, b) \<Longrightarrow> yields I R (k a b)) \<Longrightarrow> yields I R (case q of (a, b) \<Rightarrow> k a b)"
  by (auto split: option.split sum.split prod.split)

lemma yields_bind_reads: "(\<And>w. I w \<Longrightarrow> yields I R (f (g w))) \<Longrightarrow> yields I R (bind (reads g) f)"
  by (simp add: yields_def bind_reads)

lemmas yields_intros = yields_ret yields_if yields_cases yields_bind_reads

section \<open>Paths of images\<close>

definition slot_like :: "path \<Rightarrow> bool" where
  "slot_like q \<longleftrightarrow> list_ex (\<lambda>s. ends_with s q \<or> ends_with s (lossy (file_part q))) [''.raw'', ''.rollback'', ''.candidate'']"

lemma foreign_slot_like: "foreign p \<longleftrightarrow> \<not> temporary p \<and> \<not> slot_like p"
  by (auto simp: foreign_def slot_like_def)

lemma slot_like_slots: "slot_like (scoped_active_path name os)" "slot_like (legacy_active_path name)"
  "slot_like (rollback_path name v w)" "slot_like (candidate_path name v w)"
  by (simp_all add: slot_like_def slot_suffixes)

lemma slot_like_active: "slot_like (active_path name w)" "\<not> temporary (active_path name w)"
  using active_path_cases [of name w] slot_like_slots temporary_slots by metis+

lemma staging_slot_like: "slot_like (join d (name @ ''.raw''))" "\<not> temporary (join d (name @ ''.raw''))"
  "slot_like (join d (name @ ''_'' @ v @ ''.raw''))" "\<not> temporary (join d (name @ ''_'' @ v @ ''.raw''))"
proof -
  have raw: "ends_with ''.raw'' (join d (x @ ''.raw''))" for x
    by (rule join_suffix) simp_all
  have "\<not> ends_with ''.raw'' ''.new''" "\<not> ends_with ''.new'' ''.raw''" by code_simp+
  then have no: "ends_with ''.raw'' p \<Longrightarrow> \<not> ends_with ''.new'' p" for p
    using ends_with_suffix_cases [of "''.raw''" p "''.new''"] by auto
  show "slot_like (join d (name @ ''.raw''))" "\<not> temporary (join d (name @ ''.raw''))"
    using raw [of name] no by (simp_all add: slot_like_def temporary_def)
  show "slot_like (join d (name @ ''_'' @ v @ ''.raw''))" "\<not> temporary (join d (name @ ''_'' @ v @ ''.raw''))"
    using raw [of "name @ ''_'' @ v"] no by (simp_all add: slot_like_def temporary_def)
qed

lemma candidate_files_slot_like:
  "returns (\<lambda>r. case r of Inl _ \<Rightarrow> True | Inr cs \<Rightarrow> list_all slot_like cs) candidate_files"
  unfolding candidate_files_def Let_def and_then_def
  by (intro returns_intros) (auto simp: list_all_iff slot_like_def)

section \<open>The contract\<close>

text \<open>A change of an extension's record that leaves its history alone, or completes one request.\<close>

definition history_step :: "(extension_state \<Rightarrow> extension_state) \<Rightarrow> bool" where
  "history_step f \<longleftrightarrow>
     (\<forall>e. completed_requests (f e) = completed_requests e \<or>
        (\<exists>i. completed_requests (f e) = completed_requests (record_completed i e)))"

lemma completed_staged_gone: "completed_requests (staged_gone active e) = completed_requests e"
  by (simp add: staged_gone_def Let_def)

lemma completed_cong:
  "completed_requests e = completed_requests e' \<Longrightarrow>
     completed_requests (record_completed i e) = completed_requests (record_completed i e')"
  by (simp add: record_completed_def already_completed_def Let_def)

lemma history_committed: "history_step (committed_entry v request)"
proof (cases request)
  case (Some i)
  show ?thesis unfolding history_step_def
    by (auto simp: committed_entry_def Some Let_def intro!: exI [of _ i] completed_cong)
qed (simp add: history_step_def committed_entry_def Let_def)

lemma history_steps [simp]:
  "history_step (adopted v)" "history_step (failed_entry m os)" "history_step (reverting m)"
  "history_step (recovered m v)" "history_step healthy_entry" "history_step (proven v)" "history_step removed_entry"
  "history_step cleared_entry" "history_step (\<lambda>e. (cleared_entry e)\<lparr>phase := ph\<rparr>)" "history_step (staged_gone active)"
  "history_step (\<lambda>e. e\<lparr>phase := ph\<rparr>)"
  "history_step (activating v request previous)" "history_step (\<lambda>e. e\<lparr>candidate_version := c, phase := ph\<rparr>)"
  "history_step (\<lambda>e. e\<lparr>required := b\<rparr>)" "history_step (\<lambda>e. e\<lparr>required := b, phase := ph\<rparr>)"
  "history_step (\<lambda>e. e\<lparr>phase := ph, last_failure := x, last_health := y\<rparr>)"
  unfolding history_step_def
  by (simp_all add: adopted_def failed_entry_def reverting_def recovered_def healthy_entry_def proven_def removed_entry_def
      cleared_entry_def completed_staged_gone activating_def Let_def split: option.split)

locale bookkeeping =
  fixes P :: "('e, 'v) platform" and I :: "'e world \<Rightarrow> bool" and wf :: "state \<Rightarrow> bool"
  assumes obeying: "obeys P I"
    and steadily: "steady I"
    and loading: "yields I (\<lambda>r. case r of Inl _ \<Rightarrow> True | Inr s \<Rightarrow> wf s) (load_state P)"
    and storing: "wf s \<Longrightarrow> keeps I (store P s)"
    and updating: "wf s \<Longrightarrow> history_step f \<Longrightarrow> wf (entry name f s)"
    and forgetting: "wf s \<Longrightarrow> wf (snd (forget_stale_terminals c s))"
    and removing: "slot_like q \<Longrightarrow> keeps I (durable_remove q)"
    and placing: "slot_like q \<Longrightarrow> \<not> temporary q \<Longrightarrow> keeps I (durable_copy src q)"
      "slot_like q \<Longrightarrow> \<not> temporary q \<Longrightarrow> keeps I (durable_copy_file i q m)"
      "slot_like q \<Longrightarrow> \<not> temporary q \<Longrightarrow> keeps I (durable_mode q k)"
    and pruning: "keeps I (prune_candidates n keep)" "keeps I (prune_rollbacks n keep)"
      "keeps I prune_transaction_files" "keeps I (clear_staged n)" "keeps I candidate_files"
    and making: "keeps I (fs_create_dir_all STAGING_DIR)"
begin

lemmas basics = keeps_bind_reads keeps_intros obeying steadily storing removing placing pruning making obeys_rest [OF obeying]
  slot_like_slots temporary_slots slot_like_active staging_slot_like

lemmas states = yields_intros yields_bind [OF loading] yields_bind_keeps yields_and_then_keeps updating

lemma keeps_healthy_now: "keeps I (healthy_now P r)"
  unfolding healthy_now_def by (intro basics)

lemma keeps_active: "keeps I (install_active img name)" "keeps I (remove_active name)"
  unfolding install_active_def remove_active_def Let_def by (intro basics)+

lemma yields_adopt_active: "wf s \<Longrightarrow> yields I (\<lambda>(_, s'). wf s') (adopt_active P s name version)"
  unfolding adopt_active_def Let_def
  by (intro states basics keeps_healthy_now) (simp_all add: updating)

lemma yields_terminal: "wf s \<Longrightarrow> yields I (\<lambda>(_, s'). wf s') (terminal P s name reason)"
  unfolding terminal_def mark_failed_def Let_def by (intro states basics) (simp_all add: updating)

lemma keeps_restore_image: "keeps I (restore_image P name reason version img)"
  unfolding restore_image_def by (intro basics keeps_active keeps_healthy_now)

lemma keeps_stop_current: "keeps I (stop_current P name)"
  unfolding stop_current_def by (intro basics)

lemma yields_finish_recovery: "wf s \<Longrightarrow> yields I (\<lambda>(_, s'). wf s') (finish_recovery P s name reason version)"
  unfolding finish_recovery_def Let_def by (intro states basics) (simp_all add: updating)

lemma yields_recover: "wf s \<Longrightarrow> yields I (\<lambda>(_, s'). wf s') (recover P s name reason)"
  unfolding recover_def recover_onto_def Let_def
  by (intro states yields_terminal yields_finish_recovery basics keeps_stop_current keeps_restore_image)
    (simp_all add: updating)

lemma keeps_merged_version: "keeps I (merged_version name)"
  unfolding merged_version_def by (intro basics)

lemma yields_adopt_merged: "wf s \<Longrightarrow> yields I (\<lambda>(_, s'). wf s') (adopt_merged P s name r)"
  unfolding adopt_merged_def by (intro states basics keeps_merged_version) (simp_all add: updating)

lemma yields_verify: "wf s \<Longrightarrow> yields I (\<lambda>(_, s'). wf s') (verify_or_recover P s name merged)"
  unfolding verify_or_recover_def
  by (intro yields_bind [OF yields_adopt_merged] states yields_recover basics keeps_healthy_now)
    (auto simp: updating)

lemma yields_gate_all: "wf s \<Longrightarrow> yields I (\<lambda>(_, s'). wf s') (gate_all P merged s names)"
proof (induction names arbitrary: s)
  case (Cons n names)
  show ?case
    unfolding gate_all.simps
    by (intro yields_bind [OF yields_verify [OF Cons.prems]] yields_bind [OF Cons.IH] states Cons.IH basics) auto
qed (simp add: yields_ret)

lemma yields_forget_stale: "wf s \<Longrightarrow> yields I wf (forget_stale s)"
proof -
  assume s: "wf s"
  have say: "keeps I (say_all ls)" for ls by (induction ls) (auto intro!: basics)
  have "wf s'" if "forget_stale_terminals v s = (c, s')" for v c s' using forgetting [OF s, of v] that by simp
  with s show ?thesis unfolding forget_stale_def by (intro states basics say) auto
qed

lemma yields_loaded:
  "yields I (\<lambda>r. case r of Inl e \<Rightarrow> True | Inr s \<Rightarrow> wf s) (mapping_err g (load_state P))"
  unfolding mapping_err_def by (rule yields_bind [OF loading]) (auto intro: yields_ret split: sum.splits)

lemma yields_and_load:
  "(\<And>s. wf s \<Longrightarrow> yields I (\<lambda>_. True) (f s)) \<Longrightarrow> yields I (\<lambda>_. True) (and_then (mapping_err g (load_state P)) f)"
  by (rule yields_and_then) (use yields_loaded [of g] in \<open>simp, blast\<close>)

lemma keeps_health_gate: "keeps I (health_gate P)"
proof (rule yields_keeps)
  show "yields I (\<lambda>_. True) (health_gate P)"
    unfolding health_gate_def
    by (intro yields_and_load yields_bind [OF yields_forget_stale] yields_bind [OF yields_gate_all] states basics yields_any)
      auto
qed

lemma yields_complete_removal: "wf s \<Longrightarrow> yields I (\<lambda>(_, s'). wf s') (complete_removal P s name)"
  unfolding complete_removal_def
  by (intro states basics keeps_active) (auto simp: updating split: sum.splits)

lemma keeps_noted: "keeps I m \<Longrightarrow> keeps I (noted what m)"
  unfolding noted_def by (intro basics)

lemma yields_recover_noted: "wf s \<Longrightarrow> yields I (\<lambda>(_, s'). wf s') (recover_noted P s name reason)"
  unfolding recover_noted_def by (intro yields_bind [OF yields_recover] states) auto

lemma yields_reconcile_phase: "wf s \<Longrightarrow> yields I (\<lambda>(_, s'). wf s') (reconcile_phase P s name ph candidate)"
proof -
  assume s: "wf s"
  have restore: "yields I (\<lambda>(_, s'). wf s') (if active then ret ([], s)
      else if (case state_get s name of Some e \<Rightarrow> required e | None \<Rightarrow> False)
      then recover_noted P s name ''active image disappeared between operations''
      else ret ([], entry name (\<lambda>e. (cleared_entry e)\<lparr>phase := Idle\<rparr>) s))" for active
    by (intro yields_if yields_ret yields_recover_noted) (simp_all add: updating s)
  show ?thesis
    unfolding reconcile_phase_def Let_def
    by (cases ph; simp only: phase.case phase.distinct simp_thms if_True if_False;
        intro yields_bind [OF yields_complete_removal] yields_bind [OF restore] yields_recover_noted states basics keeps_noted)
      (auto simp: updating s split: sum.splits)
qed

lemma yields_reconcile_all: "wf s \<Longrightarrow> yields I (\<lambda>(_, s'). wf s') (reconcile_all P s es)"
proof (induction es arbitrary: s)
  case (Cons e es)
  obtain name ph candidate known_good where e: "e = (name, ph, candidate, known_good)" by (cases e)
  show ?case
    unfolding e reconcile_all.simps
    by (intro yields_bind [OF yields_reconcile_phase [OF Cons.prems]] yields_bind [OF Cons.IH] states basics keeps_noted) auto
qed (simp add: yields_ret)

lemma keeps_clean_candidates: "keeps I (clean_candidates kept)"
proof (rule yields_keeps)
  have "list_all slot_like cs \<Longrightarrow> keeps I (remove_orphans kept cs)" for cs
    by (induction cs) (auto intro!: basics keeps_noted)
  note orphans = yields_any [OF this]
  show "yields I (\<lambda>_. True) (clean_candidates kept)"
    unfolding clean_candidates_def
    by (rule yields_bind [OF yields_returns [OF pruning(5) candidate_files_slot_like]])
      (intro states orphans; simp)
qed

lemma keeps_reconcile_state: "keeps I (reconcile_state P)"
proof (rule yields_keeps)
  show "yields I (\<lambda>_. True) (reconcile_state P)"
    unfolding reconcile_state_def
    by (intro yields_and_load yields_bind [OF yields_forget_stale] yields_bind [OF yields_reconcile_all]
        yields_bind_keeps [OF keeps_clean_candidates] states basics) auto
qed

lemma keeps_merge_candidate: "keeps I (merge_candidate P name candidate)"
  unfolding merge_candidate_def by (intro basics keeps_active)

lemma yields_prove_candidate:
  "wf s \<Longrightarrow> yields I (\<lambda>(_, s'). wf s') (prove_candidate P s name version request r)"
  unfolding prove_candidate_def Let_def by (intro states basics) (simp_all add: updating history_committed)

lemma yields_try_candidate:
  "wf s \<Longrightarrow> yields I (\<lambda>(_, _, s'). wf s') (try_candidate P s name version request candidate)"
  unfolding try_candidate_def
  by (intro yields_bind [OF yields_prove_candidate] yields_bind_keeps [OF keeps_merge_candidate] states) auto

lemma keeps_revert: "wf s \<Longrightarrow> keeps I (revert P s name reason st un)"
  unfolding revert_def Let_def by (intro basics yields_keeps [OF yields_recover])

lemma keeps_carry_out: "wf s \<Longrightarrow> keeps I (carry_out P s name version request candidate previous)"
proof (rule yields_keeps)
  assume s: "wf s"
  show "yields I (\<lambda>_. True) (carry_out P s name version request candidate previous)"
    unfolding carry_out_def
    by (rule yields_bind [OF yields_try_candidate [OF s]]) (intro states basics keeps_revert; simp)
qed

lemma yields_adopt_unrecorded:
  "wf s \<Longrightarrow> yields I (\<lambda>r. case r of Inl e \<Rightarrow> True | Inr s' \<Rightarrow> wf s') (adopt_unrecorded P s name)"
proof -
  assume s: "wf s"
  have "yields I (\<lambda>r. case r of Inl e \<Rightarrow> True | Inr s' \<Rightarrow> wf s') (case q of (res, s') \<Rightarrow>
       case res of
         Inr _ \<Rightarrow> ret (Ok s')
       | Inl (NoRuleset e) \<Rightarrow>
           bind (say (name @ '': not adopting active '' @ current @
             '', which has no usable ruleset ('' @ e @
             ''); the candidate has no known-good image to fall back to'')) (\<lambda>_. ret (Ok s'))
       | Inl e \<Rightarrow>
           ret (Err (at Checking (new_failure Failed
             (''could not adopt the active image: '' @ show_adopt_error e)))))"
    if "case q of (_, s') \<Rightarrow> wf s'" for q current
    using that by (auto split: sum.split adopt_error.split prod.split intro!: states basics)
  note adopted = yields_bind [OF yields_adopt_active [OF s] this]
  show ?thesis
    unfolding adopt_unrecorded_def
    by (intro yields_bind_keeps [OF keeps_merged_version] states adopted) (simp_all add: s)
qed

lemma keeps_promote: "wf s \<Longrightarrow> keeps I (promote P s name version request candidate previous)"
  unfolding promote_def Let_def by (intro basics keeps_carry_out) (simp_all add: updating)

lemma keeps_transact: "wf s \<Longrightarrow> keeps I (transact P s name version request candidate)"
  unfolding transact_def Let_def outgoing_size_def retain_outgoing_def by (intro basics keeps_promote)

lemma keeps_activate_extension: "keeps I (activate_extension P name version request)"
proof (rule yields_keeps)
  show "yields I (\<lambda>_. True) (activate_extension P name version request)"
    unfolding activate_extension_def
    by (intro yields_and_load yields_and_then_info [OF yields_adopt_unrecorded] states basics
        yields_any [OF keeps_transact])
      (auto split: sum.splits)
qed

section \<open>Staging\<close>

lemma keeps_missing_rollback_size: "keeps I (missing_rollback_size P name)"
  unfolding missing_rollback_size_def by (intro basics)

lemma keeps_record_candidate: "slot_like target \<Longrightarrow> keeps I (record_candidate P name version target)"
proof (rule yields_keeps)
  assume "slot_like target"
  then show "yields I (\<lambda>_. True) (record_candidate P name version target)"
    unfolding record_candidate_def
    by (intro yields_and_load states basics yields_any) (simp_all add: updating)
qed

lemma keeps_place_image:
  assumes "slot_like staging" "\<not> temporary staging" "slot_like target" "\<not> temporary target"
  shows "keeps I (place_image P name staging target for_running v)"
  unfolding place_image_def require_space_def durable_move_def
  by (intro basics keeps_missing_rollback_size keeps_record_candidate assms)

lemma keeps_validate_and_place:
  assumes "slot_like staging" "\<not> temporary staging"
  shows "keeps I (validate_and_place P name requested staging)"
proof (rule yields_keeps)
  have target: "yields I (\<lambda>r. case r of Inl _ \<Rightarrow> True | Inr t \<Rightarrow> slot_like t \<and> \<not> temporary t)
      (if b then case v of None \<Rightarrow> ret (Err f) | Some v \<Rightarrow> bind (reads (candidate_path name v)) (\<lambda>p. ret (Ok p))
       else ret (Ok (scoped_active_path name base)))" for b v base and f :: failure
    by (intro states) (simp_all add: slot_like_slots temporary_slots)
  show "yields I (\<lambda>_. True) (validate_and_place P name requested staging)"
    unfolding validate_and_place_def Let_def
    by (intro yields_and_then_info [OF target] states basics keeps_place_image assms)
      auto
qed

lemma keeps_digest_and_place:
  "slot_like staging \<Longrightarrow> \<not> temporary staging \<Longrightarrow> keeps I (digest_and_place P name base digest staging)"
  unfolding digest_and_place_def Let_def sha256_def by (intro basics keeps_validate_and_place)

lemma keeps_supplied: "keeps I (supplied P name base p digest)"
  unfolding supplied_def Let_def require_space_def
  by (intro basics keeps_missing_rollback_size keeps_digest_and_place)

lemma keeps_acquire_image: "keeps I (acquire_image P name base version)"
  unfolding acquire_image_def require_space_def resolve_revision_def components_def list_component_def acquire_component_def
    place_download_def Let_def
  by (intro basics keeps_validate_and_place)

lemma keeps_stage_extension: "keeps I (stage_extension P name base src)"
  unfolding stage_extension_def
  by (cases src; simp; intro conjI impI basics keeps_supplied keeps_acquire_image)

lemma keeps_stage_base: "keeps I (stage_base P version)"
proof -
  have entries: "keeps I (pending_entries prefix found es)" "keeps I (boot_entry_in prefix es)"
    "keeps I (readable_entries es)" for prefix found es
    by (induction es arbitrary: found) (auto simp: Let_def intro!: basics)
  have verify: "keeps I (verify_extensions_for P t)" for t
    unfolding verify_extensions_for_def extensions_in_use_def installed_extensions_for_def merged_extensions_def
    by (intro basics entries keeps_verify_images)
  show ?thesis
    unfolding stage_base_def stage_target_def select_entry_def set_oneshot_def sysupdate_base_def sync_disks_def
      pending_base_version_def pending_boot_entry_def available_base_version_def Let_def
    by (intro basics verify entries)
qed

section \<open>The socket and the command line\<close>

lemma keeps_commands:
  "keeps I (hello P)" "keeps I (update_status P)" "keeps I (api_stage_extension P request)"
  "keeps I (api_activate_extension P request)" "keeps I (api_stage_base P request)" "keeps I (logs P request)"
  unfolding hello_def components_def update_status_def available_base_version_def update_pending_def
    api_stage_extension_def api_activate_extension_def api_stage_base_def logs_def Let_def
  by (intro basics keeps_stage_extension keeps_activate_extension keeps_stage_base)+

lemma keeps_loading:
  "(\<And>s. wf s \<Longrightarrow> keeps I (f s)) \<Longrightarrow> keeps I (and_then (loading P) f)"
  unfolding loading_def by (rule yields_keeps, rule yields_and_load, rule yields_any)

lemma keeps_storing_state: "wf s \<Longrightarrow> keeps I (storing_state P s)"
  unfolding storing_state_def by (intro basics)

lemma keeps_adopt: "keeps I (adopt P args)"
proof -
  have run: "keeps I (bind (adopt_active P s name version) (\<lambda>(r, s').
      case r of
        Inl e \<Rightarrow> ret (Err (show_adopt_error e))
      | Inr _ \<Rightarrow> bind (say (name @ '': adopted active '' @ version @ '' as known-good'')) (\<lambda>_. ret (Ok ()))))"
    if "wf s" for s name version
    by (intro basics yields_keeps [OF yields_adopt_active] that)
  show ?thesis
    unfolding adopt_def by (intro keeps_prod keeps_option keeps_loading run basics)
qed

lemma keeps_rollback: "keeps I (rollback_command P args)"
proof -
  have run: "keeps I (bind (recover P s name ''operator requested rollback'') (\<lambda>(r, s').
      and_then (storing_state P s') (\<lambda>_. ret r)))" if "wf s" for s name
    by (rule yields_keeps, rule yields_bind [OF yields_recover [OF that]])
      (auto intro!: yields_any basics keeps_storing_state)
  show ?thesis unfolding rollback_command_def by (intro keeps_option keeps_loading run basics)
qed

lemma keeps_remove: "keeps I (remove_extension P args)"
proof -
  have run: "keeps I (bind (complete_removal P s name) (\<lambda>(r, s').
      case r of
        Inl e \<Rightarrow> ret (Err e)
      | Inr _ \<Rightarrow> and_then (storing_state P s') (\<lambda>_.
          bind (say (name @ '': removed from the running base'')) (\<lambda>_. ret (Ok ())))))" if "wf s" for s name
    by (rule yields_keeps, rule yields_bind [OF yields_complete_removal [OF that]])
      (auto intro!: yields_any basics keeps_storing_state split: sum.split)
  show ?thesis
    unfolding remove_extension_def Let_def
    by (intro keeps_option keeps_loading keeps_storing_state run keeps_and_then basics) (simp_all add: updating)
qed

lemma keeps_record_commands: "keeps I (set_required P args value)" "keeps I (reset_command P args)"
    "keeps I (status_command P)"
  unfolding set_required_def reset_command_def status_command_def
  by (intro keeps_option keeps_loading keeps_storing_state basics; simp add: updating)+

lemma keeps_cli_activate: "keeps I (cli_activate P args)"
  unfolding cli_activate_def
  by (auto split: prod.split option.split intro!: basics keeps_activate_extension)

lemma keeps_cli_staging: "keeps I (cli_stage_extension P args)" "keeps I (cli_stage_base P args)"
  unfolding cli_stage_extension_def cli_stage_base_def
  by (intro basics keeps_stage_extension keeps_activate_extension keeps_stage_base)+

end

section \<open>Paths that no operation touches\<close>

definition apart :: "path \<Rightarrow> bool" where
  "apart p \<longleftrightarrow> foreign p \<and> parent p \<noteq> Some EXTENSIONS_DIR \<and> parent p \<noteq> Some STAGING_DIR"

lemma read_dir_returns: "returns (\<lambda>r. case r of Inl _ \<Rightarrow> True | Inr es \<Rightarrow> list_all (\<lambda>e. parent e = Some d) es) (fs_read_dir d)"
  unfolding returns_def fs_read_dir_def prim_def
  by (auto simp: list_all_iff split: list.splits fault.splits if_splits)

lemma next_entry_returns: "returns (\<lambda>r. case r of Inl _ \<Rightarrow> True | Inr q \<Rightarrow> q = e) (fs_next_entry e)"
  unfolding returns_def fs_next_entry_def prim_def by (auto split: list.splits fault.splits)

lemma keeps_transaction_entries:
  assumes "parent p \<noteq> Some d"
  shows "list_all (\<lambda>e. parent e = Some d) es \<Longrightarrow> keeps (stays p u) (transaction_entries d staging changed es)"
proof (induction es arbitrary: changed)
  case (Cons e es)
  then have "p \<noteq> e" and IH: "\<And>c. keeps (stays p u) (transaction_entries d staging c es)" using assms by auto
  note entries = yields_returns [OF keeps_fs_reading(9) [OF steady_stays] next_entry_returns]
  show ?case
    unfolding transaction_entries.simps Let_def
    by (rule yields_keeps, rule yields_and_then_info [OF entries])
      (rule yields_any, intro keeps_intros keeps_remove_file IH, simp_all add: \<open>p \<noteq> e\<close>)
qed (simp add: keeps_intros)

lemma keeps_prune_transaction_files:
  assumes "apart p"
  shows "keeps (stays p u) prune_transaction_files"
proof -
  have dirs: "list_all (\<lambda>d. parent p \<noteq> Some d) ds \<Longrightarrow> keeps (stays p u) (prune_directories staging ds)" for ds staging
  proof (induction ds)
    case (Cons d ds)
    note listed = yields_bind [OF yields_returns [OF keeps_fs_reading(8) [OF steady_stays] read_dir_returns]]
    show ?case
      unfolding prune_directories.simps
      by (rule yields_keeps, rule listed)
        (use Cons in \<open>auto split: sum.split intro!: yields_any keeps_intros keeps_transaction_entries simp: sync_if_def\<close>)
  qed (simp add: keeps_intros)
  show ?thesis
    unfolding prune_transaction_files_def prune_transaction_files_in_def
    by (rule dirs) (use assms in \<open>auto simp: apart_def\<close>)
qed

lemma foreign_apart: "foreign p \<Longrightarrow> slot_like q \<Longrightarrow> p \<noteq> q"
  by (auto simp: foreign_slot_like)

lemma keeps_apart:
  assumes "apart p"
  shows "slot_like q \<Longrightarrow> keeps (stays p u) (durable_remove q)"
    "slot_like q \<Longrightarrow> \<not> temporary q \<Longrightarrow> keeps (stays p u) (durable_copy src q)"
    "slot_like q \<Longrightarrow> \<not> temporary q \<Longrightarrow> keeps (stays p u) (durable_copy_file i q m)"
    "keeps (stays p u) (prune_candidates n keep)" "keeps (stays p u) (prune_rollbacks n keep)"
    "keeps (stays p u) prune_transaction_files" "keeps (stays p u) (clear_staged n)"
    "keeps (stays p u) candidate_files" "keeps (stays p u) (fs_create_dir_all d)"
proof -
  have f: "foreign p" "\<not> temporary p" using assms by (simp_all add: apart_def foreign_def)
  note ne = foreign_apart [OF f(1)] not_temporary_of [OF f(2)]
  show "slot_like q \<Longrightarrow> keeps (stays p u) (durable_remove q)" by (intro keeps_durable_remove ne)
  show "slot_like q \<Longrightarrow> \<not> temporary q \<Longrightarrow> keeps (stays p u) (durable_copy src q)"
    "slot_like q \<Longrightarrow> \<not> temporary q \<Longrightarrow> keeps (stays p u) (durable_copy_file i q m)"
    by (intro keeps_durable_copy keeps_durable_copy_file ne; assumption)+
  show "keeps (stays p u) (clear_staged n)"
    unfolding clear_staged_def using f(1)
    by (intro keeps_prune_matching_in) (auto simp: spared_def foreign_def)
qed (intro keeps_foreign keeps_prune_transaction_files keeps_candidate_files keeps_create_dir_all assms;
  use assms in \<open>simp add: apart_def\<close>)+

lemma apart_state: "apart state_path"
proof -
  have "parent state_path \<noteq> Some EXTENSIONS_DIR" "parent state_path \<noteq> Some STAGING_DIR" by code_simp+
  then show ?thesis by (simp add: apart_def foreign_paths)
qed

text \<open>Changing a mode and flushing change no byte.\<close>

definition same_bytes :: "inode \<Rightarrow> inode \<Rightarrow> bool" where
  "same_bytes x y \<longleftrightarrow> cached x = cached y \<and> synced x \<in> {synced y, cached y}"

lemma keeps_durable_mode:
  assumes "steady I" "\<And>d. keeps I (fs_sync_dir d)"
    and "\<And>w i x. I w \<Longrightarrow> same_bytes x (inodes w i) \<Longrightarrow> I (set_inode i x w)"
  shows "keeps I (durable_mode q k)"
proof -
  have "keeps I (fs_set_path_permissions q k)" "keeps I (fs_sync_file i)" for i
    unfolding fs_set_path_permissions_def fs_sync_file_def
    by (rule keeps_prim; use assms(1,3) in \<open>auto simp: steady_def same_bytes_def split: option.split\<close>)+
  then show ?thesis
    unfolding durable_mode_def sync_parent_def by (intro keeps_intros assms)
qed

lemma survives_set_inode:
  assumes "same_bytes x (inodes w i)" "survives w p Q"
  shows "survives (set_inode i x w) p Q"
proof -
  have "cached n = synced n \<and> Q (Some (cached n))" if "Some n \<in> past (set_inode i x w) p" for n
  proof -
    have "past (set_inode i x w) p = (\<lambda>v. map_option ((inodes w)(i := x)) (map_of v p)) ` set (versions w)"
      by (simp add: past_def set_inode_def versions_def)
    with that have "Some n \<in> (\<lambda>v. map_option ((inodes w)(i := x)) (map_of v p)) ` set (versions w)" by simp
    then obtain v where v0: "Some n = map_option ((inodes w)(i := x)) (map_of v p)" "v \<in> set (versions w)"
      by (rule imageE)
    from v0(1) obtain j where v: "map_of v p = Some j" "n = (if j = i then x else inodes w j)"
      by (cases "map_of v p") auto
    have "map_option (inodes w) (map_of v p) \<in> past w p" unfolding past_def using v0(2) by blast
    with v(1) have "Some (inodes w j) \<in> past w p" by simp
    with assms(2) have "case Some (inodes w j) of None \<Rightarrow> Q None | Some n \<Rightarrow> cached n = synced n \<and> Q (Some (cached n))"
      unfolding survives_def by (rule bspec)
    note past = this [unfolded option.case]
    with past v(2) assms(1) show ?thesis by (cases "j = i") (auto simp: same_bytes_def)
  qed
  moreover have "Q None" if "None \<in> past (set_inode i x w) p"
  proof -
    from that have "None \<in> past w p" by (auto simp: past_def set_inode_def versions_def)
    with assms(2) have "case (None :: inode option) of None \<Rightarrow> Q None | Some n \<Rightarrow> cached n = synced n \<and> Q (Some (cached n))"
      unfolding survives_def by (rule bspec)
    then show ?thesis by simp
  qed
  ultimately show ?thesis by (auto simp: survives_def split: option.split)
qed

section \<open>The record on disk\<close>

text \<open>What a record must be: names in order and once each, and histories without a repetition that are bounded.\<close>

definition well_kept :: "state \<Rightarrow> bool" where
  "well_kept s \<longleftrightarrow> well_ordered s \<and>
     list_all (\<lambda>(n, e). distinct (completed_requests e) \<and> length (completed_requests e) \<le> 64) (extensions s)"

definition kept_history :: "extension_state \<Rightarrow> bool" where
  "kept_history e \<longleftrightarrow> distinct (completed_requests e) \<and> length (completed_requests e) \<le> 64"

lemma kept_history_completed: "kept_history e \<Longrightarrow> kept_history (record_completed i e)"
proof (cases "already_completed e i")
  case False
  assume e: "kept_history e"
  with False have "distinct (completed_requests e @ [i])" by (simp add: kept_history_def already_completed_def)
  then have "distinct (completed_requests (record_completed i e))"
    unfolding completed_after [OF False] by (rule distinct_drop)
  with e show ?thesis by (simp add: kept_history_def completed_bound_step)
qed (simp add: record_completed_def)

lemma kept_history_step: "history_step f \<Longrightarrow> kept_history e \<Longrightarrow> kept_history (f e)"
  using kept_history_completed [of e] unfolding history_step_def kept_history_def by metis

lemma kept_history_forget [simp]: "kept_history (forget e) = kept_history e"
  by (simp add: kept_history_def forget_def)

lemma well_kept_iff: "well_kept s \<longleftrightarrow> well_ordered s \<and> (\<forall>(n, e) \<in> set (extensions s). kept_history e)"
  by (simp add: well_kept_def kept_history_def list_all_iff)

lemma set_bt_insert: "set (bt_insert k v m) \<subseteq> insert (k, v) (set m)"
  by (induction m) (auto split: if_splits)

lemma well_kept_entry:
  assumes "well_kept s" "history_step f"
  shows "well_kept (entry name f s)"
proof -
  let ?e = "case state_get s name of None \<Rightarrow> default_extension | Some e \<Rightarrow> e"
  have "kept_history ?e"
    using assms(1) by (auto simp: well_kept_iff state_get_def kept_history_def default_extension_def
        dest!: map_of_SomeD split: option.split)
  then have "kept_history (f ?e)" by (rule kept_history_step [OF assms(2)])
  then show ?thesis
    using assms(1) set_bt_insert [of name "f ?e" "extensions s"] unfolding well_kept_iff entry_def
    by (auto simp: entry_well_ordered [unfolded entry_def])
qed

lemma well_kept_forget: "well_kept s \<Longrightarrow> well_kept (snd (forget_stale_terminals c s))"
  using forget_well_ordered [of s c]
  by (auto simp: well_kept_iff forget_stale_terminals_def forget_from_map)

lemma well_kept_default: "well_kept default_state"
  by (simp add: well_kept_iff) (simp add: default_state_def)

lemma yields_load_recorded: "yields (recorded P well_kept) (\<lambda>r. case r of Inl _ \<Rightarrow> True | Inr s \<Rightarrow> well_kept s) (load_state P)"
proof -
  have "well_kept s" if "recorded P well_kept w" "load_state P w = (Done (Ok s), w')" for w s w'
  proof -
    from that(1) have "\<exists>s. well_kept s \<and> reads_as P s (bytes_at w state_path)"
      using survives_now [of w state_path "\<lambda>z. \<exists>s. well_kept s \<and> reads_as P s z"] by (simp add: recorded_def)
    then obtain s' where s': "well_kept s'" "reads_as P s' (bytes_at w state_path)" by blast
    show ?thesis
      using that(2) s' well_kept_default
      by (cases "faults w")
        (auto simp: load_state_def bind_def fs_read_def prim_def ret_def not_found_def reads_as_def
          split: fault.splits option.splits sum.splits if_splits)
  qed
  moreover have "keeps (recorded P well_kept) (load_state P)" by (intro keeps_intros steady_recorded)
  ultimately show ?thesis
    unfolding yields_def keeps_def by (auto split: sum.split) (metis prod.collapse)
qed

lemma keeps_mode_recorded: "keeps (recorded P A) (durable_mode q k)"
proof (rule keeps_durable_mode [OF steady_recorded])
  show "keeps (recorded P A) (fs_sync_dir d)" for d by (intro keeps_recorded keeps_intros)
  show "recorded P A w \<Longrightarrow> same_bytes x (inodes w i) \<Longrightarrow> recorded P A (set_inode i x w)" for w i x
    by (simp add: recorded_def survives_set_inode)
qed

lemma yields_implies: "(b \<Longrightarrow> yields I R m) \<Longrightarrow> yields (\<lambda>w. b \<longrightarrow> I w) (\<lambda>x. b \<longrightarrow> R x) m"
  by (cases b) (simp_all add: yields_def)

interpretation keeping: bookkeeping P "\<lambda>w. faithful P \<and> tame P state_path \<longrightarrow> recorded P well_kept w"
  "\<lambda>s. faithful P \<and> tame P state_path \<longrightarrow> well_kept s"
  for P :: "('e, 'v) platform"
proof
  let ?b = "faithful P \<and> tame P state_path" and ?I = "recorded P well_kept"
  have "obeys P ?I" if "tame P state_path"
    using that unfolding obeys_def tame_def by (auto intro!: keeps_recorded keeps_sleep keeps_say)
  then show "obeys P (\<lambda>w. ?b \<longrightarrow> ?I w)" by (intro obeys_implies) blast
  show "steady (\<lambda>w. ?b \<longrightarrow> ?I w)" by (intro steady_implies steady_recorded)
  have "yields (\<lambda>w. ?b \<longrightarrow> ?I w) (\<lambda>r. ?b \<longrightarrow> (case r of Inl _ \<Rightarrow> True | Inr s \<Rightarrow> well_kept s)) (load_state P)"
    by (intro yields_implies yields_load_recorded)
  then show "yields (\<lambda>w. ?b \<longrightarrow> ?I w) (\<lambda>r. case r of Inl _ \<Rightarrow> True | Inr s \<Rightarrow> ?b \<longrightarrow> well_kept s) (load_state P)"
    by (rule yields_mono) (auto split: sum.split)
  show "keeps (\<lambda>w. ?b \<longrightarrow> ?I w) (store P s)" if "?b \<longrightarrow> well_kept s" for s
    using that by (intro keeps_implies keeps_store_recorded) auto
  show "keeps (\<lambda>w. ?b \<longrightarrow> ?I w) (durable_remove q)" if "slot_like q" for q
    using that by (intro keeps_implies keeps_recorded keeps_apart apart_state)
  show "keeps (\<lambda>w. ?b \<longrightarrow> ?I w) (durable_copy src q)" "keeps (\<lambda>w. ?b \<longrightarrow> ?I w) (durable_copy_file i q m)"
    if "slot_like q" "\<not> temporary q" for q src i m
    using that by (intro keeps_implies keeps_recorded keeps_apart apart_state; simp)+
  show "keeps (\<lambda>w. ?b \<longrightarrow> ?I w) (durable_mode q k)" for q k
    by (intro keeps_implies keeps_mode_recorded)
qed (auto intro!: keeps_implies keeps_recorded keeps_apart apart_state well_kept_entry well_kept_forget)

section \<open>Whole commands\<close>

locale attended = bookkeeping +
  assumes taking: "keeps I try_acquire" "keeps I acquire"
    and dropping: "keeps I (drop_lock l)"
begin

lemma keeps_exclusive: "keeps I m \<Longrightarrow> keeps I (exclusive P m)"
  unfolding exclusive_def by (intro basics taking dropping keeps_reconcile_state)

lemma keeps_dispatch: "keeps I (dispatch P request)"
  unfolding dispatch_def by (intro basics keeps_exclusive keeps_commands)

lemma keeps_serve_connection: "keeps I (serve_connection P received)"
  unfolding serve_connection_def by (intro basics keeps_dispatch)

lemma keeps_locked: "keeps I m \<Longrightarrow> keeps I (locked P m)"
  unfolding locked_def by (intro basics taking dropping keeps_reconcile_state)

lemma keeps_main: "(\<And>p. keeps I (serve p)) \<Longrightarrow> keeps I (main P serve argv)"
  unfolding main_def Let_def usage_def
  by (intro basics keeps_locked keeps_health_gate keeps_cli_activate keeps_cli_staging keeps_adopt keeps_rollback
      keeps_remove keeps_record_commands)

end

text \<open>The lock file is no slot, and no temporary file.\<close>

definition lock_path :: path where
  "lock_path = join STATE_DIR LOCK_FILE"

lemma keeps_lock:
  assumes "p \<noteq> lock_path"
  shows "keeps (stays p u) try_acquire" "keeps (stays p u) acquire" "keeps (stays p u) (drop_lock l)"
proof -
  have create: "keeps (stays p u) (fs_open_or_create lock_path)"
    unfolding fs_open_or_create_def using assms
    by (intro keeps_stays_prim) (auto simp: new_file_coherent new_file_frame split: option.split)
  have "keeps (stays p u) (fs_lock i)" for i
  proof -
    have "keeps (stays p u) (prim nothing (\<lambda>w. (Ok (), w\<lparr>lock_taken := True\<rparr>)))"
      by (rule keeps_stays_prim) (auto simp: frame_def)
    then show ?thesis by (simp add: keeps_def fs_lock_def)
  qed
  moreover have "keeps (stays p u) (fs_try_lock i)" for i
    unfolding fs_try_lock_def by (intro keeps_intros keeps_stays_prim) (auto simp: frame_def)
  moreover have "keeps (stays p u) (own i)" "keeps (stays p u) (drop_lock i)" for i
    by (auto simp: keeps_def own_def drop_lock_def stays_def frame_def)
  ultimately show "keeps (stays p u) try_acquire" "keeps (stays p u) acquire" "keeps (stays p u) (drop_lock l)"
    unfolding try_acquire_def acquire_def try_acquire_at_def open_at_def
    using create by (auto simp: lock_path_def intro!: keeps_intros split: try_lock_error.split)
qed

lemma state_not_lock: "state_path \<noteq> lock_path"
  by code_simp

interpretation record_kept: attended P "\<lambda>w. faithful P \<and> tame P state_path \<longrightarrow> recorded P well_kept w"
  "\<lambda>s. faithful P \<and> tame P state_path \<longrightarrow> well_kept s"
  for P :: "('e, 'v) platform"
  by unfold_locales (intro keeps_implies keeps_recorded keeps_lock state_not_lock)+

text \<open>
  C9: the record of the agent is always well formed. Whatever command comes in on the socket or on the
  command line, whether it succeeds, fails or loses power in the middle: in every version of the record that
  a power loss may bring back, each extension has one entry, the entries are in order, and the history of
  each one's requests has no request twice and at most 64 of them. The accept loop, a parameter of \<open>main\<close>,
  is taken to keep this, as each of its connections does.
\<close>

theorem record_always_well_formed:
  assumes "faithful P" "tame P state_path" "recorded P well_kept w"
    and "\<forall>p. keeps (recorded P well_kept) (serve p)"
  shows "recorded P well_kept (snd (serve_connection P received w)) \<and>
    recorded P well_kept (snd (main P serve argv w))"
proof
  show "recorded P well_kept (snd (serve_connection P received w))"
    using record_kept.keeps_serve_connection [of P received] assms by (simp add: keeps_def)
  show "recorded P well_kept (snd (main P serve argv w))"
    using record_kept.keeps_main [of P serve argv] assms by (simp add: keeps_def)
qed

text \<open>A machine whose record is that of \<open>bench\<close>, and which can write the record after a \<open>reset\<close> too.\<close>

definition resetting_platform :: "(unit, unit) platform" where
  "resetting_platform = numbered [bench_state,
     entry ''a'' (\<lambda>e. e\<lparr>phase := Idle, last_failure := None, last_health := None\<rparr>) bench_state] []"

lemma bench_recorded:
  assumes "well_kept s0"
  shows "recorded (numbered (s0 # ss) out) well_kept (bench fs)"
proof -
  have "reads_as (numbered (s0 # ss) out) s0 (Some [CHR 0x0A])"
    by (simp add: reads_as_def numbered_def)
  then have "survives (bench fs) state_path (\<lambda>z. \<exists>s. well_kept s \<and> reads_as (numbered (s0 # ss) out) s z)"
    using assms by (auto simp: survives_def past_def versions_def bench_def bench_file_def state_path_simp)
  then show ?thesis by (simp add: recorded_def bench_coherent)
qed

lemma record_always_well_formed_witness:
  "case main resetting_platform (\<lambda>_. ret (Ok ())) [''reset'', ''a''] (bench []) of (r, w') \<Rightarrow>
     r = Done True \<and> recorded resetting_platform well_kept w' \<and> bytes_at w' state_path = Some (''#'' @ [CHR 0x0A])"
proof -
  let ?m = "main resetting_platform (\<lambda>_. ret (Ok ())) [''reset'', ''a''] (bench [])"
  have "well_kept bench_state" by code_simp
  from record_always_well_formed [OF numbered_faithful _ bench_recorded [OF this]]
  have "recorded resetting_platform well_kept (snd ?m)"
    by (simp add: resetting_platform_def tame_def inert_keeps numbered_inert keeps_ret)
  moreover have "case ?m of (r, w') \<Rightarrow> r = Done True \<and> bytes_at w' state_path = Some (''#'' @ [CHR 0x0A])" by code_simp
  ultimately show ?thesis by (auto split: prod.splits)
qed

end
