(* ===== verification/Reconcile.thy ===== *)
theory Reconcile
  imports Bookkeeping
begin

text \<open>
  What a reconciliation is for: the phases that an operation leaves only by its end are gone after it.
\<close>

section \<open>Settled records\<close>

text \<open>The phases in which no operation is under way.\<close>

definition settled :: "phase \<Rightarrow> bool" where
  "settled ph \<longleftrightarrow> ph \<in> {Idle, Staged, Active, Recovered, Unrecoverable}"

text \<open>\<open>s'\<close> is \<open>s\<close> with the record of \<open>name\<close> settled.\<close>

definition settles :: "string \<Rightarrow> state \<Rightarrow> state \<Rightarrow> bool" where
  "settles name s s' \<longleftrightarrow>
     well_ordered s' \<and> (\<forall>n. n \<noteq> name \<longrightarrow> state_get s' n = state_get s n) \<and>
     (case state_get s' name of None \<Rightarrow> False | Some e \<Rightarrow> settled (phase e))"

lemma settles_entry:
  "well_ordered s \<Longrightarrow> (\<And>e. settled (phase (f e))) \<Longrightarrow> settles name s (entry name f s)"
  by (simp add: settles_def)

lemma settled_steps [simp]:
  "settled (phase (staged_gone active e))" "settled (phase (removed_entry e))"
  "settled (phase (recovered reason v e))" "settled (phase (failed_entry reason os e))"
  "settled (phase (healthy_entry e))"
  by (simp_all add: settled_def staged_gone_def removed_entry_def recovered_def failed_entry_def healthy_entry_def Let_def)

lemma settles_same:
  "well_ordered s \<Longrightarrow> state_get s name = Some e \<Longrightarrow> settled (phase e) \<Longrightarrow> settles name s s"
  by (simp add: settles_def)

lemma recover_settles:
  "well_ordered s \<Longrightarrow> returns (\<lambda>(r, s'). r = Ok () \<longrightarrow> settles name s s') (recover P s name reason)"
proof -
  assume s: "well_ordered s"
  have "settles name s s'" if run: "recover P s name reason w = (Done (Ok (), s'), w')" for w s' w'
  proof -
    from recover_Ok [OF run] obtain v where "s' = entry name (recovered reason v) (entry name (reverting reason) s)"
      by metis
    with s show ?thesis by (simp add: settles_def)
  qed
  then show ?thesis by (auto simp: returns_def)
qed

lemma recover_noted_settles:
  "well_ordered s \<Longrightarrow> returns (\<lambda>(fs, s'). fs = [] \<longrightarrow> settles name s s') (recover_noted P s name reason)"
  unfolding recover_noted_def
  by (rule returns_bind_from [OF recover_settles [of s name P reason]])
    (auto intro!: returns_intros split: sum.splits)

lemma complete_removal_settles:
  "well_ordered s \<Longrightarrow> returns (\<lambda>(r, s'). r = Ok () \<longrightarrow> settles name s s') (complete_removal P s name)"
  unfolding complete_removal_def
  by (intro returns_intros) (auto intro!: settles_entry split: sum.splits)

lemma reconcile_phase_settles:
  assumes "well_ordered s" "state_get s name = Some e" "phase e = ph"
  shows "returns (\<lambda>(fs, s'). fs = [] \<longrightarrow> settles name s s') (reconcile_phase P s name ph candidate)"
proof -
  note same = settles_same [OF assms(1,2)]
  have cleared: "settles name s (entry name cleared_entry s)" if "settled ph"
    using assms that by (auto simp: settles_def cleared_entry_def)
  have idle: "settles name s (entry name (\<lambda>e. (cleared_entry e)\<lparr>phase := Idle\<rparr>) s)"
    by (rule settles_entry [OF assms(1)]) (simp add: settled_def)
  have gone: "settles name s (entry name (staged_gone active) s)" for active
    by (rule settles_entry [OF assms(1)]) simp
  have restore: "returns (\<lambda>(fs, s'). fs = [] \<longrightarrow> settles name s s') (if active then ret ([], s)
      else if (case state_get s name of Some e \<Rightarrow> required e | None \<Rightarrow> False)
      then recover_noted P s name ''active image disappeared between operations''
      else ret ([], entry name (\<lambda>e. (cleared_entry e)\<lparr>phase := Idle\<rparr>) s))" if "settled ph" for active
    using same assms(3) that by (intro returns_cases returns_ret recover_noted_settles) (auto simp: idle assms(1))
  have settled: "settled ph \<Longrightarrow> settles name s s" using same assms(3) by simp
  show ?thesis
    unfolding reconcile_phase_def Let_def
    by (cases ph; simp only: phase.case phase.distinct simp_thms if_True if_False;
        intro returns_bind_from [OF restore] returns_bind_from [OF complete_removal_settles [OF assms(1)]]
          recover_noted_settles [OF assms(1)] returns_intros;
        auto simp: settled_def intro!: gone settled cleared split: sum.splits)
qed

text \<open>The loop: each of the names in turn, none twice.\<close>

lemma reconcile_all_settles:
  assumes "well_ordered s" "distinct (map fst es)"
    and "\<forall>(n, ph, c, k) \<in> set es. \<exists>e. state_get s n = Some e \<and> phase e = ph"
  shows "returns (\<lambda>(fs, s'). fs = [] \<longrightarrow> well_ordered s' \<and> (\<forall>n. n \<notin> fst ` set es \<longrightarrow> state_get s' n = state_get s n) \<and>
    (\<forall>n \<in> fst ` set es. case state_get s' n of None \<Rightarrow> False | Some e \<Rightarrow> settled (phase e))) (reconcile_all P s es)"
  using assms
proof (induction es arbitrary: s)
  case (Cons x es)
  obtain n ph c k where x: "x = (n, ph, c, k)" by (cases x)
  with Cons.prems obtain e where e: "state_get s n = Some e" "phase e = ph" by auto
  let ?R = "\<lambda>es s (fs :: string list, s'). fs = [] \<longrightarrow> well_ordered s' \<and>
    (\<forall>n. n \<notin> fst ` set es \<longrightarrow> state_get s' n = state_get s n) \<and>
    (\<forall>n \<in> fst ` set es. case state_get s' n of None \<Rightarrow> False | Some e \<Rightarrow> settled (phase e))"
  have rest: "returns (\<lambda>q. ?R es s1 q) (reconcile_all P s1 es)" if "settles n s s1" for s1
  proof (rule Cons.IH)
    show "well_ordered s1" "distinct (map fst es)" using that Cons.prems by (auto simp: settles_def)
    show "\<forall>(n, ph, c, k) \<in> set es. \<exists>e. state_get s1 n = Some e \<and> phase e = ph"
    proof clarify
      fix n' ph' c' k'
      assume es: "(n', ph', c', k') \<in> set es"
      then have "n' \<in> fst ` set es" by (rule image_eqI [rotated]) simp
      with Cons.prems(2) x have "n' \<noteq> n" by auto
      with that have "state_get s1 n' = state_get s n'" by (simp add: settles_def)
      with es Cons.prems(3) show "\<exists>e. state_get s1 n' = Some e \<and> phase e = ph'" by auto
    qed
  qed
  show ?case
    unfolding x reconcile_all.simps
  proof (rule returns_bind_from [OF reconcile_phase_settles [OF Cons.prems(1) e]])
    fix q :: "string list \<times> state"
    assume q: "case q of (fs, s') \<Rightarrow> fs = [] \<longrightarrow> settles n s s'"
    obtain fs s1 where q': "q = (fs, s1)" by (cases q)
    show "returns (\<lambda>q. ?R ((n, ph, c, k) # es) s q) (case q of (fs, s1) \<Rightarrow>
        bind (noted (n @ '': could not prune rollbacks: '') (prune_rollbacks n k)) (\<lambda>fs'.
        bind (reconcile_all P s1 es) (\<lambda>(fs'', s2). ret (fs @ fs' @ fs'', s2))))"
    proof (cases "fs = []")
      case True
      with q q' have s1: "settles n s s1" by simp
      have step: "?R ((n, ph, c, k) # es) s (fs @ fs' @ fs'', s2)" if "?R es s1 (fs'', s2)" for fs' fs'' s2
        using that s1 Cons.prems(2) x unfolding settles_def by (auto split: option.splits)
      have "returns (\<lambda>q. ?R ((n, ph, c, k) # es) s q) (case r of (fs'', s2) \<Rightarrow> ret (fs @ fs' @ fs'', s2))"
        if "?R es s1 r" for fs' r
        using step [of "fst r" "snd r" fs'] that by (simp add: case_prod_unfold returns_ret)
      then show ?thesis
        unfolding q' prod.case
        by (intro returns_bind [of _ "\<lambda>fs'. bind (reconcile_all P s1 es) (\<lambda>(fs'', s2). ret (fs @ fs' @ fs'', s2))"]
            returns_bind_from [OF rest [OF s1]])
    next
      case False
      then show ?thesis unfolding q' prod.case by (auto intro!: returns_intros)
    qed
  qed
qed (auto intro!: returns_ret)


section \<open>The whole reconciliation\<close>

definition all_settled :: "state \<Rightarrow> bool" where
  "all_settled s \<longleftrightarrow> list_all (\<lambda>(n, e). settled (phase e)) (extensions s)"

lemma all_settled_get:
  "(\<And>n e. state_get s n = Some e \<Longrightarrow> settled (phase e)) \<Longrightarrow> well_ordered s \<Longrightarrow> all_settled s"
  unfolding all_settled_def list_all_iff state_get_def well_ordered_def
  by (auto dest: ordered_distinct intro: map_of_is_SomeI)

lemma reconcile_all_settled:
  assumes "well_ordered s" "reconcile_all P s (reconcile_entries s) w = (Done ([], s'), w')"
  shows "all_settled s'"
proof -
  let ?es = "reconcile_entries s"
  have names: "map fst ?es = map fst (extensions s)" by (simp add: reconcile_entries_def case_prod_unfold comp_def)
  have d: "distinct (map fst (extensions s))" using assms(1) by (simp add: well_ordered_def ordered_distinct)
  then have "\<forall>(n, ph, c, k) \<in> set ?es. \<exists>e. state_get s n = Some e \<and> phase e = ph"
    by (auto simp: reconcile_entries_def state_get_def intro: map_of_is_SomeI)
  from returnsD [OF reconcile_all_settles [OF assms(1) _ this] assms(2)] d names
  have s': "well_ordered s'" "\<forall>n. n \<notin> fst ` set ?es \<longrightarrow> state_get s' n = state_get s n"
    "\<forall>n \<in> fst ` set ?es. case state_get s' n of None \<Rightarrow> False | Some e \<Rightarrow> settled (phase e)"
    by auto
  have "settled (phase e)" if "state_get s' n = Some e" for n e
  proof (cases "n \<in> fst ` set ?es")
    case True
    with s'(3) that show ?thesis by fastforce
  next
    case False
    then have "n \<notin> fst ` set (extensions s)" using names by (metis list.set_map)
    then have "state_get s n = None" by (simp add: state_get_def map_of_eq_None_iff)
    with s'(2) False that show ?thesis by simp
  qed
  with s'(1) show ?thesis by (rule all_settled_get [rotated])
qed

text \<open>
  C10: a reconciliation that succeeds settles every extension. Whatever an earlier run was in the middle of
  when it was cut off, when \<open>reconcile_state\<close> returns success no extension is in a phase of an operation
  under way: in every version of the record that a power loss may bring back, each is idle, staged,
  active, recovered or refused for good, and the record is well formed.
\<close>

theorem reconcile_settles:
  assumes "faithful P" "tame P state_path" "recorded P well_kept w"
    and "reconcile_state P w = (Done (Ok ()), w')"
  shows "recorded P (\<lambda>s. well_kept s \<and> all_settled s) w'"
proof -
  let ?J = "recorded P well_kept"
  note k = assms(1,2)
  from assms(4) obtain w1 w2 w3 w4 w5 l s s' kept where
    run: "prune_transaction_files w = (Done (Ok ()), w1)" "load_state P w1 = (Done (Ok l), w2)"
      "forget_stale l w2 = (Done s, w3)" "reconcile_all P s (reconcile_entries s) w3 = (Done ([], s'), w4)"
      "clean_candidates kept w4 = (Done [], w5)" "store P s' w5 = (Done (Ok ()), w')"
    unfolding reconcile_state_def
    by (auto simp: and_then_Ok_iff mapping_err_Ok_iff bind_Done_iff ret_def reads_def split: prod.splits if_splits)
  have "?J w1" using keepsD [OF keeping.pruning(3) [of P] _ run(1)] k assms(3) by simp
  then have 2: "?J w2 \<and> well_kept l"
    using yieldsD [OF keeping.loading [of P] _ run(2)] k by simp
  then have 3: "?J w3 \<and> well_kept s"
    using yieldsD [OF keeping.yields_forget_stale [of P l] _ run(3)] k by simp
  then have 4: "?J w4 \<and> well_kept s'"
    using yieldsD [OF keeping.yields_reconcile_all [of P s "reconcile_entries s"] _ run(4)] k by simp
  then have "coherent w5"
    using keepsD [OF keeping.keeps_clean_candidates [of P kept] _ run(5)] k by (simp add: recorded_def)
  moreover have "all_settled s'"
    by (rule reconcile_all_settled [OF _ run(4)]) (use 3 in \<open>simp add: well_kept_iff\<close>)
  ultimately show ?thesis using store_records [OF k(1) _ _ run(6), of "\<lambda>s. well_kept s \<and> all_settled s"] 4 by simp
qed

text \<open>An activation of \<open>a\<close> was cut off while the candidate was starting.\<close>

definition interrupted :: state where
  "interrupted = entry ''a'' (\<lambda>e. e\<lparr>phase := Starting\<rparr>) bench_state"


definition interrupted_platform :: "(unit, unit) platform" where
  "interrupted_platform =
     (let reason = ''interrupted while in phase Starting'';
          s1 = entry ''a'' (reverting reason) interrupted
      in numbered [interrupted, s1, entry ''a'' (recovered reason ''1'') s1] [])"

lemma reconcile_settles_witness:
  "case reconcile_state interrupted_platform (bench []) of (r, w') \<Rightarrow> r = Done (Ok ()) \<and>
     recorded interrupted_platform (\<lambda>s. well_kept s \<and> all_settled s) w' \<and>
     bytes_at w' state_path = Some (''##'' @ [CHR 0x0A])"
proof -
  let ?m = "reconcile_state interrupted_platform (bench [])"
  have "case ?m of (r, w') \<Rightarrow> r = Done (Ok ()) \<and> bytes_at w' state_path = Some (''##'' @ [CHR 0x0A])" by code_simp
  then obtain w' where w': "?m = (Done (Ok ()), w')" "bytes_at w' state_path = Some (''##'' @ [CHR 0x0A])"
    by (auto split: prod.splits)
  have "well_kept interrupted" by code_simp
  from bench_recorded [OF this] have "recorded interrupted_platform well_kept (bench [])"
    by (simp add: interrupted_platform_def Let_def)
  from reconcile_settles [OF _ _ this w'(1)] w' show ?thesis
    by (simp add: interrupted_platform_def Let_def numbered_faithful tame_def inert_keeps numbered_inert)
qed

end
