(* ===== verification/Activation.thy ===== *)
theory Activation
  imports Reconcile
begin

text \<open>
  What an activation that reports success has done: the steps it went through, the image it left in
  the active slot and the record it committed.
\<close>

section \<open>The steps of a successful activation\<close>

lemma prove_candidate_Ok:
  assumes "prove_candidate P s name version request r w = (Done (Ok (), s'), w')"
  obtains s1 s2 w1 w2 w3 w4 where "s1 = entry name (\<lambda>e. e\<lparr>phase := Starting\<rparr>) s"
    "s2 = entry name (\<lambda>e. e\<lparr>phase := Soaking\<rparr>) s1" "s' = entry name (committed_entry version request) s2"
    "store P s1 w = (Done (Ok ()), w1)" "wait_until_ready P r w1 = (Done (Ok ()), w2)"
    "store P s2 w2 = (Done (Ok ()), w3)" "soak P r w3 = (Done (Ok ()), w4)" "store P s' w4 = (Done (Ok ()), w')"
  using assms unfolding prove_candidate_def Let_def
  by (auto simp: bind_Done_iff ret_def split: sum.splits)

lemma carry_out_Ok:
  assumes "carry_out P s name version request candidate previous w = (Done (Ok a), w')"
  obtains r s' w1 w2 where "merge_candidate P name candidate w = (Done (Ok r), w1)"
    "prove_candidate P s name version request r w1 = (Done (Ok (), s'), w2)"
    "a = \<lparr>activated_version = version, activated_known_good = previous, replayed = False\<rparr>"
    "\<And>I. keeps I (prune_candidates name None) \<Longrightarrow> keeps I (prune_rollbacks name previous) \<Longrightarrow>
       (\<And>l. keeps I (say l)) \<Longrightarrow> I w2 \<Longrightarrow> I w'"
proof -
  let ?a = "\<lparr>activated_version = version, activated_known_good = previous, replayed = False\<rparr>"
  let ?rest = "bind (prune_candidates name None) (\<lambda>pc.
           bind (case pc of Inr _ \<Rightarrow> ret ()
             | Inl e \<Rightarrow> say (name @ '': active, but candidate cleanup failed: '' @ io_text e)) (\<lambda>_.
           bind (prune_rollbacks name previous) (\<lambda>pr.
           bind (case pr of Inr _ \<Rightarrow> ret ()
             | Inl e \<Rightarrow> say (name @ '': active, but rollback cleanup failed: '' @ io_text e)) (\<lambda>_.
           ret (Ok ?a :: failure + activation)))))"
  obtain res un s' w2 where t: "try_candidate P s name version request candidate w = (Done (res, un, s'), w2)"
    and c: "(case res of Inl (reason, st) \<Rightarrow> bind (revert P s' name reason st un) (\<lambda>f. ret (Err f)) | Inr _ \<Rightarrow> ?rest) w2
      = (Done (Ok a), w')"
    using assms unfolding carry_out_def bind_Done_iff by auto
  have res: "res = Inr ()"
    using c by (cases res) (auto simp: bind_Done_iff ret_def)
  with c have rest: "?rest w2 = (Done (Ok a), w')" by simp
  from t res obtain m w1 where m: "merge_candidate P name candidate w = (Done m, w1)"
    "(case m of Inl e \<Rightarrow> ret (Err e, None, s) | Inr r \<Rightarrow> bind (prove_candidate P s name version request r)
       (\<lambda>(res, s'). ret (res, Some (service r), s'))) w1 = (Done (Inr (), un, s'), w2)"
    unfolding try_candidate_def bind_Done_iff by auto
  then obtain r where "m = Ok r" by (cases m) (auto simp: ret_def)
  with m have r: "merge_candidate P name candidate w = (Done (Ok r), w1)"
    "prove_candidate P s name version request r w1 = (Done (Ok (), s'), w2)"
    by (auto simp: bind_Done_iff ret_def)
  have "returns (\<lambda>x. x = Ok ?a) ?rest" by (intro returns_intros refl)
  with rest have a: "a = ?a" by (auto dest: returnsD)
  have "I w'" if "keeps I (prune_candidates name None)" "keeps I (prune_rollbacks name previous)"
      "\<And>l. keeps I (say l)" "I w2" for I
  proof -
    have "keeps I ?rest" by (intro keeps_intros that)
    with that(4) rest show ?thesis using keepsD by blast
  qed
  with r a show ?thesis by (rule that)
qed

lemma transact_Ok:
  assumes "transact P s name version request candidate w = (Done (Ok a), w')"
  obtains s' w1 w2 previous where "previous = Option.bind (state_get s name) active_version"
    "s' = entry name (activating version request previous) s"
    "store P s' w1 = (Done (Ok ()), w2)" "carry_out P s' name version request candidate previous w2 = (Done (Ok a), w')"
    "\<And>I. keeps I (fs_metadata_len candidate) \<Longrightarrow> keeps I (outgoing_size name previous) \<Longrightarrow>
       keeps I (available_bytes P) \<Longrightarrow> keeps I (retain_outgoing name previous) \<Longrightarrow> I w \<Longrightarrow> I w1"
proof -
  let ?p = "Option.bind (state_get s name) active_version"
  from assms obtain n w0 m w01 b w02 u w03 where
    run: "fs_metadata_len candidate w = (Done (Ok n), w0)" "outgoing_size name ?p w0 = (Done (Ok m), w01)"
      "available_bytes P w01 = (Done (Ok b), w02)" "retain_outgoing name ?p w02 = (Done (Ok u), w03)"
      "promote P s name version request candidate ?p w03 = (Done (Ok a), w')"
    unfolding transact_def Let_def
    by (auto simp: and_then_Ok_iff mapping_err_Ok_iff ret_def split: if_splits)
  from run(5) obtain w2 where p: "store P (entry name (activating version request ?p) s) w03 = (Done (Ok ()), w2)"
    "carry_out P (entry name (activating version request ?p) s) name version request candidate ?p w2 = (Done (Ok a), w')"
    unfolding promote_def Let_def by (auto simp: and_then_Ok_iff mapping_err_Ok_iff)
  show ?thesis
    by (rule that [OF refl refl p]) (use run keepsD in metis)
qed

lemma activate_Ok:
  assumes "activate_extension P name version request w = (Done (Ok a), w')" "\<not> replayed a"
  obtains s s' w1 w2 where "load_state P w = (Done (Ok s), w1)"
    "exists_path w1 (candidate_path name version w1)"
    "adopt_unrecorded P s name w1 = (Done (Ok s'), w2)"
    "transact P s' name version request (candidate_path name version w1) w2 = (Done (Ok a), w')"
  using assms unfolding activate_extension_def
  by (auto simp: and_then_Ok_iff mapping_err_Ok_iff bind_reads ret_def split: option.splits if_splits)

lemma merge_candidate_Ok:
  assumes "merge_candidate P name candidate w = (Done (Ok r), w')"
  obtains w1 w2 where "install_active candidate name w1 = (Done (Ok ()), w2)"
    "\<And>I. (\<And>c :: ruleset. keeps I (stop_unit P (service c))) \<Longrightarrow> keeps I (load_named name) \<Longrightarrow> I w \<Longrightarrow> I w1"
    "\<And>I. keeps I (sysext_refresh P) \<Longrightarrow> keeps I (daemon_reload P) \<Longrightarrow> keeps I (load_named name) \<Longrightarrow> I w2 \<Longrightarrow> I w'"
proof -
  let ?first = "bind (load_named name) (\<lambda>loaded. case loaded of Inl _ \<Rightarrow> ret (Ok ())
         | Inr current \<Rightarrow> mapping_err (\<lambda>e. (io_text e, AtActivating)) (stop_unit P (service current)))"
  let ?rest = "and_then (mapping_err (\<lambda>e. (''could not merge the image: '' @ io_text e, AtActivating))
       (sysext_refresh P)) (\<lambda>_.
     and_then (mapping_err (\<lambda>e. (''could not reload systemd: '' @ io_text e, AtActivating))
       (daemon_reload P)) (\<lambda>_.
     mapping_err (\<lambda>e. (''candidate supplied no usable ruleset: '' @ show_config_error e, AtActivating))
       (load_named name)))"
  from assms obtain w1 w2 where run: "?first w = (Done (Ok ()), w1)" "install_active candidate name w1 = (Done (Ok ()), w2)"
    "?rest w2 = (Done (Ok r), w')"
    unfolding merge_candidate_def and_then_Ok_iff mapping_err_Ok_iff by auto
  show ?thesis
  proof (rule that [OF run(2)])
    show "I w1" if "\<And>c :: ruleset. keeps I (stop_unit P (service c))" "keeps I (load_named name)" "I w" for I
    proof -
      have "keeps I ?first" by (intro that keeps_bind keeps_sum keeps_ret keeps_mapping_err)
      with that(3) run(1) show ?thesis using keepsD by blast
    qed
    show "I w'" if "keeps I (sysext_refresh P)" "keeps I (daemon_reload P)" "keeps I (load_named name)" "I w2" for I
    proof -
      have "keeps I ?rest" by (intro that keeps_and_then keeps_mapping_err)
      with that(4) run(3) show ?thesis using keepsD by blast
    qed
  qed
qed


section \<open>What happens before the image is replaced\<close>

lemma keeps_before:
  fixes P :: "('e, 'v) platform"
  assumes "tame P p" "\<not> temporary p" "\<And>n v (x :: 'e world). p \<noteq> rollback_path n v x" "p \<noteq> state_path" "p \<noteq> state_staging"
  shows "keeps (stays p u) (adopt_unrecorded P s name)" "keeps (stays p u) (retain_outgoing name previous)"
    "keeps (stays p u) (store P s)" "keeps (stays p u) (fs_metadata_len q)" "keeps (stays p u) (outgoing_size name previous)"
    "keeps (stays p u) (available_bytes P)" "keeps (stays p u) (stop_unit P un)" "keeps (stays p u) (load_named name)"
proof -
  note ob = tame_obeys [OF assms(1), of u]
  note st = steady_stays [of p u]
  have store: "keeps (stays p u) (store P s)" for s by (intro keeps_store assms)
  have copy: "keeps (stays p u) (durable_copy q (rollback_path n v x))" for q n v and x :: "'e world"
    by (intro keeps_durable_copy not_temporary_of assms temporary_slots)
  have "keeps (stays p u) (adopt_active P s name v)" for v
    unfolding adopt_active_def healthy_now_def Let_def
    by (intro keeps_bind_reads keeps_intros store copy ob st obeys_rest [OF ob])
  then show "keeps (stays p u) (adopt_unrecorded P s name)"
    unfolding adopt_unrecorded_def merged_version_def
    by (intro keeps_intros st obeys_rest [OF ob]) (auto split: adopt_error.split intro!: keeps_intros obeys_rest [OF ob])
  show "keeps (stays p u) (retain_outgoing name previous)"
    unfolding retain_outgoing_def by (intro keeps_bind_reads keeps_intros copy)
  show "keeps (stays p u) (outgoing_size name previous)"
    unfolding outgoing_size_def by (intro keeps_intros st)
  show "keeps (stays p u) (available_bytes P)" "keeps (stays p u) (stop_unit P un)" "keeps (stays p u) (load_named name)"
    "keeps (stays p u) (fs_metadata_len q)"
    by (intro keeps_intros st ob)+
  show "keeps (stays p u) (store P s)" by (rule store)
qed

lemma bystanders:
  "\<not> temporary OS_RELEASE" "OS_RELEASE \<noteq> rollback_path n v x" "OS_RELEASE \<noteq> state_path" "OS_RELEASE \<noteq> state_staging"
  "\<not> temporary (candidate_path m y z)" "candidate_path m y z \<noteq> rollback_path n v x"
  "candidate_path m y z \<noteq> state_path" "candidate_path m y z \<noteq> state_staging"
  "candidate_path m y z \<noteq> legacy_active_path n"
  using foreign_slots [OF foreign_paths(1)] foreign_slots(4) [OF foreign_paths(2)] foreign_state [OF foreign_paths(1)]
    temporary_slots slots_differ state_paths(1)
  by (metis, metis, simp add: OS_RELEASE_def state_path_simp, metis+)


section \<open>The image and the record of a successful activation\<close>

text \<open>The record that a successful activation stores, and the image it leaves.\<close>

definition committed :: "string \<Rightarrow> string \<Rightarrow> string option \<Rightarrow> state \<Rightarrow> bool" where
  "committed name version request s \<longleftrightarrow>
     (case state_get s name of None \<Rightarrow> False
      | Some e \<Rightarrow> phase e = Active \<and> active_version e = Some version \<and> candidate_version e = None \<and> required e \<and>
          (case request of None \<Rightarrow> True | Some i \<Rightarrow> already_completed e i))"

lemma completed_after_recording: "already_completed (record_completed i e) i"
  by (cases "already_completed e i")
    (simp_all add: completed_after already_completed_def, simp add: record_completed_def already_completed_def)

lemma record_completed_rest:
  "phase (record_completed i e) = phase e" "active_version (record_completed i e) = active_version e"
  "candidate_version (record_completed i e) = candidate_version e" "required (record_completed i e) = required e"
  by (simp_all add: record_completed_def Let_def)

lemma committed_after: "well_ordered s \<Longrightarrow> committed name version request (entry name (committed_entry version request) s)"
  by (cases request)
    (simp_all add: committed_def committed_entry_def Let_def completed_after_recording record_completed_rest)

lemma activation_installs:
  fixes P :: "('e, 'v) platform"
  assumes "faithful P" "tame P state_path" "tame P OS_RELEASE" "tame P (candidate_path name version w)"
    and "tame P (scoped_active_path name (scope w))" "plain name" "plain (scope w)" "recorded P well_kept w"
    and "bytes_at w (candidate_path name version w) = Some b" "length b < 2 ^ 64"
    and "activate_extension P name version request w = (Done (Ok a), w')" "\<not> replayed a"
  obtains s r s' w1 w2 previous where "well_ordered s" "published b (scoped_active_path name (scope w)) w1"
    "prove_candidate P s name version request r w1 = (Done (Ok (), s'), w2)"
    "\<And>I. keeps I (prune_candidates name None) \<Longrightarrow> keeps I (prune_rollbacks name previous) \<Longrightarrow>
       (\<And>l. keeps I (say l)) \<Longrightarrow> I w2 \<Longrightarrow> I w'"
proof -
  let ?C = "candidate_path name version w" and ?T = "scoped_active_path name (scope w)"
  let ?I = "\<lambda>x. stays ?C w x \<and> stays OS_RELEASE w x"
  have coh: "coherent w" using assms(8) by (simp add: recorded_def)
  note C = keeps_before [OF assms(4) bystanders(5,6,7,8)] and O = keeps_before [OF assms(3) bystanders(1,2,3,4)]
  obtain s s1 w1 w2 where act: "load_state P w = (Done (Ok s), w1)"
    "adopt_unrecorded P s name w1 = (Done (Ok s1), w2)"
    "transact P s1 name version request (candidate_path name version w1) w2 = (Done (Ok a), w')"
    by (rule activate_Ok [OF assms(11,12)]) blast
  have I1: "?I w1"
    by (rule keepsD [OF keeps_load_state [OF steady_conj [OF steady_stays steady_stays]] _ act(1)]) (simp add: coh)
  have cand: "candidate_path name version w1 = ?C"
    by (simp only: candidate_path_def scope_stays [OF conjunct2 [OF I1]])
  have wk: "well_kept s1"
  proof -
    have "recorded P well_kept w1 \<and> well_kept s"
      using yieldsD [OF keeping.loading [of P] _ act(1)] assms(1,2,8) by simp
    then show ?thesis
      using yieldsD [OF keeping.yields_adopt_unrecorded [of P s name] _ act(2)] assms(1,2) by simp
  qed
  have I2: "?I w2" using keepsD [OF keeps_conj [OF C(1) O(1)] I1 act(2)] .
  obtain s2 w3 w4 previous where tr: "s2 = entry name (activating version request previous) s1"
    "store P s2 w3 = (Done (Ok ()), w4)" "carry_out P s2 name version request ?C previous w4 = (Done (Ok a), w')" "?I w3"
  proof (rule transact_Ok [OF act(3) [unfolded cand]])
    fix s' v1 v2 previous
    assume x: "s' = entry name (activating version request previous) s1" "store P s' v1 = (Done (Ok ()), v2)"
      "carry_out P s' name version request ?C previous v2 = (Done (Ok a), w')"
    assume "\<And>I. keeps I (fs_metadata_len ?C) \<Longrightarrow> keeps I (outgoing_size name previous) \<Longrightarrow>
       keeps I (available_bytes P) \<Longrightarrow> keeps I (retain_outgoing name previous) \<Longrightarrow> I w2 \<Longrightarrow> I v1"
    from this [of ?I, OF keeps_conj [OF C(4) O(4)] keeps_conj [OF C(5) O(5)] keeps_conj [OF C(6) O(6)]
        keeps_conj [OF C(2) O(2)] I2] x
    show thesis by (intro that)
  qed
  have I4: "?I w4" using keepsD [OF keeps_conj [OF C(3) O(3)] tr(4) tr(2)] .
  obtain r s3 w5 w6 where co: "merge_candidate P name ?C w4 = (Done (Ok r), w5)"
    "prove_candidate P s2 name version request r w5 = (Done (Ok (), s3), w6)"
    and rest: "\<And>I. keeps I (prune_candidates name None) \<Longrightarrow> keeps I (prune_rollbacks name previous) \<Longrightarrow>
       (\<And>l. keeps I (say l)) \<Longrightarrow> I w6 \<Longrightarrow> I w'"
    by (rule carry_out_Ok [OF tr(3)]) blast
  have p5: "published b ?T w5"
  proof (rule merge_candidate_Ok [OF co(1)])
    fix v1 v2 :: "'e world"
    assume i: "install_active ?C name v1 = (Done (Ok ()), v2)"
    assume "\<And>I. (\<And>c :: ruleset. keeps I (stop_unit P (service c))) \<Longrightarrow> keeps I (load_named name) \<Longrightarrow> I w4 \<Longrightarrow> I v1"
    from this [of ?I, OF keeps_conj [OF C(7) O(7)] keeps_conj [OF C(8) O(8)] I4] have v1: "?I v1" .
    then have "scope v1 = scope w" "bytes_at v1 ?C = Some b" "coherent v1"
      using assms(9) by (auto simp: scope_stays) (auto simp: stays_def dest: frame_bytes_at)
    with install_active_Ok [OF _ _ assms(10) bystanders(9) i] have "published b ?T v2" by simp
    moreover assume later: "\<And>I. keeps I (sysext_refresh P) \<Longrightarrow> keeps I (daemon_reload P) \<Longrightarrow> keeps I (load_named name) \<Longrightarrow>
       I v2 \<Longrightarrow> I w5"
    ultimately show ?thesis
      by (intro later [of "published b ?T"] keeps_intros steady_published obeys_published assms(5))
  qed
  have "well_ordered s2" using wk unfolding tr(1) by (simp add: well_kept_iff)
  then show thesis by (rule that [OF _ p5 co(2)]) (rule rest)
qed

lemma activation_leaves:
  fixes P :: "('e, 'v) platform"
  assumes "faithful P" "tame P state_path" "tame P OS_RELEASE" "tame P (candidate_path name version w)"
    and "tame P (scoped_active_path name (scope w))" "plain name" "plain (scope w)" "recorded P well_kept w"
    and "bytes_at w (candidate_path name version w) = Some b" "length b < 2 ^ 64"
    and "activate_extension P name version request w = (Done (Ok a), w')" "\<not> replayed a"
  obtains s where "published b (scoped_active_path name (scope w)) w'" "recorded P (\<lambda>x. x = s) w'"
    "committed name version request s"
proof -
  let ?T = "scoped_active_path name (scope w)"
  obtain s2 r s3 w5 w6 previous where s2: "well_ordered s2" and p5: "published b ?T w5"
    and co: "prove_candidate P s2 name version request r w5 = (Done (Ok (), s3), w6)"
    and rest: "\<And>I. keeps I (prune_candidates name None) \<Longrightarrow> keeps I (prune_rollbacks name previous) \<Longrightarrow>
       (\<And>l. keeps I (say l)) \<Longrightarrow> I w6 \<Longrightarrow> I w'"
    by (rule activation_installs [OF assms]) blast
  have ob: "obeys P (published b ?T)" by (rule obeys_published [OF assms(5)])
  have st: "keeps (published b ?T) (store P s)" for s
    by (intro keeps_published keeps_store scoped_not_state)
  obtain c2 c3 v1 v2 v3 v4 where pr: "c2 = entry name (\<lambda>e. e\<lparr>phase := Starting\<rparr>) s2"
    "c3 = entry name (\<lambda>e. e\<lparr>phase := Soaking\<rparr>) c2" "s3 = entry name (committed_entry version request) c3"
    "store P c2 w5 = (Done (Ok ()), v1)" "wait_until_ready P r v1 = (Done (Ok ()), v2)"
    "store P c3 v2 = (Done (Ok ()), v3)" "soak P r v3 = (Done (Ok ()), v4)" "store P s3 v4 = (Done (Ok ()), w6)"
    by (rule prove_candidate_Ok [OF co]) blast
  have "published b ?T v2"
    using keepsD [OF keeps_wait_until_ready [OF ob] keepsD [OF st p5 pr(4)] pr(5)] .
  from keepsD [OF st this pr(6)] have "published b ?T v4"
    using keepsD [OF keeps_soak [OF ob] _ pr(7)] by blast
  then have p6: "published b ?T w6" and r6: "recorded P (\<lambda>x. x = s3) w6"
    using keepsD [OF st _ pr(8)] store_records [OF assms(1) _ published_coherent pr(8), of "\<lambda>x. x = s3"] by blast+
  have slot: "published b ?T w'"
    by (rule rest [of "published b ?T", OF _ _ _ p6]; intro keeps_published keeps_prune_candidates keeps_prune_rollbacks_other
        keeps_say scoped_file_part assms(6,7))
  have rec: "recorded P (\<lambda>x. x = s3) w'"
    by (rule rest [of "recorded P (\<lambda>x. x = s3)", OF _ _ _ r6]; intro keeps_recorded keeps_foreign foreign_paths keeps_say)
  have "well_ordered c3" using s2 unfolding pr(1,2) by simp
  from that [OF slot rec] committed_after [OF this, of name version request] show thesis by (simp add: pr(3))
qed

text \<open>
  C3: an activation that reports success is complete, durable and happens once. After any later power loss
  the active slot holds the candidate's bytes as they were staged, and the record that is loaded says
  that the version is active, that the extension is required and that the request is done. So the
  same request, whatever version it names, is answered as a replay and touches nothing.
\<close>

theorem activation_committed:
  fixes P :: "('e, 'v) platform"
  assumes "faithful P" "tame P state_path" "tame P OS_RELEASE" "tame P (candidate_path name version w)"
    and "tame P (scoped_active_path name (scope w))" "plain name" "plain (scope w)" "recorded P well_kept w"
    and "bytes_at w (candidate_path name version w) = Some b" "length b < 2 ^ 64"
    and "activate_extension P name version request w = (Done (Ok a), w')" "\<not> replayed a"
    and "power_loss w' w''" "faults w'' = []"
  shows "bytes_at w'' (scoped_active_path name (scope w)) = Some b \<and>
    (\<exists>s e. load_state P w'' = (Done (Ok s), w'') \<and> state_get s name = Some e \<and> phase e = Active \<and>
       active_version e = Some version \<and> candidate_version e = None \<and> required e \<and>
       (\<forall>i v. request = Some i \<longrightarrow> activate_extension P name v (Some i) w'' =
          (Done (Ok \<lparr>activated_version = v, activated_known_good = known_good_version e, replayed = True\<rparr>), w'')))"
proof -
  obtain s where s: "published b (scoped_active_path name (scope w)) w'" "recorded P (\<lambda>x. x = s) w'"
    "committed name version request s"
    by (rule activation_leaves [OF assms(1-12)])
  from survives_power_loss [OF published_survives [OF s(1)] assms(13)]
  have slot: "bytes_at w'' (scoped_active_path name (scope w)) = Some b" .
  from survives_power_loss_some [OF s(2) assms(13,14)] have load: "load_state P w'' = (Done (Ok s), w'')" by auto
  from s(3) obtain e where
    e: "state_get s name = Some e" "phase e = Active" "active_version e = Some version" "candidate_version e = None"
      "required e" "case request of None \<Rightarrow> True | Some i \<Rightarrow> already_completed e i"
    by (auto simp: committed_def split: option.splits)
  have "activate_extension P name v (Some i) w'' =
      (Done (Ok \<lparr>activated_version = v, activated_known_good = known_good_version e, replayed = True\<rparr>), w'')"
    if "request = Some i" for i v
    using e(1,6) that load
    by (simp add: activate_extension_def replay_def and_then_def mapping_err_def bind_def ret_def)
  with slot load e show ?thesis by blast
qed

text \<open>Version 2 of \<open>a\<close> on the bench, whose JSON library can write all of the records of its activation.\<close>

definition activation_platform :: "(unit, unit) platform" where
  "activation_platform =
     (let s1 = entry ''a'' (activating ''2'' (Some ''i'') (Some ''1'')) bench_state;
          s2 = entry ''a'' (\<lambda>e. e\<lparr>phase := Starting\<rparr>) s1;
          s3 = entry ''a'' (\<lambda>e. e\<lparr>phase := Soaking\<rparr>) s2
      in numbered [bench_state, s1, s2, s3, entry ''a'' (committed_entry ''2'' (Some ''i'')) s3]
           (''Avail'' @ [CHR 0x0A] @ ''99999999'' @ [CHR 0x0A]))"

lemma activation_platform_facts: "faithful activation_platform" "tame activation_platform p"
  "recorded activation_platform well_kept (bench fs)"
proof -
  show "faithful activation_platform" by (simp add: activation_platform_def Let_def numbered_faithful)
  show "tame activation_platform p" by (simp add: activation_platform_def Let_def tame_def inert_keeps numbered_inert)
  have "well_kept bench_state" by code_simp
  from bench_recorded [OF this] show "recorded activation_platform well_kept (bench fs)"
    by (simp add: activation_platform_def Let_def)
qed

lemma activation_committed_witness:
  "case activate_extension activation_platform ''a'' ''2'' (Some ''i'') (bench []) of (r, w') \<Rightarrow>
     bytes_at (w'\<lparr>older := []\<rparr>) ''/var/lib/extensions/a_9.raw'' = Some ''new'' \<and>
     activate_extension activation_platform ''a'' ''3'' (Some ''i'') (w'\<lparr>older := []\<rparr>) =
       (Done (Ok \<lparr>activated_version = ''3'', activated_known_good = Some ''1'', replayed = True\<rparr>), w'\<lparr>older := []\<rparr>)"
proof -
  let ?P = activation_platform and ?a = "\<lparr>activated_version = ''2'', activated_known_good = Some ''1'', replayed = False\<rparr>"
  let ?run = "activate_extension ?P ''a'' ''2'' (Some ''i'') (bench [])"
  have "case ?run of (r, w') \<Rightarrow> r = Done (Ok ?a) \<and> faults w' = [] \<and>
      map_option known_good_version (case fst (load_state ?P (w'\<lparr>older := []\<rparr>)) of
        Done q \<Rightarrow> (case q of Inr s \<Rightarrow> state_get s ''a'' | Inl _ \<Rightarrow> None) | Stopped _ \<Rightarrow> None) = Some (Some ''1'')"
    by code_simp
  then obtain w' where w': "?run = (Done (Ok ?a), w')" "faults (w'\<lparr>older := []\<rparr>) = []"
    "map_option known_good_version (case fst (load_state ?P (w'\<lparr>older := []\<rparr>)) of
        Done q \<Rightarrow> (case q of Inr s \<Rightarrow> state_get s ''a'' | Inl _ \<Rightarrow> None) | Stopped _ \<Rightarrow> None) = Some (Some ''1'')"
    by (cases ?run) auto
  have plain: "plain ''a''" "plain (scope (bench []))"
    "bytes_at (bench []) (candidate_path ''a'' ''2'' (bench [])) = Some ''new''"
    "scoped_active_path ''a'' (scope (bench [])) = ''/var/lib/extensions/a_9.raw''" by code_simp+
  from activation_committed [OF activation_platform_facts(1) activation_platform_facts(2)
      activation_platform_facts(2) activation_platform_facts(2) activation_platform_facts(2) plain(1,2)
      activation_platform_facts(3) plain(3) _ w'(1) _ power_loss_live w'(2)]
  show ?thesis using w'(3) unfolding w'(1) prod.case plain(4) by (auto split: option.splits)
qed

end
