(* ===== verification/Confinement.thy ===== *)
theory Confinement
  imports Bookkeeping
begin

text \<open>What the agent writes, and that it writes nothing else.\<close>

section \<open>Everything else on disk\<close>

text \<open>The paths that are none of the agent's: neither its record, its lock, an image nor a transaction file.\<close>

definition others :: "path \<Rightarrow> bool" where
  "others p \<longleftrightarrow> apart p \<and> p \<notin> {state_path, state_staging, lock_path}"

definition has_bytes :: "path \<Rightarrow> string option \<Rightarrow> 'e world \<Rightarrow> bool" where
  "has_bytes p z w \<longleftrightarrow> coherent w \<and> bytes_at w p = z"

lemma keeps_has_bytes: "(\<And>u. keeps (stays p u) m) \<Longrightarrow> keeps (has_bytes p z) m"
  by (rule keeps_through_stays) (auto simp: has_bytes_def stays_def frame_bytes_at)

lemma steady_has_bytes: "steady (has_bytes p z)"
  by (simp add: steady_def has_bytes_def)

lemma has_bytes_set_inode: "same_bytes x (inodes w i) \<Longrightarrow> has_bytes p z (set_inode i x w) = has_bytes p z w"
  by (cases "map_of (live w) p") (simp_all add: has_bytes_def, auto simp: bytes_at_def now_def set_inode_def same_bytes_def)

interpretation confined: attended P "\<lambda>w. tame P p \<and> others p \<longrightarrow> has_bytes p z w" "\<lambda>_. True"
  for P :: "('e, 'v) platform" and p z
proof
  let ?b = "tame P p \<and> others p" and ?I = "has_bytes p z"
  have ne: "others p \<Longrightarrow> apart p \<and> p \<noteq> state_path \<and> p \<noteq> state_staging \<and> p \<noteq> lock_path" by (simp add: others_def)
  have "obeys P ?I" if "tame P p"
    using that unfolding obeys_def tame_def by (auto intro!: keeps_has_bytes keeps_sleep keeps_say)
  then show "obeys P (\<lambda>w. ?b \<longrightarrow> ?I w)" by (intro obeys_implies) blast
  show "steady (\<lambda>w. ?b \<longrightarrow> ?I w)" by (intro steady_implies steady_has_bytes)
  have "keeps ?I (load_state P)" by (intro keeps_intros steady_has_bytes)
  then show "yields (\<lambda>w. ?b \<longrightarrow> ?I w) (\<lambda>r. case r of Inl _ \<Rightarrow> True | Inr _ \<Rightarrow> True) (load_state P)"
    by (intro yields_mono [OF yields_any] keeps_implies) (auto split: sum.split)
  show "keeps (\<lambda>w. ?b \<longrightarrow> ?I w) (store P s)" for s
    by (intro keeps_implies keeps_has_bytes keeps_store) (use ne in auto)
  show "keeps (\<lambda>w. ?b \<longrightarrow> ?I w) (durable_remove q)" if "slot_like q" for q
    using that by (intro keeps_implies keeps_has_bytes keeps_apart) (use ne in auto)
  show "keeps (\<lambda>w. ?b \<longrightarrow> ?I w) (durable_copy src q)" "keeps (\<lambda>w. ?b \<longrightarrow> ?I w) (durable_copy_file i q m)"
    if "slot_like q" "\<not> temporary q" for q src i m
    using that by (intro keeps_implies keeps_has_bytes keeps_apart; use ne in auto)+
  show "keeps (\<lambda>w. ?b \<longrightarrow> ?I w) (durable_mode q k)" for q k
  proof (intro keeps_implies keeps_durable_mode steady_has_bytes)
    show "keeps ?I (fs_sync_dir d)" for d by (intro keeps_has_bytes keeps_intros)
    show "?I w \<Longrightarrow> same_bytes x (inodes w i) \<Longrightarrow> ?I (set_inode i x w)" for w i x
      by (simp add: has_bytes_set_inode)
  qed
qed (use others_def in \<open>auto intro!: keeps_implies keeps_has_bytes keeps_apart keeps_lock\<close>)



end
