(* ===== verification/Feed.thy ===== *)
theory Feed
  imports Ops
begin

text \<open>
  Which of the versions that the feed offers is taken for a base, \<open>newest_for_base\<close> of
  \<open>agent/src/ops.rs\<close>, against a specification that does not look at the order of the feed.
\<close>

section \<open>The revisions of a base\<close>

text \<open>A base's first image has its name; a rebuild has a dash and a positive decimal number behind it.\<close>

definition revision_name :: "string \<Rightarrow> nat \<Rightarrow> string" where
  "revision_name base n = (if n = 0 then base else base @ ''-'' @ show_nat n)"

lemma char_of_digit_val: "is_ascii_digit c \<Longrightarrow> char_of (48 + digit_val c) = c"
  by (simp add: is_ascii_digit_def digit_val_def byte_def)

lemma digit_val_less: "is_ascii_digit c \<Longrightarrow> digit_val c < 10"
  unfolding is_ascii_digit_def digit_val_def by linarith

lemma show_decimal:
  "s \<noteq> [] \<Longrightarrow> list_all is_ascii_digit s \<Longrightarrow> hd s \<noteq> CHR ''0'' \<Longrightarrow> show_nat (decimal s) = s \<and> 0 < decimal s"
proof (induction s rule: rev_induct)
  case (snoc c s)
  have c: "digit_val c < 10" "char_of (48 + digit_val c) = c"
    using snoc.prems(2) by (simp_all add: char_of_digit_val digit_val_less)
  show ?case
  proof (cases "s = []")
    case True
    have "char_of (48 :: nat) = CHR ''0''" by code_simp
    then have "digit_val c \<noteq> 0" using snoc.prems(3) c(2) True by (metis add_0_right append_Nil list.sel(1))
    with True c show ?thesis by (simp add: decimal_def show_nat.simps)
  next
    case False
    with snoc have "show_nat (decimal s) = s" "0 < decimal s" by (simp_all add: hd_append)
    with c show ?thesis by (subst show_nat.simps) simp
  qed
qed simp

lemma hd_show_nat: "0 < n \<Longrightarrow> hd (show_nat n) \<noteq> CHR ''0''"
proof (induction n rule: show_nat.induct)
  case (1 n)
  show ?case
  proof (cases "n < 10")
    case True
    with 1(2) have "digit_val (char_of (48 + n)) \<noteq> digit_val (CHR ''0'')"
      using digit_val_char_of [of n] by (simp add: digit_val_def byte_def)
    with True show ?thesis by (subst show_nat.simps) auto
  next
    case False
    with 1 show_nat_digits [of "n div 10"] show ?thesis
      by (subst show_nat.simps) (simp add: hd_append)
  qed
qed

lemma revision_number_show: "0 < n \<Longrightarrow> n < 2 ^ 64 \<Longrightarrow> revision_number (show_nat n) = Some n"
proof -
  assume n: "0 < n" "n < 2 ^ 64"
  have "\<not> starts_with ''0'' (show_nat n)"
    using show_nat_digits [of n] hd_show_nat [OF n(1)] by (cases "show_nat n") (auto simp: starts_with_def)
  with n show ?thesis using show_nat_digits [of n] parse_show_nat [OF n(2)] by (simp add: revision_number_def)
qed

lemma revision_number_Some: "revision_number s = Some n \<Longrightarrow> s = show_nat n \<and> 0 < n \<and> n < 2 ^ 64"
proof -
  assume s: "revision_number s = Some n"
  then have d: "s \<noteq> []" "list_all is_ascii_digit s" "hd s \<noteq> CHR ''0''" "parse_uint 64 s = Some n"
    by (auto simp: revision_number_def starts_with_def split: if_splits) (cases s; simp)
  then have "CHR ''+'' \<noteq> hd s" by (cases s) (auto simp: is_ascii_digit_def byte_def)
  with d have "n = decimal s"
    by (cases s) (auto simp: parse_uint_def Let_def split: if_splits)
  with show_decimal [OF d(1-3)] parse_uint_bound [OF d(4)] show ?thesis by simp
qed

lemma revision_of_iff: "revision_of base v = Some n \<longleftrightarrow> v = revision_name base n \<and> n < 2 ^ 64"
proof
  assume "revision_of base v = Some n"
  then show "v = revision_name base n \<and> n < 2 ^ 64"
    by (auto simp: revision_of_def revision_name_def bind_eq_Some_conv dest: revision_number_Some split: if_splits)
next
  assume "v = revision_name base n \<and> n < 2 ^ 64"
  then show "revision_of base v = Some n"
    by (cases "n = 0") (auto simp: revision_of_def revision_name_def revision_number_show bind_eq_Some_conv)
qed


text \<open>The newest image of a base by what the feed has of it: the one with the largest number.\<close>

definition revisions_in :: "string \<Rightarrow> string list \<Rightarrow> nat set" where
  "revisions_in base offered = {n. n < 2 ^ 64 \<and> revision_name base n \<in> set offered}"

lemma later_max_fold:
  "fold later_max (map (\<lambda>n. (n, f n)) ns) (Some (m, f m)) = Some (Max (set (m # ns)), f (Max (set (m # ns))))"
proof (induction ns arbitrary: m)
  case (Cons n ns)
  have "later_max (n, f n) (Some (m, f m)) = Some (max m n, f (max m n))"
    by (simp add: later_max_def max_def)
  moreover have "Max (set (max m n # ns)) = Max (set (m # n # ns))"
    by (cases "ns = []") (simp_all add: ac_simps)
  ultimately show ?case using Cons [of "max m n"] by (simp del: set_simps)
qed simp

lemma found_revisions:
  "List.map_filter (\<lambda>v. map_option (\<lambda>r. (r, v)) (revision_of base v)) vs =
     map (\<lambda>n. (n, revision_name base n)) (List.map_filter (revision_of base) vs)"
proof (induction vs)
  case (Cons v vs)
  show ?case
  proof (cases "revision_of base v")
    case (Some n)
    then have "v = revision_name base n" using revision_of_iff by blast
    with Some Cons show ?thesis by (simp add: map_filter_simps)
  qed (simp add: Cons map_filter_simps)
qed (simp add: map_filter_simps)

lemma set_found_revisions: "set (List.map_filter (revision_of base) vs) = revisions_in base vs"
proof -
  have "n \<in> set (List.map_filter (revision_of base) vs) \<longleftrightarrow> (\<exists>v \<in> set vs. revision_of base v = Some n)" for n
    by (induction vs) (auto simp: map_filter_simps split: option.splits)
  then show ?thesis by (auto simp: revisions_in_def revision_of_iff)
qed

text \<open>
  C22: from whatever list the feed gives, in whatever order and with whatever duplicates, what is
  taken for a base is its image with the largest number, and nothing is taken only if the list has no
  image of this base: names that merely begin like it, or whose number is not a canonical decimal of 64
  bits, count for nothing.
\<close>

theorem newest_for_base_spec:
  "newest_for_base base offered =
     (if revisions_in base offered = {} then None
      else Some (revision_name base (Max (revisions_in base offered))))"
proof -
  let ?ns = "List.map_filter (revision_of base) offered"
  show ?thesis
  proof (cases ?ns)
    case Nil
    then have "revisions_in base offered = {}" by (simp flip: set_found_revisions)
    with Nil show ?thesis by (simp add: newest_for_base_def found_revisions)
  next
    case (Cons m ns)
    then have "revisions_in base offered = set (m # ns)" by (simp only: flip: set_found_revisions)
    with Cons show ?thesis
      using later_max_fold [of "revision_name base" ns m]
      by (simp add: newest_for_base_def found_revisions later_max_def [of _ None])
  qed
qed

end
