(* ===== verification/Block_Device.thy ===== *)
theory Block_Device
  imports World
begin

text \<open>
  The block device that is installed to, \<open>installer/src/sys.rs\<close>: opening, measuring, discarding,
  transferring and flushing, each as the system call that the wrapper makes and the loop it makes it in.
\<close>

section \<open>The device\<close>

text \<open>
  What the kernel and the device do with the next call: carry out at most so many bytes of it,
  acknowledge so many without storing them, interrupt it or refuse it. After the schedule everything
  is carried out.
\<close>

datatype answer = Moves nat | Drops nat | Interrupts | Refuses string

text \<open>
  \<open>media\<close> is what a read returns, \<open>stable\<close> what is there without power, \<open>sector\<close> the logical block
  size, \<open>direct\<close> whether the device is open with \<open>O_DIRECT\<close>, and \<open>scrubbed\<close> what a discard leaves.
\<close>

record device =
  media :: string
  stable :: string
  scrubbed :: string
  sector :: nat
  direct :: bool
  answers :: "answer list"

datatype sys_error =
    OsError (error_text: string)
  | InvalidInput (error_text: string)
  | InvalidDataError (error_text: string)
  | WriteZero (error_text: string)
  | UnexpectedEof (error_text: string)

definition EINTR :: string where
  "EINTR = ''Interrupted system call (os error 4)''"

definition EINVAL :: string where
  "EINVAL = ''Invalid argument (os error 22)''"

definition ENOSPC :: string where
  "ENOSPC = ''No space left on device (os error 28)''"

definition ENOMEM :: string where
  "ENOMEM = ''Cannot allocate memory (os error 12)''"

definition overlay :: "nat \<Rightarrow> string \<Rightarrow> string \<Rightarrow> string" where
  "overlay off new old = take off old @ take (length old - off) new @ drop (off + length new) old"

fun asked :: "device \<Rightarrow> answer option \<times> device" where
  "asked d = (case answers d of [] \<Rightarrow> (None, d) | a # as \<Rightarrow> (Some a, d\<lparr>answers := as\<rparr>))"

text \<open>A call that succeeds or fails as a whole.\<close>

definition granted :: "device \<Rightarrow> (sys_error + unit) \<times> device" where
  "granted d =
     (case asked d of
        (Some (Refuses e), d') \<Rightarrow> (Err (OsError e), d')
      | (Some Interrupts, d') \<Rightarrow> (Err (OsError EINTR), d')
      | (_, d') \<Rightarrow> (Ok (), d'))"

definition open_block :: "string \<Rightarrow> bool \<Rightarrow> device \<Rightarrow> (sys_error + unit) \<times> device" where
  "open_block p dir d =
     (if CHR 0x00 \<in> set p then (Err (InvalidInput ''path contains NUL''), d)
      else case granted d of
          (Inl e, d') \<Rightarrow> (Err e, d')
        | (Inr _, d') \<Rightarrow> (Ok (), d'\<lparr>direct := dir\<rparr>))"

definition device_size :: "device \<Rightarrow> (sys_error + nat) \<times> device" where
  "device_size d =
     (case granted d of (Inl e, d') \<Rightarrow> (Err e, d') | (Inr _, d') \<Rightarrow> (Ok (length (media d')), d'))"

definition discard :: "nat \<Rightarrow> device \<Rightarrow> (sys_error + unit) \<times> device" where
  "discard n d =
     (case granted d of
        (Inl e, d') \<Rightarrow> (Err e, d')
      | (Inr _, d') \<Rightarrow>
          (Ok (), d'\<lparr>media := overlay 0 (take n (scrubbed d')) (media d'),
             stable := overlay 0 (take n (scrubbed d')) (stable d')\<rparr>))"

definition fdatasync :: "device \<Rightarrow> (sys_error + unit) \<times> device" where
  "fdatasync d =
     (case granted d of
        (Inl e, d') \<Rightarrow> (Err e, d')
      | (Inr _, d') \<Rightarrow> (Ok (), d'\<lparr>stable := media d'\<rparr>))"

text \<open>
  \<open>sync_all\<close>, for the disks of the machine: \<open>sync\<close> returns nothing, so what a disk answers is lost.
\<close>

definition sync_all :: "device list \<Rightarrow> device list" where
  "sync_all ds = map (\<lambda>d. snd (fdatasync d)) ds"

text \<open>How the program ends: \<open>libc::reboot\<close> does not return unless the kernel refuses it.\<close>

datatype ending = Restarted | Powered_Off | Exited nat

definition reboot :: "bool \<Rightarrow> device list \<Rightarrow> ending \<times> device list" where
  "reboot permitted ds = (if permitted then Restarted else Exited 0, sync_all ds)"

definition power_off :: "bool \<Rightarrow> device list \<Rightarrow> ending \<times> device list" where
  "power_off permitted ds = (if permitted then Powered_Off else Exited 0, sync_all ds)"

section \<open>Transfers\<close>

datatype transfer = Count nat | Interrupted | Errno string

text \<open>\<open>O_DIRECT\<close> takes whole blocks only.\<close>

definition rejected :: "device \<Rightarrow> nat \<Rightarrow> nat \<Rightarrow> bool" where
  "rejected d off len \<longleftrightarrow> direct d \<and> (off mod sector d \<noteq> 0 \<or> len mod sector d \<noteq> 0)"

definition fits :: "device \<Rightarrow> nat \<Rightarrow> nat \<Rightarrow> nat" where
  "fits d off len = min len (length (media d) - off)"

definition pwrite :: "device \<Rightarrow> string \<Rightarrow> nat \<Rightarrow> transfer \<times> device" where
  "pwrite d b off =
     (if rejected d off (length b) then (Errno EINVAL, d)
      else if length (media d) \<le> off then (Errno ENOSPC, d)
      else case asked d of
          (None, d') \<Rightarrow>
            (Count (fits d off (length b)), d'\<lparr>media := overlay off b (media d')\<rparr>)
        | (Some (Moves n), d') \<Rightarrow>
            (Count (fits d off (length (take n b))), d'\<lparr>media := overlay off (take n b) (media d')\<rparr>)
        | (Some (Drops n), d') \<Rightarrow> (Count (fits d off (length (take n b))), d')
        | (Some Interrupts, d') \<Rightarrow> (Interrupted, d')
        | (Some (Refuses e), d') \<Rightarrow> (Errno e, d'))"

definition pread :: "device \<Rightarrow> nat \<Rightarrow> nat \<Rightarrow> (transfer \<times> string) \<times> device" where
  "pread d len off =
     (if rejected d off len then ((Errno EINVAL, []), d)
      else
        let got = (\<lambda>n d'. ((Count (fits d off (min n len)), take (min n len) (drop off (media d))), d'))
        in case asked d of
          (None, d') \<Rightarrow> got len d'
        | (Some (Moves n), d') \<Rightarrow> got n d'
        | (Some (Drops n), d') \<Rightarrow> got n d'
        | (Some Interrupts, d') \<Rightarrow> ((Interrupted, []), d')
        | (Some (Refuses e), d') \<Rightarrow> ((Errno e, []), d'))"

text \<open>One round of the loop of \<open>pwrite_all\<close>, and the loop.\<close>

datatype round = Again string nat | Broke sys_error

definition pwrite_round :: "device \<Rightarrow> string \<Rightarrow> nat \<Rightarrow> round \<times> device" where
  "pwrite_round d b off =
     (case pwrite d b off of
        (Interrupted, d') \<Rightarrow> (Again b off, d')
      | (Errno e, d') \<Rightarrow> (Broke (OsError e), d')
      | (Count n, d') \<Rightarrow>
          if n = 0 then (Broke (WriteZero ''short write''), d') else (Again (drop n b) (off + n), d'))"

lemma pwrite_round_shrinks:
  "pwrite_round d b off = (Again b' off', d') \<Longrightarrow> b \<noteq> [] \<Longrightarrow>
     length (answers d') + length b' < length (answers d) + length b"
  by (auto simp: pwrite_round_def pwrite_def split: if_splits prod.splits transfer.splits
      option.splits answer.splits list.splits)

function pwrite_all :: "device \<Rightarrow> string \<Rightarrow> nat \<Rightarrow> (sys_error + unit) \<times> device" where
  "pwrite_all d b off =
     (if b = [] then (Ok (), d)
      else case pwrite_round d b off of
          (Broke e, d') \<Rightarrow> (Err e, d')
        | (Again b' off', d') \<Rightarrow> pwrite_all d' b' off')"
  by pat_completeness auto
termination
  by (relation "measure (\<lambda>(d, b, off). length (answers d) + length b)") (auto dest: pwrite_round_shrinks [OF sym])

declare pwrite_all.simps [simp del]

function pread_exact :: "device \<Rightarrow> nat \<Rightarrow> nat \<Rightarrow> string \<Rightarrow> (sys_error + string) \<times> device" where
  "pread_exact d len off got =
     (if len = 0 then (Ok got, d)
      else case pread d len off of
          ((Interrupted, _), d') \<Rightarrow> pread_exact d' len off got
        | ((Errno e, _), d') \<Rightarrow> (Err (OsError e), d')
        | ((Count n, bytes), d') \<Rightarrow>
            if n = 0 then (Err (UnexpectedEof ''short read''), d')
            else pread_exact d' (len - n) (off + n) (got @ bytes))"
  by pat_completeness auto
termination
  by (relation "measure (\<lambda>(d, len, off, got). length (answers d) + len)")
    (auto simp: pread_def Let_def split: if_splits prod.splits option.splits answer.splits list.splits)

declare pread_exact.simps [simp del]

section \<open>Buffers and the payload\<close>

definition ALIGN :: u64 where
  "ALIGN = 4096"

definition padded_len :: "u64 \<Rightarrow> u64" where
  "padded_len len = (len div ALIGN + (if len mod ALIGN = 0 then 0 else 1)) * ALIGN"

text \<open>\<open>posix_memalign\<close> has \<open>memory\<close> bytes to give; the buffer is zeroed.\<close>

definition allocate :: "nat \<Rightarrow> u64 \<Rightarrow> sys_error + nat" where
  "allocate memory len =
     (if memory < unat (padded_len len) then Err (OsError ENOMEM) else Ok (unat (padded_len len)))"

definition aligned_buf :: "nat \<Rightarrow> u64 \<Rightarrow> sys_error + string" where
  "aligned_buf memory len =
     (case allocate memory len of Inl e \<Rightarrow> Err e | Inr n \<Rightarrow> Ok (replicate n (CHR 0x00)))"

text \<open>\<open>Mapping::open\<close> of a file that can be read as \<open>read\<close> says.\<close>

definition open_mapping :: "(path \<Rightarrow> sys_error + string) \<Rightarrow> path \<Rightarrow> sys_error + string" where
  "open_mapping rd p =
     (if CHR 0x00 \<in> set p then Err (InvalidInput ''path contains NUL'')
      else case rd p of
          Inl e \<Rightarrow> Err e
        | Inr b \<Rightarrow> if b = [] then Err (InvalidDataError ''empty payload'') else Ok b)"

section \<open>What the calls do\<close>

lemma length_overlay [simp]: "off + length b \<le> length m \<Longrightarrow> length (overlay off b m) = length m"
  by (simp add: overlay_def)

lemma length_overlay_start [simp]: "length (overlay 0 (take n b) m) = length m"
  by (simp add: overlay_def)

lemma overlay_append:
  "off + length a + length b \<le> length m \<Longrightarrow> overlay (off + length a) b (overlay off a m) = overlay off (a @ b) m"
  by (simp add: overlay_def ac_simps)

lemma nth_overlay:
  assumes "off + length b \<le> length m" "j < length m"
  shows "overlay off b m ! j = (if off \<le> j \<and> j < off + length b then b ! (j - off) else m ! j)"
  using assms by (auto simp: overlay_def nth_append)

lemma slice_overlay_same: "off + length b \<le> length m \<Longrightarrow> take (length b) (drop off (overlay off b m)) = b"
  by (simp add: overlay_def)

lemma slice_overlay_apart:
  assumes "off + length b \<le> length m" "o' + n \<le> off \<or> off + length b \<le> o'"
  shows "take n (drop o' (overlay off b m)) = take n (drop o' m)"
proof (rule nth_equalityI)
  show "length (take n (drop o' (overlay off b m))) = length (take n (drop o' m))" using assms by simp
  fix i assume "i < length (take n (drop o' (overlay off b m)))"
  then have i: "i < n" "o' + i < length m" using assms(1) by (simp, simp, linarith?)
  with assms(2) have "\<not> (off \<le> o' + i \<and> o' + i < off + length b)" by linarith
  with i assms(1) show "take n (drop o' (overlay off b m)) ! i = take n (drop o' m) ! i"
    by (auto simp: nth_overlay)
qed

text \<open>The schedule holds no acknowledged write that was not stored.\<close>

definition honest_device :: "device \<Rightarrow> bool" where
  "honest_device d \<longleftrightarrow> (\<forall>n. Drops n \<notin> set (answers d))"

text \<open>The same device, later.\<close>

definition later :: "device \<Rightarrow> device \<Rightarrow> bool" where
  "later d d' \<longleftrightarrow> length (media d') = length (media d) \<and> sector d' = sector d \<and>
     set (answers d') \<subseteq> set (answers d) \<and> length (answers d') \<le> length (answers d)"

lemma later_refl [simp]: "later d d" by (simp add: later_def)

lemma later_trans: "later d d' \<Longrightarrow> later d' d'' \<Longrightarrow> later d d''" by (auto simp: later_def)

lemma later_honest: "later d d' \<Longrightarrow> honest_device d \<Longrightarrow> honest_device d'"
  by (auto simp: later_def honest_device_def)

lemma asked_later: "asked d = (a, d') \<Longrightarrow> later d d' \<and> media d' = media d \<and> stable d' = stable d \<and> direct d' = direct d"
  by (auto simp: later_def split: list.splits)

lemma granted_later: "granted d = (r, d') \<Longrightarrow> later d d' \<and> media d' = media d \<and> stable d' = stable d \<and> direct d' = direct d"
  by (auto simp: granted_def simp del: asked.simps dest!: asked_later split: prod.splits option.splits answer.splits)

lemma pwrite_later:
  "pwrite d b off = (r, d') \<Longrightarrow> later d d' \<and> direct d' = direct d \<and> stable d' = stable d"
  by (auto simp: pwrite_def later_def overlay_def split: if_splits option.splits answer.splits list.splits)

lemma pwrite_Count:
  assumes "pwrite d b off = (Count n, d')" "honest_device d"
  shows "n \<le> length b \<and> off + n \<le> length (media d) \<and> media d' = overlay off (take n b) (media d)"
  using assms
  by (auto simp: pwrite_def fits_def honest_device_def overlay_def min_def
      split: if_splits option.splits answer.splits list.splits)

lemma pwrite_round_later:
  "pwrite_round d b off = (r, d') \<Longrightarrow> later d d' \<and> direct d' = direct d \<and> stable d' = stable d"
  by (auto simp: pwrite_round_def dest!: pwrite_later split: prod.splits transfer.splits if_splits)

lemma pwrite_round_Again:
  assumes "pwrite_round d b off = (Again b' off', d')" "honest_device d" "off + length b \<le> length (media d)"
  shows "\<exists>n. b' = drop n b \<and> off' = off + n \<and> n \<le> length b \<and> media d' = overlay off (take n b) (media d)"
proof -
  consider "pwrite d b off = (Interrupted, d')" "b' = b" "off' = off"
    | n where "pwrite d b off = (Count n, d')" "b' = drop n b" "off' = off + n"
    using assms(1) by (auto simp: pwrite_round_def split: prod.splits transfer.splits if_splits)
  then show ?thesis
  proof cases
    case 1
    then have "media d' = media d"
      by (auto simp: pwrite_def split: if_splits option.splits answer.splits list.splits)
    with 1 show ?thesis by (intro exI [of _ 0]) (simp add: overlay_def)
  next
    case 2
    with pwrite_Count [OF 2(1) assms(2)] show ?thesis by blast
  qed
qed

lemma pwrite_all_later:
  "pwrite_all d b off = (r, d') \<Longrightarrow> later d d' \<and> direct d' = direct d \<and> stable d' = stable d"
proof (induction d b off arbitrary: r d' rule: pwrite_all.induct)
  case (1 d b off)
  show ?case
  proof (cases "b = []")
    case False
    obtain rr d1 where rr: "pwrite_round d b off = (rr, d1)" by (cases "pwrite_round d b off")
    note now = pwrite_round_later [OF rr]
    show ?thesis
    proof (cases rr)
      case (Again b' off')
      with 1(1) [OF False rr [symmetric] Again] 1(2) rr False now show ?thesis
        by (auto simp: pwrite_all.simps [of d] intro: later_trans)
    qed (use 1(2) False rr now in \<open>auto simp: pwrite_all.simps [of d]\<close>)
  qed (use 1(2) in \<open>auto simp: pwrite_all.simps [of d]\<close>)
qed

lemma pwrite_all_Ok:
  assumes "pwrite_all d b off = (Ok (), d')" "honest_device d" "off + length b \<le> length (media d)"
  shows "media d' = overlay off b (media d)"
  using assms
proof (induction d b off arbitrary: d' rule: pwrite_all.induct)
  case (1 d b off)
  show ?case
  proof (cases "b = []")
    case True
    with 1(2) show ?thesis by (simp add: pwrite_all.simps [of d] overlay_def)
  next
    case False
    with 1(2) obtain b' off' d1 where step: "pwrite_round d b off = (Again b' off', d1)"
      and rest: "pwrite_all d1 b' off' = (Ok (), d')"
      by (auto simp: pwrite_all.simps [of d] split: prod.splits round.splits)
    obtain n where n: "b' = drop n b" "off' = off + n" "n \<le> length b" "media d1 = overlay off (take n b) (media d)"
      using pwrite_round_Again [OF step 1(3,4)] by blast
    have "later d d1" using pwrite_round_later [OF step] by blast
    with 1(3) have "honest_device d1" by (simp add: later_honest)
    moreover have "off' + length b' \<le> length (media d1)" using 1(4) n by simp
    ultimately have "media d' = overlay off' b' (media d1)"
      by (rule 1(1) [OF False step [symmetric] refl rest])
    with n 1(4) overlay_append [of off "take n b" "drop n b" "media d"] show ?thesis by simp
  qed
qed

lemma pread_Count:
  "pread d len off = ((Count n, bytes), d') \<Longrightarrow>
     n \<le> len \<and> bytes = take n (drop off (media d)) \<and> (n = 0 \<or> off + n \<le> length (media d))"
  by (auto simp: pread_def fits_def Let_def min_def split: if_splits prod.splits option.splits answer.splits)

lemma pread_later: "pread d len off = (r, d') \<Longrightarrow> later d d' \<and> media d' = media d \<and> stable d' = stable d"
  by (auto simp: pread_def Let_def later_def split: if_splits prod.splits option.splits answer.splits list.splits)

lemma pread_exact_later:
  "pread_exact d len off got = (r, d') \<Longrightarrow> later d d' \<and> media d' = media d \<and> stable d' = stable d"
proof (induction d len off got arbitrary: r d' rule: pread_exact.induct)
  case (1 d len off got)
  obtain t bytes d1 where step: "pread d len off = ((t, bytes), d1)" by (metis surj_pair)
  note now = pread_later [OF step]
  show ?case
  proof (cases "len = 0")
    case False
    show ?thesis
    proof (cases t)
      case (Count n)
      show ?thesis
      proof (cases "n = 0")
        case True
        with 1(3) False step now Count show ?thesis by (auto simp: pread_exact.simps [of d])
      next
        case n: False
        with 1(3) False step Count have "pread_exact d1 (len - n) (off + n) (got @ bytes) = (r, d')"
          by (simp add: pread_exact.simps [of d])
        with 1(1) [OF False step [symmetric] refl Count n] now show ?thesis by (metis later_trans)
      qed
    next
      case Interrupted
      with 1(3) False step have "pread_exact d1 len off got = (r, d')" by (simp add: pread_exact.simps [of d])
      with 1(2) [OF False step [symmetric] refl Interrupted] now show ?thesis by (metis later_trans)
    qed (use 1(3) False step now in \<open>auto simp: pread_exact.simps [of d]\<close>)
  qed (use 1(3) in \<open>auto simp: pread_exact.simps [of d]\<close>)
qed

lemma pread_exact_Ok:
  "pread_exact d len off got = (Ok bytes, d') \<Longrightarrow>
     bytes = got @ take len (drop off (media d)) \<and> (len = 0 \<or> off + len \<le> length (media d))"
proof (induction d len off got arbitrary: d' rule: pread_exact.induct)
  case (1 d len off got)
  obtain t some d1 where step: "pread d len off = ((t, some), d1)" by (metis surj_pair)
  note now = pread_later [OF step]
  show ?case
  proof (cases "len = 0")
    case False
    show ?thesis
    proof (cases t)
      case (Count n)
      with 1(3) False step have n: "n \<noteq> 0" and rest: "pread_exact d1 (len - n) (off + n) (got @ some) = (Ok bytes, d')"
        by (auto simp: pread_exact.simps [of d] split: if_splits)
      note c = pread_Count [OF step [unfolded Count]]
      have "take n (drop off (media d)) @ take (len - n) (drop (off + n) (media d)) = take len (drop off (media d))"
        using c take_add [of n "len - n" "drop off (media d)"] by (simp add: add.commute)
      moreover have "bytes = (got @ some) @ take (len - n) (drop (off + n) (media d)) \<and>
          (len - n = 0 \<or> off + n + (len - n) \<le> length (media d))"
        using 1(1) [OF False step [symmetric] refl Count n rest] now by simp
      ultimately show ?thesis using c n by auto
    next
      case Interrupted
      with 1(2) [OF False step [symmetric] refl Interrupted] 1(3) False step now show ?thesis
        by (auto simp: pread_exact.simps [of d])
    qed (use 1(3) False step in \<open>auto simp: pread_exact.simps [of d]\<close>)
  qed (use 1(3) in \<open>auto simp: pread_exact.simps [of d]\<close>)
qed

section \<open>The size of a buffer\<close>

text \<open>
  A buffer is the least multiple of 4096 that holds the length it was asked for, unless the
  length is within 4095 of 2^64: then the multiplication wraps and the buffer is empty.
\<close>

theorem padded_len_exact:
  "unat (padded_len n) = (if unat n \<le> 2 ^ 64 - 4096 then (unat n + 4095) div 4096 * 4096 else 0)"
proof -
  define k where "k = unat n"
  define q where "q = k div 4096"
  define r where "r = k mod 4096"
  have k: "k = 4096 * q + r" "r < 4096" by (simp_all add: q_def r_def)
  have b: "k < 2 ^ 64" unfolding k_def by (rule u64_bound)
  have "unat (n mod ALIGN) = r" by (simp add: ALIGN_def r_def k_def unat_mod_distrib)
  then have nz: "(n mod ALIGN = 0) = (r = 0)" by (metis unat_eq_zero)
  define u where "u = n div ALIGN"
  have d: "unat u = q" by (simp add: u_def ALIGN_def q_def k_def unat_div_distrib)
  have small: "q + 1 \<le> 2 ^ 52" using b k by simp
  then have t: "unat (u + (if n mod ALIGN = 0 then 0 else 1)) = q + (if r = 0 then 0 else 1)"
    unfolding nz by (auto simp: unat_word_ariths d)
  have m: "unat (t * 4096 :: u64) = unat t * 4096 mod 2 ^ 64" for t by (simp add: unat_word_ariths)
  have "unat (padded_len n) = (q + (if r = 0 then 0 else 1)) * 4096 mod 2 ^ 64"
    unfolding padded_len_def u_def [symmetric] t [symmetric] by (simp only: ALIGN_def m)
  moreover have "(k + 4095) div 4096 = q + (if r = 0 then 0 else 1)"
    using k by (auto intro!: div_nat_eqI)
  moreover have "q = 4503599627370495 \<and> r \<noteq> 0" if "\<not> k \<le> 2 ^ 64 - 4096"
  proof -
    have "4096 * q \<le> 2 ^ 64 - 4096" using small by simp
    with that k have "r \<noteq> 0" by linarith
    with that k b show ?thesis by simp
  qed
  moreover have "(q + (if r = 0 then 0 else 1)) * 4096 < 2 ^ 64" if "k \<le> 2 ^ 64 - 4096"
    using that k by auto
  ultimately show ?thesis unfolding k_def [symmetric] by auto
qed

end
