(* ===== verification/Floats.thy ===== *)
theory Floats
  imports Rust_Text "HOL-Library.Log_Nat"
begin

text \<open>
  Rust's \<open>f64\<close> and \<open>f32\<close> as the installer uses them: numbers that are not negative and far from the ends of
  the exponent range. Such a number is a rational here, and every operation rounds its exact result to the
  nearest number of so many significant bits, ties to even. \<open>Duration\<close>s and instants are in nanoseconds.
\<close>

section \<open>Rounding to an integer\<close>

definition half_even :: "rat \<Rightarrow> int" where
  "half_even x =
     (let q = \<lfloor>x\<rfloor>; r = x - of_int q in if r < 1 / 2 \<or> r = 1 / 2 \<and> even q then q else q + 1)"

lemma half_even_close: "\<bar>of_int (half_even x) - x\<bar> \<le> 1 / 2"
proof -
  have "of_int \<lfloor>x\<rfloor> \<le> x" "x < of_int \<lfloor>x\<rfloor> + 1" using floor_correct [of x] by simp_all
  then show ?thesis by (simp only: half_even_def Let_def of_int_add of_int_1 split: if_splits) linarith
qed

lemma half_even_of_int [simp]: "half_even (of_int k) = k"
  by (simp add: half_even_def)

lemma half_even_mono: "x \<le> y \<Longrightarrow> half_even x \<le> half_even y"
proof -
  assume le: "x \<le> y"
  show ?thesis
  proof (cases "\<lfloor>x\<rfloor> = \<lfloor>y\<rfloor>")
    case True
    with le show ?thesis by (auto simp: half_even_def Let_def)
  next
    case False
    with floor_mono [OF le] have "\<lfloor>x\<rfloor> + 1 \<le> \<lfloor>y\<rfloor>" by simp
    moreover have "half_even x \<le> \<lfloor>x\<rfloor> + 1" "\<lfloor>y\<rfloor> \<le> half_even y"
      by (simp_all add: half_even_def Let_def)
    ultimately show ?thesis by linarith
  qed
qed

lemma half_even_bounds: "of_int a \<le> x \<Longrightarrow> a \<le> half_even x" "x \<le> of_int a \<Longrightarrow> half_even x \<le> a"
  using half_even_mono [of "of_int a" x] half_even_mono [of x "of_int a"] by simp_all

section \<open>Rounding to so many significant bits\<close>

definition two_to :: "int \<Rightarrow> rat" where
  "two_to k = (if 0 \<le> k then 2 ^ nat k else 1 / 2 ^ nat (- k))"

lemma two_to_power_int: "two_to k = 2 powi k"
  by (simp add: two_to_def power_int_def field_simps)

lemma two_to_pos [simp]: "0 < two_to k"
  by (simp add: two_to_def)

lemma two_to_add: "two_to (j + k) = two_to j * two_to k"
  by (simp add: two_to_power_int power_int_add)

lemma two_to_mono: "j \<le> k \<Longrightarrow> two_to j \<le> two_to k"
  by (simp add: two_to_power_int power_int_increasing)

lemma two_to_nat [simp]: "two_to (int n) = 2 ^ n"
  by (simp add: two_to_def)

text \<open>The exponent: \<open>x\<close> is at least \<open>two_to (binade x)\<close> and less than the double of it.\<close>

definition binade :: "rat \<Rightarrow> int" where
  "binade x = (case quotient_of x of (a, b) \<Rightarrow>
     let k = bitlen a - bitlen b in if x < two_to k then k - 1 else k)"

lemma bitlen_two_to:
  assumes "0 < a"
  shows "two_to (bitlen a - 1) \<le> of_int a \<and> of_int a < two_to (bitlen a)"
proof -
  have pos: "0 < bitlen a" using assms bitlen_nonneg [of a] bitlen_eq_zero_iff [of a] by linarith
  then have "two_to (bitlen a - 1) = of_int (2 ^ nat (bitlen a - 1))" "two_to (bitlen a) = of_int (2 ^ nat (bitlen a))"
    by (simp_all add: two_to_def)
  with bitlen_bounds [OF assms] show ?thesis by (simp only: of_int_le_iff of_int_less_iff)
qed

lemma binade_bounds:
  assumes "0 < x"
  shows "two_to (binade x) \<le> x \<and> x < two_to (binade x + 1)"
proof -
  obtain a b where ab: "quotient_of x = (a, b)" by fastforce
  then have b: "0 < b" and x: "x = of_int a / of_int b"
    using quotient_of_denom_pos quotient_of_div by blast+
  with assms have a: "0 < a" by (simp add: zero_less_divide_iff)
  let ?k = "bitlen a - bitlen b"
  have "x < two_to (bitlen a) / two_to (bitlen b - 1)"
    unfolding x using a b bitlen_two_to [of a] bitlen_two_to [of b]
    by (intro frac_less) (auto simp: less_imp_le)
  also have "\<dots> = two_to (?k + 1)"
    by (simp add: two_to_power_int power_int_diff power_int_add field_simps)
  finally have up: "x < two_to (?k + 1)" .
  have "two_to (?k - 1) = two_to (bitlen a - 1 - bitlen b)" by (simp add: algebra_simps)
  also have "\<dots> = two_to (bitlen a - 1) / two_to (bitlen b)"
    by (simp add: two_to_power_int power_int_diff)
  also have "\<dots> \<le> x"
    unfolding x using a b bitlen_two_to [of a] bitlen_two_to [of b]
    by (intro frac_le) auto
  finally have "two_to (?k - 1) \<le> x" .
  with up show ?thesis by (auto simp: binade_def ab Let_def)
qed

lemma binade_unique: "two_to k \<le> x \<Longrightarrow> x < two_to (k + 1) \<Longrightarrow> binade x = k"
proof -
  assume k: "two_to k \<le> x" "x < two_to (k + 1)"
  then have "0 < x" using two_to_pos [of k] by linarith
  note b = binade_bounds [OF this]
  show ?thesis
  proof (rule ccontr)
    assume "binade x \<noteq> k"
    then have "binade x + 1 \<le> k \<or> k + 1 \<le> binade x" by linarith
    with two_to_mono b k show False by (meson leD order_trans)
  qed
qed

definition last_place :: "nat \<Rightarrow> rat \<Rightarrow> rat" where
  "last_place p x = two_to (binade x - int p + 1)"

definition float_round :: "nat \<Rightarrow> rat \<Rightarrow> rat" where
  "float_round p x =
     (if x \<le> 0 then 0 else of_int (half_even (x / last_place p x)) * last_place p x)"

definition f64 :: "rat \<Rightarrow> rat" where
  "f64 x = float_round 53 x"

definition f32 :: "rat \<Rightarrow> rat" where
  "f32 x = float_round 24 x"

lemma last_place_pos [simp]: "0 < last_place p x"
  by (simp add: last_place_def)

lemma two_to_last_place: "two_to (binade x + 1) = 2 ^ p * last_place p x"
  using two_to_add [of "int p" "binade x - int p + 1"] by (simp add: last_place_def add.commute)

lemma two_to_last_place': "two_to (binade x) = 2 ^ p * last_place p x / 2"
  using two_to_last_place [of x p] two_to_add [of "binade x" 1] by (simp add: two_to_def [of 1])

lemma float_round_error:
  assumes "0 \<le> x"
  shows "\<bar>float_round p x - x\<bar> \<le> x / 2 ^ p"
proof (cases "x = 0")
  case False
  with assms have x: "0 < x" by simp
  let ?u = "last_place p x"
  have "float_round p x - x = (of_int (half_even (x / ?u)) - x / ?u) * ?u"
    using x less_imp_neq [OF last_place_pos [of p x]] by (simp add: float_round_def left_diff_distrib)
  then have "\<bar>float_round p x - x\<bar> \<le> 1 / 2 * ?u"
    using mult_right_mono [OF half_even_close [of "x / ?u"], of ?u] less_imp_le [OF last_place_pos [of p x]]
    by (simp only: abs_mult abs_of_nonneg)
  also have "\<dots> \<le> x / 2 ^ p"
    using binade_bounds [OF x] two_to_last_place' [of x p] by (simp add: field_simps)
  finally show ?thesis .
qed (simp add: float_round_def)

lemma float_round_nonneg [simp]: "0 \<le> float_round p x"
proof (cases "x \<le> 0")
  case False
  then have "0 \<le> half_even (x / last_place p x)" by (intro half_even_bounds) (simp add: less_imp_le)
  then show ?thesis by (simp add: float_round_def less_imp_le)
qed (simp add: float_round_def)

lemma float_round_binade:
  assumes "0 < x" "0 < p"
  shows "two_to (binade x) \<le> float_round p x" "float_round p x \<le> two_to (binade x + 1)"
proof -
  let ?u = "last_place p x"
  let ?h = "half_even (x / ?u)"
  have u: "0 \<le> ?u" and e: "float_round p x = of_int ?h * ?u"
    using assms(1) by (simp_all add: less_imp_le float_round_def)
  obtain q where p: "p = Suc q" using assms(2) by (cases p) auto
  have l: "two_to (binade x) = 2 ^ q * ?u" "two_to (binade x + 1) = 2 ^ p * ?u"
    using two_to_last_place [of x p] two_to_last_place' [of x p] by (simp_all add: p)
  have "of_int (2 ^ q) \<le> x / ?u" "x / ?u \<le> of_int (2 ^ p)"
    using binade_bounds [OF assms(1)] by (simp_all add: l pos_le_divide_eq pos_divide_le_eq)
  then have "2 ^ q \<le> ?h" "?h \<le> 2 ^ p" by (auto intro: half_even_bounds)
  then have "of_int (2 ^ q) * ?u \<le> of_int ?h * ?u" "of_int ?h * ?u \<le> of_int (2 ^ p) * ?u"
    by (simp_all only: of_int_le_iff mult_right_mono u)
  then show "two_to (binade x) \<le> float_round p x" "float_round p x \<le> two_to (binade x + 1)"
    by (simp_all add: l e)
qed

text \<open>Rounding keeps the order.\<close>

lemma float_round_mono:
  assumes "x \<le> y" "0 < p"
  shows "float_round p x \<le> float_round p y"
proof (cases "0 < x")
  case True
  with assms have y: "0 < y" by simp
  note bx = binade_bounds [OF True] and "by" = binade_bounds [OF y]
  show ?thesis
  proof (cases "binade x = binade y")
    case True
    then have "last_place p x = last_place p y" by (simp add: last_place_def)
    with \<open>0 < x\<close> y assms(1) show ?thesis
      by (simp add: float_round_def half_even_mono divide_right_mono less_imp_le mult_right_mono)
  next
    case False
    have "binade x + 1 \<le> binade y"
    proof (rule ccontr)
      assume "\<not> binade x + 1 \<le> binade y"
      with False have "binade y + 1 \<le> binade x" by linarith
      from two_to_mono [OF this] bx "by" assms(1) show False by linarith
    qed
    from two_to_mono [OF this] show ?thesis
      using float_round_binade(2) [OF True assms(2)] float_round_binade(1) [OF y assms(2)] by linarith
  qed
next
  case False
  then show ?thesis by (simp add: float_round_def [of p x])
qed

lemma float_round_0 [simp]: "float_round p 0 = 0"
  by (simp add: float_round_def)

lemma float_round_1 [simp]: "0 < p \<Longrightarrow> float_round p 1 = 1"
proof -
  assume p: "0 < p"
  have b: "binade 1 = 0" by (rule binade_unique) (simp_all add: two_to_def)
  then have "last_place p 1 = 1 / of_int (2 ^ (p - 1))"
    using p by (cases p) (simp_all add: last_place_def two_to_def)
  then show ?thesis by (simp add: float_round_def del: of_int_power)
qed

lemma f64_nonneg [simp]: "0 \<le> f64 x" and f32_nonneg [simp]: "0 \<le> f32 x"
  by (simp_all add: f64_def f32_def)

lemma f64_mono: "x \<le> y \<Longrightarrow> f64 x \<le> f64 y" and f32_mono: "x \<le> y \<Longrightarrow> f32 x \<le> f32 y"
  by (simp_all add: f64_def f32_def float_round_mono)

lemma f_constants [simp]: "f64 0 = 0" "f64 1 = 1" "f32 0 = 0" "f32 1 = 1"
  by (simp_all add: f64_def f32_def)

lemma f64_pos: "0 < x \<Longrightarrow> 0 < f64 x"
  using float_round_binade(1) [of x 53] less_le_trans [OF two_to_pos [of "binade x"]] by (simp add: f64_def)

section \<open>What the standard library makes of them\<close>

text \<open>\<open>a as f64 / b as f64\<close>, clamped and narrowed: the share of a total that is done.\<close>

definition share :: "nat \<Rightarrow> nat \<Rightarrow> rat" where
  "share a b = f32 (max 0 (min 1 (f64 (f64 (of_nat a) / f64 (of_nat b)))))"

text \<open>\<open>Duration::as_secs_f64\<close> and \<open>Duration::as_secs_f32\<close>.\<close>

definition as_secs_f64 :: "nat \<Rightarrow> rat" where
  "as_secs_f64 d = f64 (f64 (of_nat (d div 1000000000)) + f64 (of_nat (d mod 1000000000) / 1000000000))"

definition as_secs_f32 :: "nat \<Rightarrow> rat" where
  "as_secs_f32 d =
     f32 (f32 (of_nat (d div 1000000000)) + f32 (f32 (of_nat (d mod 1000000000)) / 1000000000))"

text \<open>\<open>Display\<close> with a precision, and with zeros to the left of it.\<close>

definition pad_zeros :: "nat \<Rightarrow> string \<Rightarrow> string" where
  "pad_zeros w s = replicate (w - length s) (CHR ''0'') @ s"

definition decimal_point :: "nat \<Rightarrow> nat \<Rightarrow> string" where
  "decimal_point d n =
     show_nat (n div 10 ^ d) @ (if d = 0 then [] else ''.'' @ pad_zeros d (show_nat (n mod 10 ^ d)))"

definition fixed :: "nat \<Rightarrow> rat \<Rightarrow> string" where
  "fixed d x = decimal_point d (nat (half_even (x * 10 ^ d)))"

text \<open>
  \<open>Display\<close> of the number nearest to so many hundredths: the shortest text that is read back as this number.
  Below \<open>10 ^ 15\<close> it is the text of the hundredths themselves.
\<close>

definition show_hundredths :: "nat \<Rightarrow> string" where
  "show_hundredths n =
     (if n mod 100 = 0 then show_nat (n div 100)
      else if n mod 10 = 0 then decimal_point 1 (n div 10)
      else decimal_point 2 n)"

text \<open>\<open>f64::round\<close>: half away from zero.\<close>

definition round_half_up :: "rat \<Rightarrow> int" where
  "round_half_up x = \<lfloor>x + 1 / 2\<rfloor>"

section \<open>The share\<close>

lemma share_range: "0 \<le> share a b" "share a b \<le> 1"
  using f32_mono [of "max 0 (min 1 (f64 (f64 (of_nat a) / f64 (of_nat b))))" 1] by (simp_all add: share_def)

lemma share_mono: "a \<le> a' \<Longrightarrow> share a b \<le> share a' b"
  unfolding share_def
  by (intro f32_mono max.mono min.mono f64_mono divide_right_mono order_refl f64_nonneg of_nat_mono)

lemma share_full: "0 < b \<Longrightarrow> share b b = 1"
  using f64_pos [of "of_nat b"] by (simp add: share_def)

lemma share_none [simp]: "share 0 b = 0"
  by (simp add: share_def)

lemma f64_error: "0 \<le> x \<Longrightarrow> \<bar>f64 x - x\<bar> \<le> x / 2 ^ 53"
  unfolding f64_def by (rule float_round_error)

lemma f64_between: "0 \<le> x \<Longrightarrow> x * (1 - 1 / 2 ^ 53) \<le> f64 x \<and> f64 x \<le> x * (1 + 1 / 2 ^ 53)"
  using f64_error [of x] by (auto simp: abs_if algebra_simps split: if_splits)

lemma share_close:
  assumes "0 < b" "a \<le> b"
  shows "\<bar>share a b - of_nat a / of_nat b\<bar> \<le> 1 / 2 ^ 23"
proof -
  let ?e = "1 / 2 ^ 53 :: rat" and ?a = "of_nat a :: rat" and ?b = "of_nat b :: rat"
  let ?q = "f64 ?a / f64 ?b" and ?r = "?a / ?b"
  have b: "0 < ?b" "0 < f64 ?b" using assms(1) by (simp_all add: f64_pos)
  have r: "0 \<le> ?r" "?r \<le> 1" using assms by simp_all
  have "?q \<le> (?a * (1 + ?e)) / (?b * (1 - ?e))"
    using f64_between [of ?a] f64_between [of ?b] b by (intro frac_le) simp_all
  also have "\<dots> = ?r * ((1 + ?e) / (1 - ?e))" by simp
  also have "\<dots> \<le> ?r * (1 + 3 * ?e)" using r by (intro mult_left_mono) simp_all
  finally have up: "?q \<le> ?r * (1 + 3 * ?e)" .
  have "?r * (1 - 2 * ?e) \<le> ?r * ((1 - ?e) / (1 + ?e))" using r by (intro mult_left_mono) simp_all
  also have "\<dots> = (?a * (1 - ?e)) / (?b * (1 + ?e))" by simp
  also have "\<dots> \<le> ?q"
    using f64_between [of ?a] f64_between [of ?b] b by (intro frac_le) simp_all
  finally have low: "?r * (1 - 2 * ?e) \<le> ?q" .
  have "0 \<le> ?q" using b by simp
  then have "\<bar>f64 ?q - ?q\<bar> \<le> ?q * ?e" using f64_error [of ?q] by simp
  moreover have "?q \<le> 1 + 3 * ?e"
    by (rule order_trans [OF up]) (use mult_right_mono [OF r(2), of "1 + 3 * ?e"] in simp)
  ultimately have "\<bar>f64 ?q - ?q\<bar> \<le> (1 + 3 * ?e) * ?e"
    using mult_right_mono [of ?q "1 + 3 * ?e" ?e] by (simp only: order_trans divide_nonneg_pos zero_le_one zero_less_power zero_less_numeral)
  moreover have "?r * (3 * ?e) \<le> 3 * ?e" "?r * (2 * ?e) \<le> 3 * ?e"
    using r mult_right_mono [of ?r 1 "3 * ?e"] mult_right_mono [of ?r 1 "2 * ?e"] by simp_all
  with up low have "\<bar>?q - ?r\<bar> \<le> 3 * ?e"
    by (simp only: distrib_left right_diff_distrib mult_1_right abs_le_iff) linarith
  moreover have "(1 + 3 * ?e) * ?e \<le> 2 * ?e" by simp
  ultimately have "\<bar>f64 ?q - ?r\<bar> \<le> 5 * ?e" by (simp only: abs_le_iff) linarith
  moreover define c where "c = max 0 (min 1 (f64 ?q))"
  ultimately have c: "\<bar>c - ?r\<bar> \<le> 5 * ?e" "0 \<le> c" "c \<le> 1"
    using r by (auto simp: max_def min_def abs_if split: if_splits)
  have "\<bar>f32 c - c\<bar> \<le> c / 2 ^ 24" using float_round_error [of c 24] c(2) by (simp add: f32_def)
  moreover have "c / 2 ^ 24 \<le> 1 / 2 ^ 24" using c(3) by (intro divide_right_mono) simp_all
  ultimately have "\<bar>f32 c - ?r\<bar> \<le> 1 / 2 ^ 24 + 5 * ?e" using c(1) by (simp only: abs_le_iff) linarith
  then show ?thesis by (simp add: share_def c_def)
qed

section \<open>The sizes that the installer shows\<close>

text \<open>\<open>format_size\<close> and \<open>format_bytes_exact\<close> of \<open>installer/src/disk.rs\<close>.\<close>

definition format_size :: "nat \<Rightarrow> string" where
  "format_size bytes =
     (let b = f64 (of_nat bytes) in
      if 1000000000000 \<le> b then fixed 2 (f64 (b / 1000000000000)) @ '' TB''
      else if 1000000000 \<le> b then fixed 1 (f64 (b / 1000000000)) @ '' GB''
      else fixed 0 (f64 (b / 1000000)) @ '' MB'')"

definition format_bytes_exact :: "nat \<Rightarrow> string" where
  "format_bytes_exact bytes =
     show_hundredths (nat (round_half_up (f64 (f64 (f64 (of_nat bytes) / 1073741824) * 100)))) @ '' GiB''"

lemma scaled_close: "\<bar>x - y\<bar> \<le> z \<Longrightarrow> 0 < c \<Longrightarrow> \<bar>x * c - y * c\<bar> \<le> z * (c :: rat)"
  using mult_right_mono [of "\<bar>x - y\<bar>" z c] by (simp add: abs_mult_pos left_diff_distrib)

lemma close_trans: "\<bar>x - y\<bar> \<le> p \<Longrightarrow> \<bar>y - z\<bar> \<le> q \<Longrightarrow> p + q \<le> r \<Longrightarrow> \<bar>x - z\<bar> \<le> (r :: rat)"
  by linarith

text \<open>The number shown is within a hundredth of half a unit of its last digit.\<close>

lemma fixed_close:
  assumes "n < 2 ^ 64" "0 < u" "d \<le> 2" "100000000 * n \<le> u * 2 ^ 51"
  shows "\<exists>k. fixed d (f64 (f64 (of_nat n) / of_nat u)) = decimal_point d k \<and>
    \<bar>of_nat k * of_nat u - of_nat n * 10 ^ d\<bar> \<le> 51 / 100 * (of_nat u :: rat)"
proof -
  let ?e = "1 / 2 ^ 53 :: rat" and ?n = "of_nat n :: rat" and ?u = "of_nat u :: rat"
  let ?x = "f64 (f64 ?n / ?u)" and ?k = "half_even (f64 (f64 ?n / ?u) * 10 ^ d)"
  have u: "0 < ?u" using assms(2) by simp
  have b: "\<bar>f64 ?n - ?n\<bar> \<le> ?n * ?e" using f64_error [of ?n] by simp
  have "\<bar>?x - f64 ?n / ?u\<bar> \<le> f64 ?n / ?u * ?e" using f64_error [of "f64 ?n / ?u"] u by simp
  from scaled_close [OF this u] u have "\<bar>?x * ?u - f64 ?n\<bar> \<le> f64 ?n * ?e" by simp
  moreover have "f64 ?n * ?e \<le> ?n * (2 * ?e)" using f64_between [of ?n] by simp
  ultimately have "\<bar>?x * ?u - f64 ?n\<bar> \<le> ?n * (2 * ?e)" by (rule order_trans)
  then have x: "\<bar>?x * ?u - ?n\<bar> \<le> ?n * (3 * ?e)" by (rule close_trans [OF _ b]) simp
  have ten: "(10 :: rat) ^ d \<le> 100" using power_increasing [OF assms(3), of "10 :: rat"] by simp
  have "\<bar>?x * ?u * 10 ^ d - ?n * 10 ^ d\<bar> \<le> ?n * (3 * ?e) * 10 ^ d"
    using scaled_close [OF x, of "10 ^ d"] by simp
  also have "\<dots> \<le> ?n * (3 * ?e) * 100" using ten by (intro mult_left_mono) simp_all
  also have "\<dots> \<le> ?u / 100"
    using assms(4) [THEN of_nat_mono [where 'a = rat]] by simp
  finally have s: "\<bar>?x * ?u * 10 ^ d - ?n * 10 ^ d\<bar> \<le> ?u / 100" .
  have "\<bar>of_int ?k - ?x * 10 ^ d\<bar> \<le> 1 / 2" by (rule half_even_close)
  from scaled_close [OF this u] have "\<bar>of_int ?k * ?u - ?x * ?u * 10 ^ d\<bar> \<le> ?u / 2" by (simp add: ac_simps)
  with s have "\<bar>of_int ?k * ?u - ?n * 10 ^ d\<bar> \<le> 51 / 100 * ?u" by (simp only: abs_le_iff) linarith
  moreover have "0 \<le> ?k" by (rule half_even_bounds) simp
  ultimately show ?thesis by (intro exI [of _ "nat ?k"]) (simp add: fixed_def)
qed

text \<open>
  What the operator reads of a disk's size is right: up to 51 hundredths of a unit of the last digit shown.
\<close>

lemma format_size_close:
  assumes "n < 2 ^ 64"
  shows "\<exists>k d u suffix. (d, u, suffix) \<in> {(2, 1000000000000, '' TB''), (1, 1000000000, '' GB''), (0, 1000000, '' MB'')} \<and>
    format_size n = decimal_point d k @ suffix \<and>
    \<bar>of_nat k * of_nat u - of_nat n * 10 ^ d\<bar> \<le> 51 / 100 * (of_nat u :: rat)"
proof -
  let ?b = "f64 (of_nat n)"
  have up: "of_nat n \<le> (1001 / 1000) * ?b" using f64_between [of "of_nat n"] by simp
  consider "1000000000000 \<le> ?b" | "1000000000 \<le> ?b" "?b < 1000000000000" | "?b < 1000000000" by linarith
  then show ?thesis
  proof cases
    case 1
    obtain k where k: "fixed 2 (f64 (?b / of_nat 1000000000000)) = decimal_point 2 k"
      "\<bar>of_nat k * of_nat 1000000000000 - of_nat n * 10 ^ 2\<bar> \<le> 51 / 100 * (of_nat 1000000000000 :: rat)"
      using fixed_close [OF assms, of 1000000000000 2] assms by auto
    with 1 show ?thesis by (intro exI [of _ k] exI [of _ 2] exI [of _ 1000000000000]) (simp add: format_size_def)
  next
    case 2
    with up have "(of_nat n :: rat) \<le> of_nat 1001000000000" by simp
    then have n: "n \<le> 1001000000000" by (simp only: of_nat_le_iff)
    obtain k where k: "fixed 1 (f64 (?b / of_nat 1000000000)) = decimal_point 1 k"
      "\<bar>of_nat k * of_nat 1000000000 - of_nat n * 10 ^ 1\<bar> \<le> 51 / 100 * (of_nat 1000000000 :: rat)"
      using fixed_close [OF assms, of 1000000000 1] n by auto
    with 2 show ?thesis by (intro exI [of _ k] exI [of _ 1] exI [of _ 1000000000]) (simp add: format_size_def)
  next
    case 3
    with up have "(of_nat n :: rat) \<le> of_nat 1001000000" by simp
    then have n: "n \<le> 1001000000" by (simp only: of_nat_le_iff)
    obtain k where k: "fixed 0 (f64 (?b / of_nat 1000000)) = decimal_point 0 k"
      "\<bar>of_nat k * of_nat 1000000 - of_nat n * 10 ^ 0\<bar> \<le> 51 / 100 * (of_nat 1000000 :: rat)"
      using fixed_close [OF assms, of 1000000 0] n by auto
    with 3 show ?thesis by (intro exI [of _ k] exI [of _ 0] exI [of _ 1000000]) (simp add: format_size_def)
  qed
qed
lemma format_size_examples:
  "format_size 2000398934016 = ''2.00 TB''" "format_size 500107862016 = ''500.1 GB''"
  "format_bytes_exact 1267000000 = ''1.18 GiB''" "format_bytes_exact 5368709120 = ''5 GiB''"
  by code_simp+
end
