(* ===== verification/Payload.thy ===== *)
theory Payload
  imports Block_Device Floats
begin

text \<open>
  The carried image, \<open>installer/src/image.rs\<close>: its metadata, the buffer it is decoded into and the
  thread that decodes it. The decompressor is the parameter \<open>zstd\<close>. A turn of the thread is one call of
  \<open>decompress_stream\<close> and what is done with its result; the watermark is published once in a turn.
\<close>

section \<open>Metadata\<close>

record meta =
  meta_size :: u64
  meta_label :: string

fun meta_lines :: "string list \<Rightarrow> u64 option \<Rightarrow> string \<Rightarrow> u64 option \<times> string" where
  "meta_lines [] n l = (n, l)"
| "meta_lines (line # rest) n l =
     (case split_once CHR ''='' line of
        None \<Rightarrow> meta_lines rest n l
      | Some (k, v) \<Rightarrow>
          if trim k = ''size'' then meta_lines rest (map_option word_of_nat (parse_uint 64 (trim v))) l
          else if trim k = ''label'' then meta_lines rest n (trim v)
          else meta_lines rest n l)"

definition read_meta :: "(path \<Rightarrow> sys_error + string) \<Rightarrow> path \<Rightarrow> sys_error + meta" where
  "read_meta rd p =
     (case rd p of
        Inl e \<Rightarrow> Err e
      | Inr text \<Rightarrow>
          if \<not> utf8_valid text then Err (InvalidDataError ''stream did not contain valid UTF-8'')
          else (case meta_lines (str_lines text) None [] of
              (Some n, l) \<Rightarrow>
                if 0 < n then Ok \<lparr>meta_size = n, meta_label = l\<rparr>
                else Err (InvalidDataError ''image metadata has no usable size'')
            | (None, _) \<Rightarrow> Err (InvalidDataError ''image metadata has no usable size'')))"

section \<open>The image in memory\<close>

text \<open>\<open>buf\<close> is the storage, \<open>img_len\<close> the length of the image and \<open>ready\<close> the watermark.\<close>

record image =
  buf :: string
  img_len :: nat
  ready :: nat
  failed :: "string option"
  label :: string

definition image_total :: "image \<Rightarrow> nat" where
  "image_total im = img_len im"

definition image_complete :: "image \<Rightarrow> bool" where
  "image_complete im \<longleftrightarrow> ready im = img_len im"

text \<open>\<open>Image::fraction\<close>.\<close>

definition image_fraction :: "image \<Rightarrow> rat" where
  "image_fraction im = (if img_len im = 0 then 1 else share (ready im) (img_len im))"

definition image_slice :: "image \<Rightarrow> nat \<Rightarrow> nat \<Rightarrow> string" where
  "image_slice im off len = take len (drop off (buf im))"

text \<open>One round of the loop of \<open>wait_until\<close>: \<open>None\<close> to wait on.\<close>

definition wait_round :: "image \<Rightarrow> nat \<Rightarrow> (string + unit) option" where
  "wait_round im bound =
     (if ready im < bound then (case failed im of Some m \<Rightarrow> Some (Err m) | None \<Rightarrow> None)
      else Some (Ok ()))"

section \<open>The decoder\<close>

text \<open>
  \<open>create\<close> makes a context and \<open>set_window\<close> raises its window limit. \<open>decompress\<close> takes the rest of
  the input and the room in the output; it returns the name of an error, or the context, the bytes it
  produced, how much of the input it used and its hint.
\<close>

record 'z zstd =
  create :: 'z
  set_window :: "'z \<Rightarrow> 'z option"
  decompress :: "'z \<Rightarrow> string \<Rightarrow> nat \<Rightarrow> string + ('z \<times> string \<times> nat \<times> nat)"

datatype 'z decoder =
    Raising
  | Feeding 'z nat nat
  | Inside 'z nat string nat
  | Decoded "string + unit"
  | Quit

definition FEED :: nat where
  "FEED = 4194304"

definition produced_all :: "nat \<Rightarrow> nat \<Rightarrow> string + unit" where
  "produced_all produced len =
     (if produced \<noteq> len
      then Err (''image decoded to '' @ show_nat produced @ '' bytes, expected '' @ show_nat len)
      else Ok ())"

text \<open>\<open>decompress_stream\<close> into the storage from \<open>produced\<close> on, and the store to the watermark.\<close>

definition publish :: "string \<Rightarrow> nat \<Rightarrow> image \<Rightarrow> image" where
  "publish out produced im = im\<lparr>buf := overlay produced out (buf im), ready := produced + length out\<rparr>"

definition decode_turn :: "'z zstd \<Rightarrow> string \<Rightarrow> 'z decoder \<Rightarrow> image \<Rightarrow> 'z decoder \<times> image" where
  "decode_turn Z source dec im =
     (case dec of
        Raising \<Rightarrow>
          (case set_window Z (create Z) of
             None \<Rightarrow> (Decoded (Err ''could not raise the zstd window limit''), im)
           | Some c \<Rightarrow> (Feeding c 0 0, im))
      | Feeding c consumed produced \<Rightarrow>
          if consumed < length source then
            (let e = min (consumed + FEED) (length source)
             in (Inside c e (take (e - consumed) (drop consumed source)) produced, im))
          else (Decoded (produced_all produced (img_len im)), im)
      | Inside c e input produced \<Rightarrow>
          (case decompress Z c input (img_len im - produced) of
             Inl name \<Rightarrow> (Decoded (Err (''image decode failed: '' @ name)), im)
           | Inr (c', out, used, hint) \<Rightarrow>
               let produced' = produced + length out; input' = drop used input
               in (if produced' = img_len im then Decoded (produced_all produced' (img_len im))
                   else if input' = [] \<or> hint = 0 then Feeding c' e produced'
                   else Inside c' e input' produced', publish out produced im))
      | Decoded r \<Rightarrow> (Quit, case r of Inl m \<Rightarrow> im\<lparr>failed := Some m\<rparr> | Inr _ \<Rightarrow> im)
      | Quit \<Rightarrow> (Quit, im))"

text \<open>\<open>Image::start\<close>: the storage, the mapping, and the thread about to run.\<close>

definition start_decoding ::
  "nat \<Rightarrow> (path \<Rightarrow> sys_error + string) \<Rightarrow> path \<Rightarrow> meta \<Rightarrow> sys_error + (image \<times> string)" where
  "start_decoding memory rd payload m =
     (case aligned_buf memory (meta_size m) of
        Inl e \<Rightarrow> Err e
      | Inr storage \<Rightarrow>
          (case open_mapping rd payload of
             Inl e \<Rightarrow> Err e
           | Inr source \<Rightarrow>
               Ok (\<lparr>buf = storage, img_len = unat (meta_size m), ready = 0, failed = None,
                    label = meta_label m\<rparr>, source)))"

text \<open>The thread on its own, for at most so many turns.\<close>

fun decode :: "nat \<Rightarrow> 'z zstd \<Rightarrow> string \<Rightarrow> 'z decoder \<Rightarrow> image \<Rightarrow> 'z decoder \<times> image" where
  "decode 0 Z source dec im = (dec, im)"
| "decode (Suc n) Z source dec im =
     (case decode_turn Z source dec im of (dec', im') \<Rightarrow>
        if dec' = Quit then (dec', im') else decode n Z source dec' im')"

section \<open>What the thread keeps\<close>

text \<open>What the documentation of zstd promises of a call, and that it gets on with the work.\<close>

definition zstd_sound :: "'z zstd \<Rightarrow> bool" where
  "zstd_sound Z \<longleftrightarrow>
     (\<forall>c input room c' out used hint. decompress Z c input room = Inr (c', out, used, hint) \<longrightarrow>
        length out \<le> room \<and> used \<le> length input)"

definition zstd_advances :: "'z zstd \<Rightarrow> bool" where
  "zstd_advances Z \<longleftrightarrow>
     (\<forall>c input room c' out used hint. decompress Z c input room = Inr (c', out, used, hint) \<longrightarrow>
        input \<noteq> [] \<longrightarrow> 0 < room \<longrightarrow> out \<noteq> [] \<or> 0 < used \<or> hint = 0)"

definition decoding :: "string \<Rightarrow> 'z decoder \<Rightarrow> image \<Rightarrow> bool" where
  "decoding source dec im \<longleftrightarrow>
     ready im \<le> img_len im \<and> img_len im \<le> length (buf im) \<and>
     (case dec of
        Raising \<Rightarrow> ready im = 0 \<and> 0 < img_len im \<and> failed im = None
      | Feeding c consumed produced \<Rightarrow>
          produced = ready im \<and> ready im < img_len im \<and> failed im = None
      | Inside c e input produced \<Rightarrow>
          produced = ready im \<and> ready im < img_len im \<and> failed im = None \<and> input \<noteq> [] \<and> e \<le> length source
      | Decoded r \<Rightarrow> failed im = None \<and> (r = Ok () \<longleftrightarrow> ready im = img_len im)
      | Quit \<Rightarrow> failed im = None \<longleftrightarrow> ready im = img_len im)"

lemma zstd_soundD:
  "zstd_sound Z \<Longrightarrow> decompress Z c input room = Inr (c', out, used, hint) \<Longrightarrow>
     length out \<le> room \<and> used \<le> length input"
  unfolding zstd_sound_def by blast

text \<open>The storage only grows: what lies below the watermark stays.\<close>

definition extends :: "image \<Rightarrow> image \<Rightarrow> bool" where
  "extends im im' \<longleftrightarrow>
     ready im \<le> ready im' \<and> take (ready im) (buf im') = take (ready im) (buf im) \<and>
     img_len im' = img_len im \<and> length (buf im') = length (buf im) \<and> label im' = label im"

lemma extends_refl [simp]: "extends im im" by (simp add: extends_def)

lemma extends_trans: "extends a b \<Longrightarrow> extends b c \<Longrightarrow> extends a c"
proof -
  assume ab: "extends a b" and bc: "extends b c"
  then have r: "ready a \<le> ready b" by (simp add: extends_def)
  then have "take (ready a) (buf c) = take (ready a) (take (ready b) (buf c))" by simp
  also have "\<dots> = take (ready a) (take (ready b) (buf b))" using bc by (simp add: extends_def)
  also have "\<dots> = take (ready a) (buf a)" using ab r by (simp add: extends_def)
  finally show ?thesis using ab bc by (auto simp: extends_def)
qed

lemma extends_slice:
  assumes "extends im im'" "off + len \<le> ready im"
  shows "image_slice im' off len = image_slice im off len"
proof -
  have "take len (drop off (take (ready im) (buf i))) = take len (drop off (buf i))" for i
    using assms(2) by (simp add: drop_take min_def)
  then show ?thesis using assms(1) unfolding extends_def image_slice_def by metis
qed

lemma publish_extends:
  assumes "ready im + length out \<le> img_len im" "img_len im \<le> length (buf im)"
  shows "extends im (publish out (ready im) im)"
  using assms by (simp add: extends_def publish_def overlay_def)

lemma decode_turn_decoding:
  assumes "zstd_sound Z" "decoding source dec im" "decode_turn Z source dec im = (dec', im')"
  shows "decoding source dec' im' \<and> extends im im'"
proof (cases dec)
  case Raising
  with assms show ?thesis by (auto simp: decode_turn_def decoding_def split: option.splits)
next
  case (Feeding c consumed produced)
  with assms show ?thesis
    by (auto simp: decode_turn_def decoding_def Let_def produced_all_def FEED_def split: if_splits)
next
  case (Inside c e input produced)
  show ?thesis
  proof (cases "decompress Z c input (img_len im - produced)")
    case (Inl name)
    with Inside assms show ?thesis by (auto simp: decode_turn_def decoding_def)
  next
    case (Inr r)
    obtain c' out used hint where r: "r = (c', out, used, hint)" by (cases r)
    from zstd_soundD [OF assms(1) Inr [unfolded r]] have room: "length out \<le> img_len im - produced" ..
    have im': "im' = publish out (ready im) im"
      using Inside Inr r assms by (auto simp: decode_turn_def decoding_def Let_def)
    have "decoding source dec' im'"
      using Inside Inr r assms room
      by (auto simp: decode_turn_def decoding_def Let_def publish_def produced_all_def overlay_def split: if_splits)
    moreover have "extends im im'"
      unfolding im' by (rule publish_extends) (use Inside assms room in \<open>auto simp: decoding_def\<close>)
    ultimately show ?thesis ..
  qed
next
  case (Decoded r)
  with assms show ?thesis
    by (auto simp: decode_turn_def decoding_def extends_def split: sum.splits)
next
  case Quit
  with assms show ?thesis by (simp add: decode_turn_def)
qed

section \<open>It ends\<close>

fun turns_left :: "nat \<Rightarrow> 'z decoder \<Rightarrow> image \<Rightarrow> nat" where
  "turns_left n Raising im = 2 * n + 2 * img_len im + 4"
| "turns_left n (Feeding c consumed p) im = 2 * (n - consumed) + 2 * (img_len im - p) + 3"
| "turns_left n (Inside c e input p) im = 2 * (n - e + length input) + 2 * (img_len im - p) + 2"
| "turns_left n (Decoded r) im = 1"
| "turns_left n Quit im = 0"

lemma turn_arith: "d \<le> p \<Longrightarrow> 0 < l \<Longrightarrow> 2 * x + 2 * d + 3 < 2 * (x + l) + 2 * (p :: nat) + 2"
  by presburger

lemma turn_arith': "u \<le> l \<Longrightarrow> n \<le> r - p \<Longrightarrow> 0 < n \<or> 0 < u \<Longrightarrow>
    2 * (x + (l - u)) + 2 * (r - (p + n)) + 2 < 2 * (x + l) + 2 * (r - p) + (2 :: nat)"
  by (auto simp flip: diff_diff_left)

lemma decode_turn_advances:
  assumes "zstd_sound Z" "zstd_advances Z" "decoding source dec im" "dec \<noteq> Quit"
    "decode_turn Z source dec im = (dec', im')"
  shows "turns_left (length source) dec' im' < turns_left (length source) dec im"
proof (cases dec)
  case (Feeding c consumed produced)
  with assms show ?thesis
    by (auto simp: decode_turn_def decoding_def Let_def produced_all_def FEED_def split: if_splits)
next
  case (Inside c e input produced)
  show ?thesis
  proof (cases "decompress Z c input (img_len im - produced)")
    case (Inl name)
    with Inside assms show ?thesis by (auto simp: decode_turn_def)
  next
    case (Inr r)
    obtain c' out used hint where r: "r = (c', out, used, hint)" by (cases r)
    note io = zstd_soundD [OF assms(1) Inr [unfolded r]]
    have "input \<noteq> []" "0 < img_len im - produced" using assms(3) Inside by (auto simp: decoding_def)
    with assms(2) Inr [unfolded r] have "out \<noteq> [] \<or> 0 < used \<or> hint = 0"
      unfolding zstd_advances_def by blast
    then have on: "0 < length out \<or> 0 < used \<or> hint = 0" "0 < length input" using \<open>input \<noteq> []\<close> by auto
    let ?p = "produced + length out"
    consider (full) "?p = img_len im" | (fed) "?p \<noteq> img_len im" "drop used input = [] \<or> hint = 0"
      | (more) "?p \<noteq> img_len im" "drop used input \<noteq> []" "hint \<noteq> 0" by blast
    then show ?thesis
    proof cases
      case full
      with assms(5) Inside Inr r show ?thesis by (auto simp: decode_turn_def Let_def)
    next
      case fed
      then have "dec' = Feeding c' e ?p" "img_len im' = img_len im"
        using assms(5) Inside Inr r by (auto simp: decode_turn_def Let_def publish_def)
      moreover have "img_len im - ?p \<le> img_len im - produced" by simp
      ultimately show ?thesis using Inside on(2) by (simp only: turns_left.simps turn_arith)
    next
      case more
      then have "dec' = Inside c' e (drop used input) ?p" "img_len im' = img_len im"
        using assms(5) Inside Inr r by (auto simp: decode_turn_def Let_def publish_def)
      with Inside turn_arith' [of used "length input" "length out" "img_len im" produced] on(1) more(3) io
      show ?thesis by (simp only: turns_left.simps length_drop) simp
    qed
  qed
qed (use assms in \<open>auto simp: decode_turn_def split: option.splits\<close>)

lemma decode_quits:
  assumes "zstd_sound Z" "zstd_advances Z" "decoding source dec im" "turns_left (length source) dec im \<le> n"
    "decode n Z source dec im = (dec', im')"
  shows "dec' = Quit \<and> decoding source dec' im' \<and> extends im im'"
  using assms(3-5)
proof (induction n arbitrary: dec im)
  case 0
  then show ?case by (cases dec) auto
next
  case (Suc n)
  obtain dec1 im1 where turn: "decode_turn Z source dec im = (dec1, im1)" by fastforce
  note d1 = decode_turn_decoding [OF assms(1) Suc.prems(1) turn]
  show ?case
  proof (cases "dec1 = Quit")
    case True
    with Suc.prems turn d1 show ?thesis by auto
  next
    case False
    have "turns_left (length source) dec1 im1 \<le> n"
    proof (cases "dec = Quit")
      case True
      with turn False show ?thesis by (simp add: decode_turn_def)
    next
      case not_quit: False
      from decode_turn_advances [OF assms(1,2) Suc.prems(1) not_quit turn] Suc.prems(2)
      show ?thesis by linarith
    qed
    with Suc.IH [of dec1 im1] Suc.prems(3) turn d1 False show ?thesis
      by (auto intro: extends_trans)
  qed
qed


section \<open>The metadata that the build writes\<close>

lemma lines_from_line:
  "CHR 0x0A \<notin> set l \<Longrightarrow> lines_from acc (l @ CHR 0x0A # s) = strip_cr (acc @ l) # lines_from [] s"
  by (induction l arbitrary: acc) auto

lemma trim_plain:
  assumes "\<forall>p \<in> set white. \<not> starts_with p s" "\<forall>p \<in> set white. \<not> starts_with (rev p) (rev s)"
  shows "trim s = s"
proof -
  have "trim_seqs white s = s" using assms(1) by (rule trim_seqs_id)
  moreover have "trim_seqs (map rev white) (rev s) = rev s"
    by (rule trim_seqs_id) (use assms(2) in auto)
  ultimately show ?thesis by (simp add: trim_def)
qed

lemma digit_not_white: "is_ascii_digit c \<Longrightarrow> p \<in> set white \<Longrightarrow> c \<noteq> hd p \<and> c \<noteq> last p"
  by (auto simp: white_def is_ascii_digit_def byte_def)

lemma trim_digits:
  assumes "s \<noteq> []" "list_all is_ascii_digit s"
  shows "trim s = s"
proof (rule trim_plain; intro ballI notI)
  fix p assume p: "p \<in> set white"
  then have "p \<noteq> []" by (auto simp: white_def)
  {
    assume "starts_with p s"
    with \<open>p \<noteq> []\<close> have "hd s = hd p" by (auto simp: starts_with_iff)
    with assms digit_not_white [OF _ p, of "hd s"] show False by (cases s) auto
  next
    assume "starts_with (rev p) (rev s)"
    then have "\<exists>r. s = r @ p" by (simp add: ends_with_iff flip: ends_with_def)
    with \<open>p \<noteq> []\<close> have "last s = last p" "s \<noteq> []" by auto
    have "is_ascii_digit (last s)"
      using assms(2) last_in_set [OF \<open>s \<noteq> []\<close>] unfolding list_all_iff by blast
    with digit_not_white [OF this p] \<open>last s = last p\<close> show False by simp
  }
qed

lemma utf8_valid_append: "utf8_valid a \<Longrightarrow> utf8_valid b \<Longrightarrow> utf8_valid (a @ b)"
proof (induction "length a" arbitrary: a rule: less_induct)
  case less
  show ?case
  proof (cases a)
    case (Cons c r)
    define x where "x = byte c"
    note valid = less.prems(1) [unfolded Cons utf8_valid.simps(2) Let_def x_def [symmetric]]
    note goal = utf8_valid.simps(2) [of c "r @ b", unfolded Let_def x_def [symmetric]]
    have shorter: "utf8_valid t \<Longrightarrow> length t < length a \<Longrightarrow> utf8_valid (t @ b)" for t
      using less.hyps less.prems(2) by blast
    consider "x < 0x80" | "\<not> x < 0x80" "0xC2 \<le> x \<and> x \<le> 0xDF"
      | "\<not> x < 0x80" "\<not> x \<le> 0xDF" "0xE0 \<le> x \<and> x \<le> 0xEF"
      | "\<not> x < 0x80" "\<not> x \<le> 0xDF" "\<not> x \<le> 0xEF" "0xF0 \<le> x \<and> x \<le> 0xF4"
      using valid by (auto split: if_splits)
    then show ?thesis
    proof cases
      case 1
      with valid have "utf8_valid r" by simp
      with 1 shorter [of r] show ?thesis unfolding Cons append_Cons goal by simp
    next
      case 2
      with valid obtain d t where "r = d # t" "cont d 0x80 0xBF" "utf8_valid t"
        by (auto split: list.splits)
      with 2 shorter [of t] show ?thesis unfolding Cons append_Cons goal by simp
    next
      case 3
      with valid obtain d e t where "r = d # e # t" "cont e 0x80 0xBF" "utf8_valid t"
        "cont d (if x = 0xE0 then 0xA0 else 0x80) (if x = 0xED then 0x9F else 0xBF)"
        by (simp split: list.splits)
      with 3 shorter [of t] show ?thesis unfolding Cons append_Cons goal by simp
    next
      case 4
      with valid obtain d e f t where "r = d # e # f # t" "cont e 0x80 0xBF" "cont f 0x80 0xBF" "utf8_valid t"
        "cont d (if x = 0xF0 then 0x90 else 0x80) (if x = 0xF4 then 0x8F else 0xBF)"
        by (simp split: list.splits)
      with 4 shorter [of t] show ?thesis unfolding Cons append_Cons goal by simp
    qed
  qed (use less.prems in simp)
qed

lemma strip_cr_plain: "(\<And>r. s \<noteq> r @ [CHR 0x0D]) \<Longrightarrow> strip_cr s = s"
  by (auto simp: strip_cr_def split: option.splits)

lemma split_once_key: "CHR ''='' \<notin> set k \<Longrightarrow> split_once CHR ''='' (k @ CHR ''='' # v) = Some (k, v)"
  by (simp add: split_once_Some_iff)

text \<open>
  C39: what the build writes is what the installer reads: \<open>printf 'size=%s\nlabel=%s\n'\<close> of a size that
  fits 64 bits and is not zero and of a label of one line without white space around it.
\<close>

theorem meta_roundtrip:
  assumes "rd p = Ok (''size='' @ show_nat n @ [CHR 0x0A] @ ''label='' @ l @ [CHR 0x0A])"
    and "0 < n" "n < 2 ^ 64" "utf8_valid l" "trim l = l" "CHR 0x0A \<notin> set l" "\<And>r. l \<noteq> r @ [CHR 0x0D]"
  shows "read_meta rd p = Ok \<lparr>meta_size = word_of_nat n, meta_label = l\<rparr>"
proof -
  let ?text = "(''size='' @ show_nat n) @ CHR 0x0A # (''label='' @ l) @ CHR 0x0A # []"
  have digits: "show_nat n \<noteq> []" "list_all is_ascii_digit (show_nat n)" using show_nat_digits by auto
  then have digit: "c \<in> set (show_nat n) \<Longrightarrow> is_ascii_digit c" for c by (simp add: list_all_iff)
  have "CHR 0x0A \<notin> set (''size='' @ show_nat n)" "CHR 0x0A \<notin> set (''label='' @ l)"
    using assms(6) digit [of "CHR 0x0A"] by (auto simp: is_ascii_digit_def byte_def)
  note no_newline = this
  have size_line: "strip_cr (''size='' @ show_nat n) = ''size='' @ show_nat n"
  proof (rule strip_cr_plain)
    fix r show "''size='' @ show_nat n \<noteq> r @ [CHR 0x0D]"
      using digits(1) digit [of "last (show_nat n)"] by (auto simp: is_ascii_digit_def byte_def dest!: arg_cong [where f = last])
  qed
  have label_line: "strip_cr (''label='' @ l) = ''label='' @ l"
  proof (rule strip_cr_plain)
    fix r show "''label='' @ l \<noteq> r @ [CHR 0x0D]"
      using assms(7) [of "butlast l"] by (cases l rule: rev_cases) auto
  qed
  have lines: "str_lines ?text = [''size='' @ show_nat n, ''label='' @ l]"
    unfolding str_lines_def lines_from_line [OF no_newline(1)] append_Nil size_line
      lines_from_line [OF no_newline(2)] label_line by simp
  have "trim (show_nat n) = show_nat n" using digits by (rule trim_digits)
  moreover have "trim ''size'' = ''size''" "trim ''label'' = ''label''" by code_simp+
  moreover have "split_once CHR ''='' (''size='' @ show_nat n) = Some (''size'', show_nat n)"
    "split_once CHR ''='' (''label='' @ l) = Some (''label'', l)"
    using split_once_key [of "''size''" "show_nat n"] split_once_key [of "''label''" l] by auto
  ultimately have meta: "meta_lines (str_lines ?text) None [] = (Some (word_of_nat n), l)"
    unfolding lines using assms(3,5) by (simp add: parse_show_nat)
  have "(0 :: u64) < word_of_nat n" using assms(2,3) by (simp add: word_less_nat_alt unat_of_nat)
  moreover have "utf8_valid ?text"
  proof -
    have "ascii ''size=''" "ascii ''label=''" "ascii [CHR 0x0A]" by code_simp+
    moreover have "byte c < 0x80" if "c \<in> set (show_nat n)" for c
      using digit [OF that] by (simp add: is_ascii_digit_def)
    then have "ascii (show_nat n)" by (simp add: ascii_def list_all_iff)
    ultimately have "utf8_valid ((''size='' @ show_nat n) @ [CHR 0x0A] @ (''label='' @ l) @ [CHR 0x0A])"
      using assms(4) by (blast intro: utf8_valid_append ascii_valid)
    then show ?thesis by simp
  qed
  ultimately show ?thesis using assms(1) meta by (simp add: read_meta_def)
qed

lemma meta_roundtrip_witness:
  "read_meta (\<lambda>_. Ok (''size='' @ show_nat 1258291200 @ [CHR 0x0A] @ ''label='' @ ''carbideos 7'' @ [CHR 0x0A])) ''m'' =
     Ok \<lparr>meta_size = 1258291200, meta_label = ''carbideos 7''\<rparr>"
proof -
  let ?rd = "\<lambda>_. Ok (''size='' @ show_nat 1258291200 @ [CHR 0x0A] @ ''label='' @ ''carbideos 7'' @ [CHR 0x0A])"
  have "utf8_valid ''carbideos 7''" "trim ''carbideos 7'' = ''carbideos 7''" by code_simp+
  moreover have "''carbideos 7'' \<noteq> r @ [CHR 0x0D]" for r
    by (auto dest!: arg_cong [where f = last])
  ultimately show ?thesis
    using meta_roundtrip [of ?rd "''m''" 1258291200 "''carbideos 7''"] by simp
qed

text \<open>A decompressor for files that are stored as they are.\<close>

definition stored_zstd :: "unit zstd" where
  "stored_zstd =
     \<lparr>create = (), set_window = Some,
      decompress = (\<lambda>c input room.
        Inr ((), take (min room (length input)) input, min room (length input), 1))\<rparr>"

lemma stored_zstd_sound: "zstd_sound stored_zstd" "zstd_advances stored_zstd"
  by (auto simp: zstd_sound_def zstd_advances_def stored_zstd_def)


end
