(* ===== verification/Install.thy ===== *)
theory Install
  imports Payload
begin

text \<open>
  The write path, \<open>installer/src/install.rs\<close>: \<open>run\<close>, its workers and the decoder as threads that take
  turns in any order, and the progress that the interface reads meanwhile.
\<close>

section \<open>Progress\<close>

datatype install_stage = Preparing | Discarding | Writing | Flushing | Verifying | Complete

definition stage_label :: "install_stage \<Rightarrow> string" where
  "stage_label s =
     (case s of Preparing \<Rightarrow> ''PREPARING'' | Discarding \<Rightarrow> ''CLEARING'' | Writing \<Rightarrow> ''WRITING''
      | Flushing \<Rightarrow> ''FLUSHING'' | Verifying \<Rightarrow> ''VERIFYING'' | Complete \<Rightarrow> ''COMPLETE'')"

text \<open>\<open>stage as usize\<close>, and back.\<close>

fun stage_number :: "install_stage \<Rightarrow> nat" where
  "stage_number Preparing = 0"
| "stage_number Discarding = 1"
| "stage_number Writing = 2"
| "stage_number Flushing = 3"
| "stage_number Verifying = 4"
| "stage_number Complete = 5"

record progress =
  written :: nat
  goal :: nat
  stage_store :: nat
  finished :: bool
  problem :: "string option"

definition new_progress :: progress where
  "new_progress = \<lparr>written = 0, goal = 0, stage_store = 0, finished = False, problem = None\<rparr>"

definition progress_stage :: "progress \<Rightarrow> install_stage" where
  "progress_stage p =
     (if stage_store p = 0 then Preparing else if stage_store p = 1 then Discarding
      else if stage_store p = 2 then Writing else if stage_store p = 3 then Flushing
      else if stage_store p = 4 then Verifying else Complete)"

text \<open>\<open>Progress::fraction\<close>, which the bar shows.\<close>

definition progress_fraction :: "progress \<Rightarrow> rat" where
  "progress_fraction p = (if goal p = 0 then 0 else share (written p) (goal p))"

section \<open>The threads\<close>

definition SPAN :: nat where
  "SPAN = 33554432"

definition spans :: "nat \<Rightarrow> nat" where
  "spans tot = (tot + (SPAN - 1)) div SPAN"

definition span_len :: "nat \<Rightarrow> nat \<Rightarrow> nat" where
  "span_len tot k = min SPAN (tot - k * SPAN)"

text \<open>
  Where a worker is: before its look at \<open>failure\<close>, before \<open>fetch_add\<close>, waiting for span \<open>k\<close>, writing
  it with everything before an offset done, before counting so many bytes, before storing its failure,
  or returned.
\<close>

datatype worker =
    Looking
  | Claiming
  | Awaiting nat
  | Putting nat nat
  | Counting nat
  | Failing string
  | Gone

text \<open>Where \<open>run\<close> is. \<open>Raise\<close> is \<open>fail\<close> before it stores the error.\<close>

datatype main_thread =
    SetPreparing
  | SetGoal
  | CheckImage
  | OpenTarget
  | Measure
  | SetDiscarding
  | DiscardAll
  | SetWriting
  | Spawn
  | Join
  | SetFlushing
  | Flush
  | SetVerifying
  | Verify
  | SetComplete
  | Raise string string
  | SetFinished
  | Returned

text \<open>
  What an installation is given: the decompressor and the payload, the device's name, the parallelism
  the system reports and the memory it has.
\<close>

record 'z installation =
  codec :: "'z zstd"
  payload :: string
  target :: string
  parallelism :: "nat option"
  memory :: nat

record 'z session =
  carried :: image
  decoder :: "'z decoder"
  device :: device
  progress :: progress
  runner :: main_thread
  next_span :: nat
  span_failure :: "string option"
  workers :: "worker list"

abbreviation set_stage :: "install_stage \<Rightarrow> 'z session \<Rightarrow> 'z session" where
  "set_stage st s \<equiv> s\<lparr>progress := (progress s)\<lparr>stage_store := stage_number st\<rparr>\<rparr>"

definition thread_count :: "nat option \<Rightarrow> nat" where
  "thread_count par = min (case par of Some n \<Rightarrow> n | None \<Rightarrow> 4) 8"

subsection \<open>Workers\<close>

definition span_end :: "nat \<Rightarrow> nat \<Rightarrow> nat" where
  "span_end tot k = k * SPAN + span_len tot k"

text \<open>One turn of a worker: what it becomes, and the state it leaves.\<close>

definition worker_turn :: "worker \<Rightarrow> 'z session \<Rightarrow> worker \<times> 'z session" where
  "worker_turn wk s =
     (let tot = image_total (carried s) in
      case wk of
        Looking \<Rightarrow> (if span_failure s \<noteq> None then Gone else Claiming, s)
      | Claiming \<Rightarrow>
          (if spans tot \<le> next_span s then Gone else Awaiting (next_span s), s\<lparr>next_span := Suc (next_span s)\<rparr>)
      | Awaiting k \<Rightarrow>
          (case wait_round (carried s) (span_end tot k) of
             None \<Rightarrow> Awaiting k
           | Some (Inl m) \<Rightarrow> Failing m
           | Some (Inr _) \<Rightarrow> Putting k (k * SPAN), s)
      | Putting k off \<Rightarrow>
          if off = span_end tot k then (Counting (span_len tot k), s)
          else (case pwrite_round (device s) (image_slice (carried s) off (span_end tot k - off)) off of
              (Again b off', d) \<Rightarrow> (Putting k off', s\<lparr>device := d\<rparr>)
            | (Broke e, d) \<Rightarrow> (Failing (error_text e), s\<lparr>device := d\<rparr>))
      | Counting n \<Rightarrow> (Looking, s\<lparr>progress := (progress s)\<lparr>written := written (progress s) + n\<rparr>\<rparr>)
      | Failing m \<Rightarrow> (Gone, s\<lparr>span_failure := Some m\<rparr>)
      | Gone \<Rightarrow> (Gone, s))"

subsection \<open>The spot check\<close>

definition SAMPLES :: nat where
  "SAMPLES = 12"

definition WINDOW :: nat where
  "WINDOW = 1048576"

definition sample_start :: "nat \<Rightarrow> nat \<Rightarrow> nat" where
  "sample_start tot i = (let off = i * (tot div SAMPLES) in off - off mod 4096)"

definition sample_len :: "nat \<Rightarrow> nat \<Rightarrow> nat" where
  "sample_len tot i = min WINDOW (tot - i * (tot div SAMPLES))"

fun check_samples :: "nat list \<Rightarrow> image \<Rightarrow> device \<Rightarrow> (sys_error + unit) \<times> device" where
  "check_samples [] im d = (Ok (), d)"
| "check_samples (i # rest) im d =
     (let off = sample_start (image_total im) i; len = sample_len (image_total im) i in
      case pread_exact d len off [] of
        (Inl e, d') \<Rightarrow> (Err e, d')
      | (Inr bytes, d') \<Rightarrow>
          if bytes \<noteq> image_slice im off len
          then (Err (InvalidDataError
            (''data at offset '' @ show_nat off @ '' did not read back as written'')), d')
          else check_samples rest im d')"

definition spot_check :: "nat \<Rightarrow> image \<Rightarrow> device \<Rightarrow> (sys_error + unit) \<times> device" where
  "spot_check mem im d =
     (if image_total im = 0 then (Ok (), d)
      else case allocate mem (word_of_nat WINDOW) of
          Inl e \<Rightarrow> (Err e, d)
        | Inr _ \<Rightarrow> check_samples [0..<SAMPLES] im d)"

subsection \<open>The main thread\<close>

definition main_turn :: "'z installation \<Rightarrow> 'z session \<Rightarrow> 'z session" where
  "main_turn I s =
     (case runner s of
        SetPreparing \<Rightarrow> (set_stage Preparing s)\<lparr>runner := SetGoal\<rparr>
      | SetGoal \<Rightarrow>
          s\<lparr>progress := (progress s)\<lparr>goal := image_total (carried s)\<rparr>, runner := CheckImage\<rparr>
      | CheckImage \<Rightarrow>
          s\<lparr>runner := (case failed (carried s) of Some m \<Rightarrow> Raise ''preparing image'' m | None \<Rightarrow> OpenTarget)\<rparr>
      | OpenTarget \<Rightarrow>
          (case open_block (target I) True (device s) of
             (Inl e, d) \<Rightarrow> s\<lparr>device := d, runner := Raise ''opening target device'' (error_text e)\<rparr>
           | (Inr _, d) \<Rightarrow> s\<lparr>device := d, runner := Measure\<rparr>)
      | Measure \<Rightarrow>
          (case device_size (device s) of
             (Inl e, d) \<Rightarrow> s\<lparr>device := d, runner := Raise ''querying device size'' (error_text e)\<rparr>
           | (Inr n, d) \<Rightarrow>
               s\<lparr>device := d, runner :=
                 (if n < image_total (carried s)
                  then Raise ''target device is too small''
                    (format_size n @ '' available, '' @ format_size (image_total (carried s)) @ '' required'')
                  else SetDiscarding)\<rparr>)
      | SetDiscarding \<Rightarrow> (set_stage Discarding s)\<lparr>runner := DiscardAll\<rparr>
      | DiscardAll \<Rightarrow>
          s\<lparr>device := snd (discard (length (media (device s))) (device s)), runner := SetWriting\<rparr>
      | SetWriting \<Rightarrow> (set_stage Writing s)\<lparr>runner := Spawn\<rparr>
      | Spawn \<Rightarrow>
          s\<lparr>next_span := 0, span_failure := None, workers := replicate (thread_count (parallelism I)) Looking,
            runner := Join\<rparr>
      | Join \<Rightarrow>
          if \<forall>wk \<in> set (workers s). wk = Gone
          then (case span_failure s of
              Some m \<Rightarrow> s\<lparr>span_failure := None, runner := Raise ''writing image'' m\<rparr>
            | None \<Rightarrow> s\<lparr>runner := SetFlushing\<rparr>)
          else s
      | SetFlushing \<Rightarrow> (set_stage Flushing s)\<lparr>runner := Flush\<rparr>
      | Flush \<Rightarrow>
          (case fdatasync (device s) of
             (Inl e, d) \<Rightarrow> s\<lparr>device := d, runner := Raise ''flushing to device'' (error_text e)\<rparr>
           | (Inr _, d) \<Rightarrow> s\<lparr>device := d, runner := SetVerifying\<rparr>)
      | SetVerifying \<Rightarrow> (set_stage Verifying s)\<lparr>runner := Verify\<rparr>
      | Verify \<Rightarrow>
          (case spot_check (memory I) (carried s) (device s) of
             (Inl e, d) \<Rightarrow> s\<lparr>device := d, runner := Raise ''verifying written image'' (error_text e)\<rparr>
           | (Inr _, d) \<Rightarrow> s\<lparr>device := d, runner := SetComplete\<rparr>)
      | SetComplete \<Rightarrow> (set_stage Complete s)\<lparr>runner := SetFinished\<rparr>
      | Raise context m \<Rightarrow>
          s\<lparr>progress := (progress s)\<lparr>problem := Some (context @ '': '' @ m)\<rparr>, runner := SetFinished\<rparr>
      | SetFinished \<Rightarrow> s\<lparr>progress := (progress s)\<lparr>finished := True\<rparr>, runner := Returned\<rparr>
      | Returned \<Rightarrow> s)"

subsection \<open>Turns in any order\<close>

inductive install_step :: "'z installation \<Rightarrow> 'z session \<Rightarrow> 'z session \<Rightarrow> bool" for I where
  main_step: "install_step I s (main_turn I s)"
| worker_step:
    "k < length (workers s) \<Longrightarrow> worker_turn (workers s ! k) s = (wk, s') \<Longrightarrow>
       install_step I s (s'\<lparr>workers := (workers s)[k := wk]\<rparr>)"
| decoder_step:
    "decode_turn (codec I) (payload I) (decoder s) (carried s) = (dec, im) \<Longrightarrow>
       install_step I s (s\<lparr>decoder := dec, carried := im\<rparr>)"

inductive_cases install_step_cases: "install_step I s s'"

text \<open>\<open>run\<close> right after the thread was spawned, on an image whose decoder may already be at work.\<close>

definition fresh_session :: "image \<Rightarrow> 'z decoder \<Rightarrow> device \<Rightarrow> 'z session" where
  "fresh_session im dec d =
     \<lparr>carried = im, decoder = dec, device = d, progress = new_progress, runner = SetPreparing,
      next_span = 0, span_failure = None, workers = []\<rparr>"

definition reaches :: "'z installation \<Rightarrow> 'z session \<Rightarrow> 'z session \<Rightarrow> bool" where
  "reaches I = (install_step I)\<^sup>*\<^sup>*"

section \<open>Spans\<close>

lemma SPAN_pos: "0 < SPAN" by (simp add: SPAN_def)

lemma span_starts: "k < spans tot \<longleftrightarrow> k * SPAN < tot"
proof -
  have "k < spans tot \<longleftrightarrow> Suc k \<le> (tot + (SPAN - 1)) div SPAN" by (simp add: spans_def Suc_le_eq)
  also have "\<dots> \<longleftrightarrow> Suc k * SPAN \<le> tot + (SPAN - 1)" by (rule less_eq_div_iff_mult_less_eq [OF SPAN_pos])
  also have "\<dots> \<longleftrightarrow> k * SPAN < tot" using SPAN_pos by auto
  finally show ?thesis .
qed

lemma span_end_bounds:
  assumes "k < spans tot"
  shows "k * SPAN < span_end tot k" "span_end tot k \<le> tot" "span_end tot k \<le> Suc k * SPAN"
  using assms SPAN_pos unfolding span_starts by (auto simp: span_end_def span_len_def)

lemma spans_apart: "j \<noteq> k \<Longrightarrow> span_end tot j \<le> k * SPAN \<or> span_end tot k \<le> j * SPAN"
proof -
  have le: "span_end tot a \<le> Suc a * SPAN" for a by (simp add: span_end_def span_len_def)
  assume "j \<noteq> k"
  then consider "Suc j \<le> k" | "Suc k \<le> j" by linarith
  then show ?thesis
    using le [of j] le [of k] by cases (metis le_trans mult_le_mono1)+
qed

text \<open>The bytes of the first \<open>n\<close> spans.\<close>

definition claimed :: "nat \<Rightarrow> nat \<Rightarrow> nat" where
  "claimed tot n = sum_list (map (span_len tot) [0..<min n (spans tot)])"

lemma claimed_prefix: "n \<le> spans tot \<Longrightarrow> claimed tot n = min tot (n * SPAN)"
proof (induction n)
  case (Suc n)
  then have n: "n * SPAN < tot" by (simp add: Suc_le_eq flip: span_starts)
  have "claimed tot (Suc n) = claimed tot n + span_len tot n"
    using Suc.prems by (simp add: claimed_def min_absorb1)
  also have "\<dots> = n * SPAN + span_len tot n" using Suc n by simp
  also have "\<dots> = min tot (Suc n * SPAN)" using n by (simp add: span_len_def)
  finally show ?case .
qed (simp add: claimed_def)

lemma claimed_all: "spans tot \<le> n \<Longrightarrow> claimed tot n = tot"
proof -
  assume "spans tot \<le> n"
  then have "claimed tot n = claimed tot (spans tot)" by (simp add: claimed_def min_absorb2)
  also have "\<dots> = min tot (spans tot * SPAN)" by (rule claimed_prefix) simp
  also have "\<dots> = tot" using span_starts [of "spans tot" tot] by simp
  finally show ?thesis .
qed

lemma claimed_Suc: "n < spans tot \<Longrightarrow> claimed tot (Suc n) = claimed tot n + span_len tot n"
  by (simp add: claimed_def min_absorb1)

lemma claimed_le: "claimed tot n \<le> tot"
proof (cases "n \<le> spans tot")
  case True
  then show ?thesis by (simp add: claimed_prefix)
next
  case False
  then show ?thesis by (simp add: claimed_all)
qed

section \<open>What is on the device\<close>

text \<open>The bytes from \<open>a\<close> to \<open>b\<close> are decoded, and the device holds them.\<close>

definition copied :: "image \<Rightarrow> device \<Rightarrow> nat \<Rightarrow> nat \<Rightarrow> bool" where
  "copied im d a b \<longleftrightarrow>
     a \<le> b \<and> b \<le> ready im \<and> b \<le> length (media d) \<and> image_slice im a (b - a) = take (b - a) (drop a (media d))"

lemma copied_extends:
  assumes "extends im im'" "copied im d a b"
  shows "copied im' d a b"
  using assms extends_slice [OF assms(1), of a "b - a"] by (auto simp: copied_def extends_def)

lemma copied_media: "copied im d a b \<Longrightarrow> media d' = media d \<Longrightarrow> copied im d' a b"
  by (simp add: copied_def)

lemma copied_join:
  assumes "copied im d a b" "copied im d b c"
  shows "copied im d a c"
proof -
  have "take (c - a) (drop a xs) = take (b - a) (drop a xs) @ take (c - b) (drop b xs)" for xs :: string
    using assms take_add [of "b - a" "c - b" "drop a xs"] by (simp add: copied_def)
  with assms show ?thesis by (auto simp: copied_def image_slice_def)
qed

lemma copied_all:
  assumes "\<And>k. k < spans tot \<Longrightarrow> copied im d (k * SPAN) (span_end tot k)" "0 < tot"
  shows "copied im d 0 tot"
proof -
  have "n < spans tot \<Longrightarrow> copied im d 0 (span_end tot n)" for n
  proof (induction n)
    case 0
    then show ?case using assms(1) [of 0] by simp
  next
    case (Suc n)
    then have "Suc n * SPAN < tot" by (simp only: span_starts)
    then have "span_end tot n = Suc n * SPAN" by (simp add: span_end_def span_len_def)
    with Suc assms(1) [of "Suc n"] show ?case by (metis Suc_lessD copied_join)
  qed
  moreover obtain n where n: "spans tot = Suc n"
    using assms(2) span_starts [of 0 tot] by (cases "spans tot") auto
  moreover have "span_end tot n = tot"
    using n span_starts [of n tot] span_starts [of "Suc n" tot] by (auto simp: span_end_def span_len_def)
  ultimately show ?thesis by (metis lessI)
qed

lemma pwrite_round_Broke:
  assumes "pwrite_round d b off = (Broke e, d')" "honest_device d"
  shows "media d' = media d"
proof -
  consider t where "pwrite d b off = (Errno t, d')" | "pwrite d b off = (Count 0, d')"
    using assms(1) by (auto simp: pwrite_round_def split: prod.splits transfer.splits if_splits)
  then show ?thesis
  proof cases
    case 1
    then show ?thesis by (auto simp: pwrite_def split: if_splits option.splits answer.splits list.splits)
  next
    case 2
    from pwrite_Count [OF 2 assms(2)] show ?thesis by (simp add: overlay_def)
  qed
qed

text \<open>One round of writing the bytes from \<open>off\<close> to \<open>e\<close>.\<close>

lemma copied_round:
  assumes "pwrite_round d (image_slice im off (e - off)) off = (Again b off', d')" "honest_device d"
    and "copied im d a off" "off \<le> e" "e \<le> ready im" "ready im \<le> length (buf im)" "e \<le> length (media d)"
  shows "copied im d' a off'" "off \<le> off'" "off' \<le> e"
    and "\<And>x y. copied im d x y \<Longrightarrow> y \<le> off \<or> e \<le> x \<Longrightarrow> copied im d' x y"
proof -
  let ?b = "image_slice im off (e - off)"
  have len: "length ?b = e - off" using assms(4-6) by (simp add: image_slice_def)
  have "off + length ?b \<le> length (media d)" using len assms(4,7) by simp
  from pwrite_round_Again [OF assms(1,2) this] len
  obtain n where n: "off' = off + n" "n \<le> e - off" "media d' = overlay off (take n ?b) (media d)" by auto
  have fit: "off + length (take n ?b) \<le> length (media d)" using n(2) len assms(4,7) by simp
  then have same: "length (media d') = length (media d)" by (simp add: n(3))
  have tb: "take n ?b = image_slice im off n" using n(2) by (simp add: image_slice_def min_def)
  have other: "copied im d' x y" if "copied im d x y" "y \<le> off \<or> e \<le> x" for x y
  proof -
    have "x + (y - x) \<le> off \<or> off + length (take n ?b) \<le> x"
      using that n(2) len assms(4) by (auto simp: copied_def)
    from slice_overlay_apart [OF fit this] that(1) same show ?thesis
      by (simp add: copied_def n(3))
  qed
  have "take n (drop off (media d')) = take n ?b"
    using slice_overlay_same [OF fit] n(2) len by (simp add: n(3) min_absorb2)
  then have "copied im d' off (off + n)"
    using n(2) assms(4,5,7) same by (auto simp: copied_def tb)
  with other [OF assms(3)] show "copied im d' a off'" by (auto simp: n(1) intro: copied_join)
  show "off \<le> off'" "off' \<le> e" using n assms(4) by auto
  show "\<And>x y. copied im d x y \<Longrightarrow> y \<le> off \<or> e \<le> x \<Longrightarrow> copied im d' x y" by (rule other)
qed

section \<open>The workers at work\<close>

fun owned :: "worker \<Rightarrow> nat option" where
  "owned (Awaiting k) = Some k"
| "owned (Putting k off) = Some k"
| "owned _ = None"

text \<open>What a worker will have counted when it is done with its span.\<close>

fun due :: "nat \<Rightarrow> worker \<Rightarrow> nat" where
  "due tot (Awaiting k) = span_len tot k"
| "due tot (Putting k off) = span_len tot k"
| "due tot (Counting n) = n"
| "due tot _ = 0"

definition lone :: "worker list \<Rightarrow> bool" where
  "lone ws \<longleftrightarrow>
     (\<forall>i j k. i < length ws \<longrightarrow> j < length ws \<longrightarrow> owned (ws ! i) = Some k \<longrightarrow> owned (ws ! j) = Some k \<longrightarrow> i = j)"

definition holder :: "worker list \<Rightarrow> nat \<Rightarrow> bool" where
  "holder ws k \<longleftrightarrow> (\<exists>i < length ws. owned (ws ! i) = Some k)"

lemma lone_update:
  assumes "lone ws" "i < length ws"
    and "owned x = None \<or> owned x = owned (ws ! i) \<or> (\<forall>k. owned x = Some k \<longrightarrow> \<not> holder ws k)"
  shows "lone (ws[i := x])"
  unfolding lone_def length_list_update
proof (intro allI impI)
  fix a b k
  assume ab: "a < length ws" "b < length ws" "owned (ws[i := x] ! a) = Some k" "owned (ws[i := x] ! b) = Some k"
  have other: "j = i" if "j < length ws" "owned (ws ! j) = Some k" "owned x = Some k" for j
  proof -
    have "holder ws k" using that by (auto simp: holder_def)
    with assms(3) that have "owned (ws ! i) = Some k" by auto
    with assms(1,2) that show ?thesis by (auto simp: lone_def)
  qed
  have here: "owned x = Some k" if "owned (ws[i := x] ! i) = Some k" using that assms(2) by simp
  have there: "owned (ws ! j) = Some k" if "owned (ws[i := x] ! j) = Some k" "j \<noteq> i" for j using that by simp
  show "a = b"
  proof (cases "a = i")
    case True
    have x: "owned x = Some k" using ab(3) unfolding True by (rule here)
    show ?thesis
    proof (cases "b = i")
      case False
      from other [OF ab(2) there [OF ab(4) False] x] show ?thesis using True by simp
    qed (simp add: True)
  next
    case a: False
    show ?thesis
    proof (cases "b = i")
      case True
      have "owned x = Some k" using ab(4) unfolding True by (rule here)
      from other [OF ab(1) there [OF ab(3) a] this] show ?thesis using True by simp
    next
      case False
      from there [OF ab(3) a] there [OF ab(4) False] assms(1) ab(1,2) show ?thesis unfolding lone_def by blast
    qed
  qed
qed

lemma holder_update:
  assumes "holder ws k" "owned (ws ! i) \<noteq> Some k \<or> owned x = Some k"
  shows "holder (ws[i := x]) k"
proof -
  obtain j where j: "j < length ws" "owned (ws ! j) = Some k" using assms(1) by (auto simp: holder_def)
  have "owned (ws[i := x] ! j) = Some k" using j assms(2) by (cases "j = i") auto
  with j(1) show ?thesis by (auto simp: holder_def)
qed

lemma holder_updateD:
  assumes "holder (ws[i := x]) k"
  shows "holder ws k \<or> owned x = Some k"
proof -
  obtain j where "j < length ws" "owned (ws[i := x] ! j) = Some k" using assms by (auto simp: holder_def)
  then show ?thesis by (cases "j = i") (auto simp: holder_def)
qed

lemma holder_same:
  "i < length ws \<Longrightarrow> owned x = owned (ws ! i) \<Longrightarrow> holder (ws[i := x]) k \<longleftrightarrow> holder ws k"
  using holder_update [of ws k i x] holder_updateD [of ws i x k] by (auto simp: holder_def)

lemma sum_update:
  "i < length ws \<Longrightarrow> sum_list (map f (ws[i := x])) + f (ws ! i) = sum_list (map f ws) + (f x :: nat)"
proof (induction ws arbitrary: i)
  case (Cons w ws)
  then show ?case by (cases i) auto
qed simp

definition trouble :: "string option \<Rightarrow> worker list \<Rightarrow> bool" where
  "trouble fl ws \<longleftrightarrow> fl \<noteq> None \<or> (\<exists>i < length ws. \<exists>m. ws ! i = Failing m)"

lemma trouble_update:
  assumes "trouble fl ws" "(\<forall>m. ws ! i \<noteq> Failing m) \<or> fl' \<noteq> None" "fl \<noteq> None \<longrightarrow> fl' \<noteq> None"
  shows "trouble fl' (ws[i := x])"
proof (cases "fl = None")
  case True
  then obtain j m where "j < length ws" "ws ! j = Failing m" using assms(1) by (auto simp: trouble_def)
  then show ?thesis
    using assms(2) by (cases "j = i") (auto simp: trouble_def intro!: exI [of _ j])
next
  case False
  with assms(3) show ?thesis by (auto simp: trouble_def)
qed

text \<open>
  \<open>working tot im d wr n fl ws\<close>: \<open>wr\<close> bytes are counted and \<open>n\<close> spans are handed out. No two workers have the
  same span, every span that was handed out is on the device or in a worker's hands, and the workers only
  leave when there is nothing more to do, unless something failed.
\<close>

definition working ::
  "nat \<Rightarrow> image \<Rightarrow> device \<Rightarrow> nat \<Rightarrow> nat \<Rightarrow> string option \<Rightarrow> worker list \<Rightarrow> bool" where
  "working tot im d wr n fl ws \<longleftrightarrow>
     tot \<le> length (media d) \<and> lone ws \<and> (\<forall>k. holder ws k \<longrightarrow> k < n \<and> k < spans tot) \<and>
     (\<forall>i k off. i < length ws \<longrightarrow> ws ! i = Putting k off \<longrightarrow>
        span_end tot k \<le> ready im \<and> off \<le> span_end tot k \<and> copied im d (k * SPAN) off) \<and>
     (\<forall>k. k < n \<longrightarrow> k < spans tot \<longrightarrow>
        copied im d (k * SPAN) (span_end tot k) \<or> holder ws k \<or> trouble fl ws) \<and>
     (Gone \<in> set ws \<longrightarrow> fl \<noteq> None \<or> spans tot \<le> n) \<and>
     wr + sum_list (map (due tot) ws) \<le> claimed tot n \<and>
     (trouble fl ws \<or> wr + sum_list (map (due tot) ws) = claimed tot n)"

lemma working_extends:
  assumes "working tot im d wr n fl ws" "extends im im'"
  shows "working tot im' d wr n fl ws"
proof -
  have "ready im \<le> ready im'" using assms(2) by (simp add: extends_def)
  with assms(1) copied_extends [OF assms(2)] show ?thesis
    unfolding working_def by (meson le_trans)
qed

lemma Gone_update: "Gone \<in> set (ws[i := x]) \<Longrightarrow> Gone \<in> set ws \<or> x = Gone"
  using set_update_subset_insert [of ws i x] by auto

lemma hurt_update:
  "trouble fl ws \<Longrightarrow> (\<And>m. ws ! i \<noteq> Failing m) \<Longrightarrow> trouble fl (ws[i := x])"
  by (rule trouble_update) auto

lemma due_update:
  "i < length ws \<Longrightarrow> sum_list (map (due tot) (ws[i := x])) + due tot (ws ! i) = sum_list (map (due tot) ws) + due tot x"
  by (rule sum_update)

text \<open>A turn that keeps the span, if there is one.\<close>

lemma working_quiet:
  assumes "working tot im d wr n fl ws" "i < length ws" "owned x = owned (ws ! i)"
    and "due tot x + wr' = due tot (ws ! i) + wr"
    and "\<And>k off. x = Putting k off \<Longrightarrow> span_end tot k \<le> ready im \<and> off = k * SPAN"
    and "\<And>m. ws ! i \<noteq> Failing m" "x = Gone \<Longrightarrow> fl \<noteq> None \<or> spans tot \<le> n"
  shows "working tot im d wr' n fl (ws[i := x])"
proof -
  have sum: "wr' + sum_list (map (due tot) (ws[i := x])) = wr + sum_list (map (due tot) ws)"
    using due_update [OF assms(2), of tot x] assms(4) by linarith
  have hold: "holder (ws[i := x]) k = holder ws k" for k
    using assms(2,3) by (rule holder_same)
  have lone: "lone (ws[i := x])"
    using assms(1) by (intro lone_update) (simp_all add: assms(2,3) working_def)
  have put: "span_end tot k \<le> ready im \<and> off \<le> span_end tot k \<and> copied im d (k * SPAN) off"
    if j: "j < length ws" "ws[i := x] ! j = Putting k off" for j k off
  proof (cases "j = i")
    case True
    with j(2) assms(2) have x: "x = Putting k off" by simp
    then have "holder ws k" using assms(2,3) by (auto simp: holder_def)
    then have "k < spans tot" "tot \<le> length (media d)" using assms(1) by (auto simp: working_def)
    with assms(5) [OF x] span_end_bounds [of k tot] show ?thesis by (auto simp: copied_def image_slice_def)
  next
    case False
    with j assms(1) show ?thesis by (simp add: working_def)
  qed
  show ?thesis
    using assms(1) hurt_update [OF _ assms(6)] Gone_update [of ws i x] assms(7) put lone
    unfolding working_def sum hold length_list_update by blast
qed

lemma working_claim:
  assumes "working tot im d wr n fl ws" "i < length ws" "ws ! i = Claiming" "n < spans tot"
  shows "working tot im d wr (Suc n) fl (ws[i := Awaiting n])"
proof -
  have sum: "sum_list (map (due tot) (ws[i := Awaiting n])) = sum_list (map (due tot) ws) + span_len tot n"
    using due_update [OF assms(2), of tot "Awaiting n"] assms(3) by simp
  have new: "\<not> holder ws n" using assms(1) by (auto simp: working_def)
  have hold: "holder (ws[i := Awaiting n]) k \<longleftrightarrow> holder ws k \<or> k = n" for k
    using holder_update [of ws k i "Awaiting n"] holder_updateD [of ws i "Awaiting n" k] assms(2,3)
    by (auto simp: holder_def)
  have lone: "lone (ws[i := Awaiting n])"
    using assms(1) by (intro lone_update) (simp_all add: assms(2) new working_def)
  have put: "j < length ws \<Longrightarrow> ws[i := Awaiting n] ! j = Putting k off \<Longrightarrow> ws ! j = Putting k off" for j k off
    using assms(2) by (cases "j = i") auto
  have "wr + sum_list (map (due tot) ws) \<le> claimed tot n"
    "trouble fl ws \<or> wr + sum_list (map (due tot) ws) = claimed tot n"
    using assms(1) by (simp_all add: working_def)
  moreover have "trouble fl ws \<Longrightarrow> trouble fl (ws[i := Awaiting n])"
    by (rule hurt_update) (simp_all add: assms(3))
  ultimately have "wr + sum_list (map (due tot) (ws[i := Awaiting n])) \<le> claimed tot (Suc n)"
    "trouble fl (ws[i := Awaiting n]) \<or> wr + sum_list (map (due tot) (ws[i := Awaiting n])) = claimed tot (Suc n)"
    unfolding sum claimed_Suc [OF assms(4)] by auto
  then show ?thesis
    using assms(1,4) hurt_update [of fl ws i "Awaiting n"] Gone_update [of ws i "Awaiting n"] put lone assms(3)
    unfolding working_def hold length_list_update by (auto simp: less_Suc_eq)
qed

lemma working_more:
  assumes "working tot im d wr n fl ws" "spans tot \<le> n"
  shows "working tot im d wr (Suc n) fl ws"
proof -
  have "claimed tot (Suc n) = claimed tot n" using assms(2) by (simp add: claimed_all)
  moreover have "k < n \<longleftrightarrow> k < Suc n" if "k < spans tot" for k using that assms(2) by auto
  ultimately show ?thesis using assms unfolding working_def by (auto simp: less_Suc_eq)
qed

lemma working_put:
  assumes "working tot im d wr n fl ws" "i < length ws" "ws ! i = Putting k off"
    and "pwrite_round d (image_slice im off (span_end tot k - off)) off = (Again b off', d')"
    and "honest_device d" "ready im \<le> length (buf im)"
  shows "working tot im d' wr n fl (ws[i := Putting k off'])"
proof -
  let ?e = "span_end tot k"
  have here: "?e \<le> ready im" "off \<le> ?e" "copied im d (k * SPAN) off"
    using assms(1-3) by (auto simp: working_def)
  have "holder ws k" using assms(2,3) by (auto simp: holder_def)
  then have k: "k < spans tot" using assms(1) by (auto simp: working_def)
  have "?e \<le> length (media d)" using span_end_bounds [OF k] assms(1) by (auto simp: working_def)
  note round = copied_round [OF assms(4,5) here(3,2,1) assms(6) this]
  have same: "length (media d') = length (media d)"
    using pwrite_round_later [OF assms(4)] by (simp add: later_def)
  have start: "k * SPAN \<le> off" using here(3) by (simp add: copied_def)
  have apart: "copied im d' (j * SPAN) y" if "j \<noteq> k" "copied im d (j * SPAN) y" "y \<le> span_end tot j" for j y
    using round(4) [OF that(2)] spans_apart [OF that(1), of tot] that(3) start by auto
  have hold: "holder (ws[i := Putting k off']) j = holder ws j" for j
    using assms(2) by (rule holder_same) (simp add: assms(3))
  have lone: "lone (ws[i := Putting k off'])"
    using assms(1) by (intro lone_update) (simp_all add: assms(2,3) working_def)
  have sum: "sum_list (map (due tot) (ws[i := Putting k off'])) = sum_list (map (due tot) ws)"
    using due_update [OF assms(2), of tot "Putting k off'"] assms(3) by simp
  have put: "span_end tot l \<le> ready im \<and> o' \<le> span_end tot l \<and> copied im d' (l * SPAN) o'"
    if j: "j < length ws" "ws[i := Putting k off'] ! j = Putting l o'" for j l o'
  proof (cases "j = i")
    case True
    with j(2) assms(2) have "l = k" "o' = off'" by auto
    with round here show ?thesis by simp
  next
    case False
    with j have w: "ws ! j = Putting l o'" by simp
    with assms(1-3) j(1) False have "l \<noteq> k" unfolding working_def lone_def by (metis owned.simps(2))
    with assms(1) j(1) w apart show ?thesis unfolding working_def by blast
  qed
  have spanned: "copied im d' (j * SPAN) (span_end tot j) \<or> holder ws j \<or> trouble fl (ws[i := Putting k off'])"
    if "j < n" "j < spans tot" for j
  proof (cases "j = k")
    case True
    with \<open>holder ws k\<close> show ?thesis by simp
  next
    case False
    have "trouble fl ws \<Longrightarrow> trouble fl (ws[i := Putting k off'])" by (rule hurt_update) (simp_all add: assms(3))
    with assms(1) that apart [OF False] show ?thesis unfolding working_def by blast
  qed
  show ?thesis
    using assms(1) hurt_update [of fl ws i "Putting k off'"] Gone_update [of ws i "Putting k off'"] assms(3)
    unfolding working_def sum hold length_list_update same using put lone spanned by auto
qed

text \<open>A turn that gives the span up, because it is written or because something failed.\<close>

lemma working_release:
  assumes "working tot im d wr n fl ws" "i < length ws" "owned x = None" "media d' = media d" "x \<noteq> Gone"
    and "\<And>m. ws ! i \<noteq> Failing m" "due tot x \<le> due tot (ws ! i)"
    and "(\<exists>m. x = Failing m) \<or> due tot x = due tot (ws ! i) \<and>
      (\<forall>k. owned (ws ! i) = Some k \<longrightarrow> copied im d (k * SPAN) (span_end tot k))"
  shows "working tot im d' wr n fl (ws[i := x])"
proof -
  have lone: "lone (ws[i := x])" using assms(1) by (intro lone_update) (simp_all add: assms(2,3) working_def)
  have hold: "holder (ws[i := x]) k \<Longrightarrow> holder ws k" for k
    using holder_updateD [of ws i x k] assms(3) by simp
  have put: "j < length ws \<Longrightarrow> ws[i := x] ! j = Putting k off \<Longrightarrow> ws ! j = Putting k off" for j k off
    using assms(2,3) by (cases "j = i") auto
  have hurt: "trouble fl ws \<Longrightarrow> trouble fl (ws[i := x])" by (rule hurt_update [OF _ assms(6)])
  have failing: "x = Failing m \<Longrightarrow> trouble fl (ws[i := x])" for m
    using assms(2) by (auto simp: trouble_def intro!: exI [of _ i])
  have spanned: "copied im d (k * SPAN) (span_end tot k) \<or> holder (ws[i := x]) k \<or> trouble fl (ws[i := x])"
    if "k < n" "k < spans tot" for k
  proof -
    have "copied im d (k * SPAN) (span_end tot k) \<or> holder ws k \<or> trouble fl ws"
      using assms(1) that unfolding working_def by blast
    then show ?thesis using holder_update [of ws k i x] assms(8) hurt failing by blast
  qed
  note sum = due_update [OF assms(2), of tot x]
  have media: "copied im d' = copied im d" by (simp add: copied_def assms(4) fun_eq_iff)
  show ?thesis
    unfolding working_def media length_list_update assms(4)
  proof (intro conjI allI impI)
    show "tot \<le> length (media d)" using assms(1) by (simp add: working_def)
    show "k < n" "k < spans tot" if "holder (ws[i := x]) k" for k
      using hold [OF that] assms(1) by (simp_all add: working_def)
    show "span_end tot k \<le> ready im" "off \<le> span_end tot k" "copied im d (k * SPAN) off"
      if "j < length ws" "ws[i := x] ! j = Putting k off" for j k off
      using that(1) put [OF that] assms(1) unfolding working_def by blast+
    show "fl \<noteq> None \<or> spans tot \<le> n" if "Gone \<in> set (ws[i := x])"
      using Gone_update [OF that] assms(1,5) unfolding working_def by blast
    show "wr + sum_list (map (due tot) (ws[i := x])) \<le> claimed tot n"
      using sum assms(1,7) unfolding working_def by linarith
    show "trouble fl (ws[i := x]) \<or> wr + sum_list (map (due tot) (ws[i := x])) = claimed tot n"
      using sum assms(1,8) hurt failing unfolding working_def by auto
  qed (rule lone spanned; assumption)+
qed

lemma working_failed:
  assumes "working tot im d wr n fl ws" "i < length ws" "ws ! i = Failing m"
  shows "working tot im d wr n (Some m) (ws[i := Gone])"
proof -
  have lone: "lone (ws[i := Gone])" using assms(1) by (intro lone_update) (simp_all add: assms(2) working_def)
  have hold: "holder (ws[i := Gone]) k \<Longrightarrow> holder ws k" for k
    using holder_updateD [of ws i Gone k] by simp
  have put: "j < length ws \<Longrightarrow> ws[i := Gone] ! j = Putting k off \<Longrightarrow> ws ! j = Putting k off" for j k off
    using assms(2) by (cases "j = i") auto
  have "trouble (Some m) (ws[i := Gone])" by (simp add: trouble_def)
  moreover have "sum_list (map (due tot) (ws[i := Gone])) = sum_list (map (due tot) ws)"
    using due_update [OF assms(2), of tot Gone] assms(3) by simp
  ultimately show ?thesis
    using assms(1) lone hold put unfolding working_def length_list_update by auto
qed

section \<open>The installation as a whole\<close>

definition at_work :: "'z session \<Rightarrow> bool" where
  "at_work s \<longleftrightarrow>
     working (img_len (carried s)) (carried s) (device s) (written (progress s)) (next_span s)
       (span_failure s) (workers s)"

lemma worker_turn_at_work:
  assumes "at_work s" "honest_device (device s)" "ready (carried s) \<le> length (buf (carried s))"
    and "i < length (workers s)" "worker_turn (workers s ! i) s = (wk, s')"
  shows "at_work (s'\<lparr>workers := (workers s)[i := wk]\<rparr>)"
proof -
  note w = assms(1) [unfolded at_work_def]
  note quiet = working_quiet [OF w assms(4)] and release = working_release [OF w assms(4)]
  show ?thesis
  proof (cases "workers s ! i")
    case Looking
    then have s': "s' = s" "wk = (if span_failure s \<noteq> None then Gone else Claiming)"
      using assms(5) by (auto simp: worker_turn_def Let_def)
    show ?thesis unfolding s'(1) at_work_def
      using quiet [of wk] Looking by (cases "span_failure s") (simp_all add: s'(2))
  next
    case Claiming
    show ?thesis
    proof (cases "spans (img_len (carried s)) \<le> next_span s")
      case True
      have "working (img_len (carried s)) (carried s) (device s) (written (progress s)) (next_span s)
          (span_failure s) ((workers s)[i := Gone])"
        by (rule quiet) (use Claiming True in auto)
      from working_more [OF this True] show ?thesis
        using assms(5) Claiming True by (auto simp: worker_turn_def at_work_def Let_def image_total_def)
    next
      case False
      then have "next_span s < spans (img_len (carried s))" by simp
      from working_claim [OF w assms(4) Claiming this] show ?thesis
        using assms(5) Claiming False by (auto simp: worker_turn_def at_work_def Let_def image_total_def)
    qed
  next
    case (Awaiting k)
    let ?e = "span_end (img_len (carried s)) k"
    have s': "s' = s" using assms(5) Awaiting by (auto simp: worker_turn_def Let_def)
    consider "wk = Awaiting k" | m where "wk = Failing m" | "wk = Putting k (k * SPAN)" "?e \<le> ready (carried s)"
      using assms(5) Awaiting
      by (auto simp: worker_turn_def wait_round_def image_total_def Let_def split: option.splits if_splits)
    then show ?thesis
    proof cases
      case 1
      then show ?thesis unfolding s' at_work_def using quiet [of wk] Awaiting by simp
    next
      case 2
      then show ?thesis unfolding s' at_work_def using release [of wk] Awaiting by simp
    next
      case 3
      have "working (img_len (carried s)) (carried s) (device s) (written (progress s)) (next_span s)
          (span_failure s) ((workers s)[i := Putting k (k * SPAN)])"
        by (rule quiet) (use Awaiting 3(2) in auto)
      then show ?thesis unfolding s' 3(1) by (simp add: at_work_def)
    qed
  next
    case (Putting k off)
    let ?e = "span_end (img_len (carried s)) k"
    show ?thesis
    proof (cases "off = ?e")
      case True
      have "copied (carried s) (device s) (k * SPAN) ?e"
        using w assms(4) Putting unfolding True working_def by blast
      moreover have "s' = s" "wk = Counting (span_len (img_len (carried s)) k)"
        using assms(5) Putting True by (auto simp: worker_turn_def Let_def image_total_def)
      ultimately show ?thesis unfolding at_work_def
        using release [of wk "device s"] Putting by simp
    next
      case False
      obtain r d where r: "pwrite_round (device s) (image_slice (carried s) off (?e - off)) off = (r, d)"
        by (cases "pwrite_round (device s) (image_slice (carried s) off (?e - off)) off")
      show ?thesis
      proof (cases r)
        case (Again b off')
        have "s' = s\<lparr>device := d\<rparr>" "wk = Putting k off'"
          using assms(5) Putting False r Again by (auto simp: worker_turn_def Let_def image_total_def)
        with working_put [OF w assms(4) Putting r [unfolded Again] assms(2,3)] show ?thesis
          by (simp add: at_work_def)
      next
        case (Broke e)
        have "s' = s\<lparr>device := d\<rparr>" "wk = Failing (error_text e)"
          using assms(5) Putting False r Broke by (auto simp: worker_turn_def Let_def image_total_def)
        with pwrite_round_Broke [OF r [unfolded Broke] assms(2)] release [of wk d] Putting show ?thesis
          by (simp add: at_work_def)
      qed
    qed
  next
    case (Counting n)
    then have "wk = Looking" "s' = s\<lparr>progress := (progress s)\<lparr>written := written (progress s) + n\<rparr>\<rparr>"
      using assms(5) by (auto simp: worker_turn_def Let_def)
    with quiet [of Looking "written (progress s) + n"] Counting show ?thesis by (simp add: at_work_def)
  next
    case (Failing m)
    from working_failed [OF w assms(4) Failing] show ?thesis
      using assms(5) Failing by (auto simp: worker_turn_def at_work_def Let_def)
  next
    case Gone
    have "(workers s)[i := Gone] = workers s" using Gone by (metis list_update_id)
    then show ?thesis
      using assms(1,5) Gone by (auto simp: worker_turn_def at_work_def Let_def)
  qed
qed

text \<open>What no worker changes.\<close>

lemma worker_turn_rest:
  assumes "worker_turn wk s = (wk', s')"
  shows "carried s' = carried s" "decoder s' = decoder s" "runner s' = runner s"
    "later (device s) (device s')" "stable (device s') = stable (device s)"
    "finished (progress s') = finished (progress s)" "problem (progress s') = problem (progress s)"
    "stage_store (progress s') = stage_store (progress s)" "goal (progress s') = goal (progress s)"
    "wk = Gone \<Longrightarrow> wk' = Gone \<and> s' = s"
  using assms
  by (auto simp: worker_turn_def Let_def dest!: pwrite_round_later
      split: worker.splits if_splits prod.splits round.splits)

text \<open>All of the image is decoded and on the device, and all of it is counted.\<close>

definition on_device :: "'z session \<Rightarrow> bool" where
  "on_device s \<longleftrightarrow>
     copied (carried s) (device s) 0 (img_len (carried s)) \<and> written (progress s) = img_len (carried s)"

definition idle :: "'z session \<Rightarrow> bool" where
  "idle s \<longleftrightarrow> (\<forall>wk \<in> set (workers s). wk = Gone)"

definition open_ended :: "progress \<Rightarrow> bool" where
  "open_ended p \<longleftrightarrow> \<not> finished p \<and> problem p = None \<and> stage_store p < 5"

definition settled_as :: "'z session \<Rightarrow> bool" where
  "settled_as s \<longleftrightarrow>
     (if problem (progress s) = None
      then stage_store (progress s) = 5 \<and> on_device s \<and> stable (device s) = media (device s)
      else stage_store (progress s) < 5 \<and> written (progress s) \<le> img_len (carried s))"

fun run_state :: "main_thread \<Rightarrow> 'z session \<Rightarrow> bool" where
  "run_state Join s \<longleftrightarrow> at_work s \<and> workers s \<noteq> [] \<and> open_ended (progress s)"
| "run_state SetFlushing s \<longleftrightarrow> idle s \<and> on_device s \<and> open_ended (progress s)"
| "run_state Flush s \<longleftrightarrow> idle s \<and> on_device s \<and> open_ended (progress s)"
| "run_state SetVerifying s \<longleftrightarrow>
     idle s \<and> on_device s \<and> stable (device s) = media (device s) \<and> open_ended (progress s)"
| "run_state Verify s \<longleftrightarrow>
     idle s \<and> on_device s \<and> stable (device s) = media (device s) \<and> open_ended (progress s)"
| "run_state SetComplete s \<longleftrightarrow>
     idle s \<and> on_device s \<and> stable (device s) = media (device s) \<and> open_ended (progress s)"
| "run_state (Raise c m) s \<longleftrightarrow>
     idle s \<and> open_ended (progress s) \<and> written (progress s) \<le> img_len (carried s)"
| "run_state SetFinished s \<longleftrightarrow> idle s \<and> settled_as s \<and> \<not> finished (progress s)"
| "run_state Returned s \<longleftrightarrow> idle s \<and> settled_as s \<and> finished (progress s)"
| "run_state r s \<longleftrightarrow>
     workers s = [] \<and> open_ended (progress s) \<and> written (progress s) = 0 \<and>
     (r \<in> {SetDiscarding, DiscardAll, SetWriting, Spawn} \<longrightarrow> img_len (carried s) \<le> length (media (device s)))"

definition sound :: "'z installation \<Rightarrow> 'z session \<Rightarrow> bool" where
  "sound I s \<longleftrightarrow>
     decoding (payload I) (decoder s) (carried s) \<and> 0 < img_len (carried s) \<and> honest_device (device s) \<and>
     run_state (runner s) s"

lemma thread_count_pos: "parallelism I \<noteq> Some 0 \<Longrightarrow> 0 < thread_count (parallelism I)"
  by (auto simp: thread_count_def split: option.splits)

lemma open_block_later:
  "open_block p dir d = (r, d') \<Longrightarrow> later d d' \<and> media d' = media d \<and> stable d' = stable d"
  by (auto simp: open_block_def later_def dest!: granted_later split: if_splits prod.splits sum.splits)

lemma device_size_later:
  "device_size d = (r, d') \<Longrightarrow>
     later d d' \<and> media d' = media d \<and> stable d' = stable d \<and> (\<forall>n. r = Ok n \<longrightarrow> n = length (media d))"
  by (auto simp: device_size_def dest!: granted_later split: prod.splits sum.splits)

lemma discard_later: "later d (snd (discard n d))"
  by (auto simp: discard_def later_def dest!: granted_later split: prod.splits sum.splits)

lemma fdatasync_later:
  "fdatasync d = (r, d') \<Longrightarrow> later d d' \<and> media d' = media d \<and> (r = Ok () \<longrightarrow> stable d' = media d')"
  by (auto simp: fdatasync_def later_def dest!: granted_later split: prod.splits sum.splits)

lemma check_samples_later:
  "check_samples is im d = (r, d') \<Longrightarrow> later d d' \<and> media d' = media d \<and> stable d' = stable d"
proof (induction "is" arbitrary: d)
  case (Cons i rest)
  obtain q d1 where q: "pread_exact d (sample_len (image_total im) i) (sample_start (image_total im) i) [] = (q, d1)"
    by fastforce
  from Cons pread_exact_later [OF q] q show ?case
    by (auto simp: Let_def intro: later_trans split: sum.splits if_splits)
qed simp

lemma spot_check_later:
  "spot_check mem im d = (r, d') \<Longrightarrow> later d d' \<and> media d' = media d \<and> stable d' = stable d"
  by (auto simp: spot_check_def dest: check_samples_later split: if_splits sum.splits)

lemma idle_written:
  assumes "at_work s" "workers s \<noteq> []" "idle s" "span_failure s = None" "0 < img_len (carried s)"
  shows "on_device s"
proof -
  let ?tot = "img_len (carried s)"
  have w: "working ?tot (carried s) (device s) (written (progress s)) (next_span s) None (workers s)"
    using assms(1,4) by (simp add: at_work_def)
  have gone: "ws ! i = Gone" if "ws = workers s" "i < length ws" for i ws
    using assms(3) that by (simp add: idle_def)
  have "Gone \<in> set (workers s)" using assms(2,3) by (cases "workers s") (auto simp: idle_def)
  then have all: "spans ?tot \<le> next_span s" using w by (simp add: working_def)
  have calm: "\<not> trouble None (workers s)" "\<not> holder (workers s) k" for k
    by (auto simp: trouble_def holder_def gone)
  have "copied (carried s) (device s) (k * SPAN) (span_end ?tot k)" if "k < spans ?tot" for k
    using w that all calm unfolding working_def by (meson less_le_trans)
  then have "copied (carried s) (device s) 0 ?tot" using assms(5) by (rule copied_all)
  moreover have "sum_list (map (due ?tot) (workers s)) = 0"
    using assms(3) by (auto simp: idle_def)
  moreover have "written (progress s) + sum_list (map (due ?tot) (workers s)) = ?tot"
    using w calm(1) claimed_all [OF all] unfolding working_def by metis
  ultimately show ?thesis by (simp only: on_device_def add_0_right)
qed

lemma at_work_written: "at_work s \<Longrightarrow> written (progress s) \<le> img_len (carried s)"
  using claimed_le [of "img_len (carried s)" "next_span s"] by (simp add: at_work_def working_def)

lemma at_work_start:
  assumes "img_len (carried s) \<le> length (media (device s))" "written (progress s) = 0"
  shows "at_work (s\<lparr>next_span := 0, span_failure := None, workers := replicate n Looking, runner := r\<rparr>)"
  using assms
  by (auto simp: at_work_def working_def lone_def holder_def claimed_def sum_list_replicate)

lemma main_turn_sound:
  assumes "sound I s" "parallelism I \<noteq> Some 0"
  shows "sound I (main_turn I s)"
proof (cases "runner s")
  case OpenTarget
  with assms(1) show ?thesis
    by (cases "open_block (target I) True (device s)")
      (auto simp: main_turn_def sound_def idle_def open_ended_def dest!: open_block_later dest: later_honest split: sum.splits)
next
  case Measure
  obtain r d where r: "device_size (device s) = (r, d)" by fastforce
  note later = device_size_later [OF r]
  have "honest_device d" using later assms(1) later_honest by (auto simp: sound_def)
  note later = later this
  show ?thesis
  proof (cases r)
    case (Inl e)
    with Measure r later assms(1) show ?thesis
      by (simp add: main_turn_def sound_def idle_def open_ended_def later_honest)
  next
    case (Inr n)
    with Measure r later assms(1) show ?thesis
      by (simp add: main_turn_def sound_def idle_def open_ended_def image_total_def later_honest)
  qed
next
  case DiscardAll
  with assms(1) discard_later [of "device s" "length (media (device s))"] show ?thesis
    by (simp add: main_turn_def sound_def open_ended_def later_honest) (simp add: later_def)
next
  case Spawn
  with assms at_work_start [of s Join "thread_count (parallelism I)"] thread_count_pos [OF assms(2)] show ?thesis
    by (auto simp: main_turn_def sound_def open_ended_def)
next
  case Join
  with assms(1) idle_written [of s] at_work_written [of s] show ?thesis
    by (auto simp: main_turn_def sound_def idle_def on_device_def open_ended_def split: option.splits)
next
  case Flush
  with assms(1) show ?thesis
    by (cases "fdatasync (device s)")
      (auto simp: main_turn_def sound_def idle_def on_device_def open_ended_def copied_def dest!: fdatasync_later dest: later_honest split: sum.splits)
next
  case Verify
  with assms(1) show ?thesis
    by (cases "spot_check (memory I) (carried s) (device s)")
      (auto simp: main_turn_def sound_def idle_def on_device_def open_ended_def copied_def dest!: spot_check_later dest: later_honest split: sum.splits)
qed (use assms(1) in \<open>auto simp: main_turn_def sound_def idle_def on_device_def open_ended_def settled_as_def split: option.splits\<close>)

lemma run_state_extends:
  assumes "run_state r s" "extends (carried s) im"
  shows "run_state r (s\<lparr>decoder := dec, carried := im\<rparr>)"
  using assms(1) working_extends [OF _ assms(2)] copied_extends [OF assms(2)] assms(2)
  by (cases r) (auto simp: at_work_def idle_def on_device_def settled_as_def extends_def)

lemma worker_step_sound:
  assumes "sound I s" "k < length (workers s)" "worker_turn (workers s ! k) s = (wk, t)"
  shows "sound I (t\<lparr>workers := (workers s)[k := wk]\<rparr>)"
proof -
  note rest = worker_turn_rest [OF assms(3)]
  show ?thesis
  proof (cases "runner s = Join")
    case True
    with assms(1) have s: "at_work s" "workers s \<noteq> []" "open_ended (progress s)" "honest_device (device s)"
      "decoding (payload I) (decoder s) (carried s)" "0 < img_len (carried s)"
      by (auto simp: sound_def)
    then have "ready (carried s) \<le> length (buf (carried s))" by (auto simp: decoding_def)
    from worker_turn_at_work [OF s(1,4) this assms(2,3)] s rest True show ?thesis
      by (auto simp: sound_def open_ended_def later_honest)
  next
    case False
    have "idle s"
      using assms(1) False by (cases "runner s") (auto simp: sound_def idle_def)
    with assms(2) have gone: "workers s ! k = Gone" by (simp add: idle_def)
    with rest(10) have "wk = Gone" "t = s" by auto
    moreover have "(workers s)[k := Gone] = workers s" using gone by (metis list_update_id)
    ultimately show ?thesis using assms(1) by simp
  qed
qed

lemma decoder_step_sound:
  assumes "sound I s" "zstd_sound (codec I)" "decode_turn (codec I) (payload I) (decoder s) (carried s) = (dec, im)"
  shows "sound I (s\<lparr>decoder := dec, carried := im\<rparr>)"
proof -
  have d: "decoding (payload I) (decoder s) (carried s)" using assms(1) by (simp add: sound_def)
  from decode_turn_decoding [OF assms(2) d assms(3)] assms(1) run_state_extends [of "runner s" s im dec]
  show ?thesis by (auto simp: sound_def extends_def)
qed

lemma install_step_sound:
  assumes "install_step I s s'" "sound I s" "zstd_sound (codec I)" "parallelism I \<noteq> Some 0"
  shows "sound I s'"
  using assms by cases (auto intro: main_turn_sound worker_step_sound decoder_step_sound)

lemma reaches_sound:
  assumes "reaches I s s'" "sound I s" "zstd_sound (codec I)" "parallelism I \<noteq> Some 0"
  shows "sound I s'"
  using assms unfolding reaches_def by (induction rule: rtranclp_induct) (auto intro: install_step_sound)

lemma fresh_session_sound:
  assumes "ready im = 0" "failed im = None" "0 < img_len im" "img_len im \<le> length (buf im)" "honest_device d"
  shows "sound I (fresh_session im Raising d)"
  using assms by (simp add: sound_def fresh_session_def open_ended_def new_progress_def decoding_def)

text \<open>
  C33: what the interface shows of the progress is in range at every moment: no more bytes are counted than
  the image has, the watermark stays within the image and the image within its buffer, and an error is
  shown only when the installation is over or about to be.
\<close>

theorem progress_in_range:
  assumes "zstd_sound (codec I)" "parallelism I \<noteq> Some 0"
    and "ready im = 0" "failed im = None" "0 < img_len im" "img_len im \<le> length (buf im)"
    and "honest_device d" "reaches I (fresh_session im Raising d) s"
  shows "written (progress s) \<le> image_total (carried s) \<and> ready (carried s) \<le> image_total (carried s) \<and>
    image_total (carried s) \<le> length (buf (carried s)) \<and>
    (problem (progress s) = None \<or> runner s \<in> {SetFinished, Returned})"
proof -
  have s: "sound I s"
    by (rule reaches_sound [OF assms(8) fresh_session_sound [OF assms(3-7)] assms(1,2)])
  then have "ready (carried s) \<le> img_len (carried s)" "img_len (carried s) \<le> length (buf (carried s))"
    by (auto simp: sound_def decoding_def)
  moreover have "written (progress s) \<le> img_len (carried s) \<and>
      (problem (progress s) = None \<or> runner s \<in> {SetFinished, Returned})"
    using s at_work_written [of s]
    by (cases "runner s") (auto simp: sound_def open_ended_def settled_as_def on_device_def split: if_splits)
  ultimately show ?thesis by (simp add: image_total_def)
qed

definition installed :: "'z session \<Rightarrow> bool" where
  "installed s \<longleftrightarrow>
     image_complete (carried s) \<and> written (progress s) = image_total (carried s) \<and>
     take (image_total (carried s)) (stable (device s)) = take (image_total (carried s)) (buf (carried s))"

lemma sound_finished:
  assumes "sound I s" "finished (progress s)"
  shows "(problem (progress s) = None \<longleftrightarrow> progress_stage (progress s) = Complete) \<and>
    (problem (progress s) = None \<longrightarrow> installed s)"
proof -
  have "runner s = Returned"
    using assms by (cases "runner s") (auto simp: sound_def open_ended_def)
  with assms(1) have "settled_as s" "ready (carried s) \<le> img_len (carried s)"
    by (auto simp: sound_def decoding_def)
  then show ?thesis
    by (auto simp: settled_as_def progress_stage_def on_device_def copied_def image_slice_def image_total_def
        image_complete_def installed_def split: if_splits)
qed

text \<open>
  C1: an installation that reports success has installed the image. In whatever order the decoder, the
  workers and \<open>run\<close> take their turns, and whatever calls are cut short, interrupted or refused: once
  \<open>finished\<close> is set, either there is no error and the stage is COMPLETE, and then the image is decoded in
  full, all its bytes are counted and they are on the medium, without power too; or there is an error, and
  the stage is not COMPLETE. The device must not acknowledge writes that it drops.
\<close>

theorem finished_means_installed:
  assumes "zstd_sound (codec I)" "parallelism I \<noteq> Some 0"
    and "ready im = 0" "failed im = None" "0 < img_len im" "img_len im \<le> length (buf im)"
    and "honest_device d" "reaches I (fresh_session im Raising d) s" "finished (progress s)"
  shows "(problem (progress s) = None \<longleftrightarrow> progress_stage (progress s) = Complete) \<and>
    (problem (progress s) = None \<longrightarrow>
       image_complete (carried s) \<and> written (progress s) = image_total (carried s) \<and>
       take (image_total (carried s)) (stable (device s)) = take (image_total (carried s)) (buf (carried s)))"
  unfolding installed_def [symmetric]
  by (rule sound_finished [OF reaches_sound [OF assms(8) fresh_session_sound [OF assms(3-7)] assms(1,2)] assms(9)])

section \<open>Schedules\<close>

text \<open>Who takes the next turn.\<close>

datatype turn = Main | Worker nat | Decoder

fun take_turn :: "'z installation \<Rightarrow> turn \<Rightarrow> 'z session \<Rightarrow> 'z session" where
  "take_turn I Main s = main_turn I s"
| "take_turn I (Worker k) s =
     (if k < length (workers s)
      then (case worker_turn (workers s ! k) s of (wk, s') \<Rightarrow> s'\<lparr>workers := (workers s)[k := wk]\<rparr>)
      else s)"
| "take_turn I Decoder s =
     (case decode_turn (codec I) (payload I) (decoder s) (carried s) of
        (dec, im) \<Rightarrow> s\<lparr>decoder := dec, carried := im\<rparr>)"

lemma take_turn_step: "take_turn I t s = s \<or> install_step I s (take_turn I t s)"
  by (cases t) (auto intro: install_step.intros split: prod.split)

lemma install_step_turn: "install_step I s s' \<Longrightarrow> \<exists>t. s' = take_turn I t s"
  by (erule install_step.cases)
    (metis take_turn.simps(1), metis (mono_tags, lifting) case_prod_conv take_turn.simps(2),
     metis (mono_tags, lifting) case_prod_conv take_turn.simps(3))

lemma reaches_turns: "reaches I s (fold (take_turn I) ts s)"
  unfolding reaches_def
proof (induction ts arbitrary: s)
  case (Cons t ts)
  have "(install_step I)\<^sup>*\<^sup>* s (take_turn I t s)"
    using take_turn_step [of I t s] by auto
  with Cons.IH [of "take_turn I t s"] show ?case by simp
qed simp

definition small_installation :: "unit installation" where
  "small_installation =
     \<lparr>codec = stored_zstd, payload = ''ab'', target = ''/dev/sda'', parallelism = Some 2,
      memory = 2000000\<rparr>"

definition small_device :: "answer list \<Rightarrow> device" where
  "small_device as =
     \<lparr>media = ''....'', stable = ''....'', scrubbed = ''----'', sector = 1, direct = False, answers = as\<rparr>"

definition small_image :: image where
  "small_image = \<lparr>buf = ''....'', img_len = 2, ready = 0, failed = None, label = ''x''\<rparr>"

text \<open>Everything up to the workers, the workers and the decoder in turns, and the end.\<close>

definition small_schedule :: "turn list" where
  "small_schedule =
     replicate 9 Main @ concat (replicate 12 [Worker 0, Decoder, Worker 1]) @ replicate 8 Main"

lemma finished_means_installed_witness:
  "case fold (take_turn small_installation) small_schedule
      (fresh_session small_image Raising (small_device [Moves 0, Moves 0, Moves 0, Interrupts, Moves 1, Moves 1])) of
     s \<Rightarrow> finished (progress s) \<and>
     (problem (progress s) = None \<longleftrightarrow> progress_stage (progress s) = Complete) \<and> 
     take (image_total (carried s)) (stable (device s)) = take (image_total (carried s)) (buf (carried s))"
proof -
  let ?d = "small_device [Moves 0, Moves 0, Moves 0, Interrupts, Moves 1, Moves 1]"
  let ?s = "fold (take_turn small_installation) small_schedule (fresh_session small_image Raising ?d)"
  have end_state: "case ?s of s \<Rightarrow> finished (progress s) \<and> problem (progress s) = None" by code_simp
  have "honest_device ?d" by (simp add: honest_device_def small_device_def)
  moreover have "zstd_sound (codec small_installation)" "parallelism small_installation \<noteq> Some 0"
    by (simp_all add: small_installation_def stored_zstd_sound)
  moreover have "ready small_image = 0" "failed small_image = None" "0 < img_len small_image"
    "img_len small_image \<le> length (buf small_image)"
    by (simp_all add: small_image_def)
  ultimately show ?thesis
    using finished_means_installed [OF _ _ _ _ _ _ _ reaches_turns, of small_installation small_image ?d small_schedule]
      end_state by simp
qed

lemma progress_in_range_witness:
  "case fold (take_turn small_installation) (take 20 small_schedule)
      (fresh_session small_image Raising (small_device [Moves 0, Moves 0, Moves 0, Interrupts, Moves 1, Moves 1])) of
     s \<Rightarrow> written (progress s) \<le> image_total (carried s) \<and> ready (carried s) \<le> image_total (carried s)"
proof -
  let ?d = "small_device [Moves 0, Moves 0, Moves 0, Interrupts, Moves 1, Moves 1]"
  have "honest_device ?d" by (simp add: honest_device_def small_device_def)
  moreover have "zstd_sound (codec small_installation)" "parallelism small_installation \<noteq> Some 0"
    by (simp_all add: small_installation_def stored_zstd_sound)
  moreover have "ready small_image = 0" "failed small_image = None" "0 < img_len small_image"
    "img_len small_image \<le> length (buf small_image)"
    by (simp_all add: small_image_def)
  ultimately show ?thesis
    using progress_in_range [OF _ _ _ _ _ _ _ reaches_turns, of small_installation small_image ?d "take 20 small_schedule"]
    by simp
qed

section \<open>The spot check\<close>

lemma check_samples_Ok:
  "check_samples is im d = (Ok (), d') \<Longrightarrow> i \<in> set is \<Longrightarrow>
     image_slice im (sample_start (image_total im) i) (sample_len (image_total im) i) =
       take (sample_len (image_total im) i) (drop (sample_start (image_total im) i) (media d))"
proof (induction "is" arbitrary: d)
  case (Cons j rest)
  let ?off = "sample_start (image_total im) j" and ?len = "sample_len (image_total im) j"
  obtain bytes d1 where read: "pread_exact d ?len ?off [] = (Ok bytes, d1)" "bytes = image_slice im ?off ?len"
    "check_samples rest im d1 = (Ok (), d')"
    using Cons.prems(1) by (auto simp: Let_def split: prod.splits sum.splits if_splits)
  have "media d1 = media d" using pread_exact_later [OF read(1)] by simp
  with Cons.IH [OF read(3)] Cons.prems(2) read(2) pread_exact_Ok [OF read(1)] show ?case by auto
qed simp

text \<open>
  C31: the spot check trusts no acknowledgement. Whatever the device dropped, a check that passes has read
  twelve windows back, a twelfth of the image apart, and each held the image's bytes: one MiB, or what is
  left of a smaller image.
\<close>

theorem spot_check_sound:
  assumes "spot_check mem im d = (Ok (), d')" "i < 12" "0 < image_total im"
  shows "take (min 1048576 (image_total im - i * (image_total im div 12)))
      (drop (i * (image_total im div 12) div 4096 * 4096) (media d)) =
    image_slice im (i * (image_total im div 12) div 4096 * 4096)
      (min 1048576 (image_total im - i * (image_total im div 12)))"
proof -
  have "check_samples [0..<SAMPLES] im d = (Ok (), d')"
    using assms(1,3) by (auto simp: spot_check_def split: sum.splits)
  from check_samples_Ok [OF this, of i] assms(2) show ?thesis
    by (simp add: SAMPLES_def sample_start_def sample_len_def WINDOW_def Let_def minus_mod_eq_div_mult)
qed

lemma spot_check_sound_witness:
  "take 2 (media ((small_device [])\<lparr>media := ''ab..''\<rparr>)) =
     image_slice (small_image\<lparr>buf := ''ab..'', ready := 2\<rparr>) 0 2"
proof -
  let ?im = "small_image\<lparr>buf := ''ab..'', ready := 2\<rparr>" and ?d = "(small_device [])\<lparr>media := ''ab..''\<rparr>"
  have "fst (spot_check 2000000 ?im ?d) = Ok ()" by code_simp
  then obtain d' where "spot_check 2000000 ?im ?d = (Ok (), d')" by (metis prod.collapse)
  from spot_check_sound [OF this, of 0] show ?thesis by (simp add: small_image_def image_total_def)
qed

end
