(* ===== verification/Install_Ends.thy ===== *)
theory Install_Ends
  imports Install
begin

text \<open>
  An installation ends: a measure on its states that every turn lowers unless it changes nothing, and
  no state without a turn that changes something but the last.
\<close>

section \<open>The work that is left\<close>

fun worker_weight :: "nat \<Rightarrow> worker \<Rightarrow> nat" where
  "worker_weight tot Looking = 2"
| "worker_weight tot Claiming = 1"
| "worker_weight tot (Awaiting k) = span_len tot k + 5"
| "worker_weight tot (Putting k off) = span_end tot k - off + 4"
| "worker_weight tot (Counting n) = 3"
| "worker_weight tot (Failing m) = 1"
| "worker_weight tot Gone = 0"

definition unclaimed :: "nat \<Rightarrow> nat \<Rightarrow> nat" where
  "unclaimed tot n = (spans tot - n) * (SPAN + 5)"

fun main_weight :: "nat \<Rightarrow> main_thread \<Rightarrow> nat" where
  "main_weight tot Returned = 0"
| "main_weight tot SetFinished = 1"
| "main_weight tot (Raise c m) = 2"
| "main_weight tot SetComplete = 2"
| "main_weight tot Verify = 3"
| "main_weight tot SetVerifying = 4"
| "main_weight tot Flush = 5"
| "main_weight tot SetFlushing = 6"
| "main_weight tot Join = 7"
| "main_weight tot Spawn = unclaimed tot 0 + 24"
| "main_weight tot SetWriting = unclaimed tot 0 + 25"
| "main_weight tot DiscardAll = unclaimed tot 0 + 26"
| "main_weight tot SetDiscarding = unclaimed tot 0 + 27"
| "main_weight tot Measure = unclaimed tot 0 + 28"
| "main_weight tot OpenTarget = unclaimed tot 0 + 29"
| "main_weight tot CheckImage = unclaimed tot 0 + 30"
| "main_weight tot SetGoal = unclaimed tot 0 + 31"
| "main_weight tot SetPreparing = unclaimed tot 0 + 32"

definition work_left :: "'z installation \<Rightarrow> 'z session \<Rightarrow> nat" where
  "work_left I s =
     (let tot = img_len (carried s) in
      main_weight tot (runner s) + sum_list (map (worker_weight tot) (workers s)) + unclaimed tot (next_span s) +
      length (answers (device s)) + turns_left (length (payload I)) (decoder s) (carried s))"

lemma later_answers: "later d d' \<Longrightarrow> length (answers d') \<le> length (answers d)"
  by (simp add: later_def)

lemma pwrite_Count_le: "pwrite d b off = (Count n, d') \<Longrightarrow> n \<le> length b"
  by (auto simp: pwrite_def fits_def split: if_splits option.splits answer.splits list.splits)

lemma pwrite_round_moves:
  "pwrite_round d b off = (Again b' off', d') \<Longrightarrow> \<exists>n \<le> length b. b' = drop n b \<and> off' = off + n"
  by (auto simp: pwrite_round_def dest: pwrite_Count_le split: prod.splits transfer.splits if_splits)

lemma pwrite_round_empty:
  "pwrite_round d [] off = (Again b' off', d') \<Longrightarrow> off' = off \<and> length (answers d') < length (answers d)"
  by (auto simp: pwrite_round_def pwrite_def fits_def split: if_splits prod.splits transfer.splits
      option.splits answer.splits list.splits)

lemma main_turn_lowers: "runner s \<noteq> Returned \<Longrightarrow> \<not> (runner s = Join \<and> \<not> idle s) \<Longrightarrow>
    work_left I (main_turn I s) < work_left I s"
proof (cases "runner s")
  case OpenTarget
  obtain r d where r: "open_block (target I) True (device s) = (r, d)" by fastforce
  note n = later_answers [OF open_block_later [OF r, THEN conjunct1]]
  show ?thesis using OpenTarget r n by (cases r) (simp_all add: main_turn_def work_left_def Let_def)
next
  case Measure
  obtain r d where r: "device_size (device s) = (r, d)" by fastforce
  note n = later_answers [OF device_size_later [OF r, THEN conjunct1]]
  show ?thesis using Measure r n by (cases r) (simp_all add: main_turn_def work_left_def Let_def)
next
  case DiscardAll
  note n = later_answers [OF discard_later [of "device s" "length (media (device s))"]]
  show ?thesis using DiscardAll n by (simp add: main_turn_def work_left_def Let_def)
next
  case Flush
  obtain r d where r: "fdatasync (device s) = (r, d)" by fastforce
  note n = later_answers [OF fdatasync_later [OF r, THEN conjunct1]]
  show ?thesis using Flush r n by (cases r) (simp_all add: main_turn_def work_left_def Let_def)
next
  case Verify
  obtain r d where r: "spot_check (memory I) (carried s) (device s) = (r, d)" by fastforce
  note n = later_answers [OF spot_check_later [OF r, THEN conjunct1]]
  show ?thesis using Verify r n by (cases r) (simp_all add: main_turn_def work_left_def Let_def)
next
  case Spawn
  have "thread_count (parallelism I) \<le> 8" by (simp add: thread_count_def)
  then show ?thesis using Spawn by (simp add: main_turn_def work_left_def Let_def sum_list_replicate)
next
  case Join
  then show "\<not> (runner s = Join \<and> \<not> idle s) \<Longrightarrow> ?thesis"
    by (auto simp: main_turn_def work_left_def Let_def idle_def split: option.splits)
qed (auto simp: main_turn_def work_left_def Let_def split: option.splits)

lemma work_left_worker:
  assumes "i < length (workers s)" "carried t = carried s" "decoder t = decoder s" "runner t = runner s"
    and "worker_weight (img_len (carried s)) wk + unclaimed (img_len (carried s)) (next_span t) + length (answers (device t)) <
      worker_weight (img_len (carried s)) (workers s ! i) + unclaimed (img_len (carried s)) (next_span s) +
      length (answers (device s))"
  shows "work_left I (t\<lparr>workers := (workers s)[i := wk]\<rparr>) < work_left I s"
  using sum_update [OF assms(1), of "worker_weight (img_len (carried s))" wk] assms(2-)
  by (simp add: work_left_def Let_def)

lemma unclaimed_Suc: "n < spans tot \<Longrightarrow> unclaimed tot n = unclaimed tot (Suc n) + (SPAN + 5)"
  by (simp add: unclaimed_def Suc_diff_Suc [symmetric])

lemma worker_turn_lowers:
  assumes "i < length (workers s)" "worker_turn (workers s ! i) s = (wk, t)"
  shows "t\<lparr>workers := (workers s)[i := wk]\<rparr> = s \<or> work_left I (t\<lparr>workers := (workers s)[i := wk]\<rparr>) < work_left I s"
proof -
  note same = worker_turn_rest(1-3) [OF assms(2)]
  note lower = work_left_worker [OF assms(1) same, where wk = wk and I = I]
  let ?tot = "img_len (carried s)"
  show ?thesis
  proof (cases "workers s ! i")
    case Looking
    with assms(2) have "t = s" "worker_weight ?tot wk < 2" by (auto simp: worker_turn_def Let_def)
    with Looking lower show ?thesis by simp
  next
    case Claiming
    with assms(2) have t: "next_span t = Suc (next_span s)" "device t = device s"
      "wk = (if spans ?tot \<le> next_span s then Gone else Awaiting (next_span s))"
      by (auto simp: worker_turn_def Let_def image_total_def)
    have "span_len ?tot (next_span s) \<le> SPAN" by (simp add: span_len_def)
    moreover have "unclaimed ?tot (Suc (next_span s)) = 0 \<and> unclaimed ?tot (next_span s) = 0"
      if "spans ?tot \<le> next_span s" using that by (simp add: unclaimed_def)
    ultimately show ?thesis
      using lower Claiming unclaimed_Suc [of "next_span s" ?tot] by (auto simp: t not_le)
  next
    case (Awaiting k)
    with assms(2) have t: "t = s" by (auto simp: worker_turn_def Let_def)
    consider "wk = Awaiting k" | m where "wk = Failing m" | "wk = Putting k (k * SPAN)"
      using assms(2) Awaiting by (auto simp: worker_turn_def Let_def split: option.splits sum.splits)
    then show ?thesis
    proof cases
      case 1
      with Awaiting have "(workers s)[i := wk] = workers s" by (metis list_update_id)
      with t show ?thesis by simp
    next
      case 2
      with lower Awaiting t show ?thesis by simp
    next
      case 3
      with lower Awaiting t show ?thesis by (simp add: span_end_def)
    qed
  next
    case (Putting k off)
    let ?e = "span_end ?tot k" and ?b = "image_slice (carried s) off (span_end ?tot k - off)"
    show ?thesis
    proof (cases "off = ?e")
      case True
      with assms(2) Putting have "t = s" "wk = Counting (span_len ?tot k)"
        by (auto simp: worker_turn_def Let_def image_total_def)
      with lower Putting show ?thesis by simp
    next
      case False
      obtain r d where r: "pwrite_round (device s) ?b off = (r, d)" by fastforce
      have len: "length ?b \<le> ?e - off" by (simp add: image_slice_def)
      show ?thesis
      proof (cases r)
        case (Again b' off')
        have t: "device t = d" "next_span t = next_span s" "wk = Putting k off'"
          using assms(2) Putting False r Again by (auto simp: worker_turn_def Let_def image_total_def)
        obtain n where n: "n \<le> length ?b" "b' = drop n ?b" "off' = off + n"
          using pwrite_round_moves [OF r [unfolded Again]] by blast
        show ?thesis
        proof (cases "?b = []")
          case True
          from pwrite_round_empty [OF r [unfolded Again True]] lower Putting t show ?thesis by simp
        next
          case False
          from pwrite_round_shrinks [OF r [unfolded Again] False] n len
          have "?e - off' + length (answers d) < ?e - off + length (answers (device s))" by simp
          with lower Putting t show ?thesis by simp
        qed
      next
        case (Broke e)
        have "device t = d" "next_span t = next_span s" "wk = Failing (error_text e)"
          using assms(2) Putting False r Broke by (auto simp: worker_turn_def Let_def image_total_def)
        with lower Putting later_answers [OF pwrite_round_later [OF r, THEN conjunct1]] show ?thesis by simp
      qed
    qed
  next
    case (Counting n)
    with assms(2) have "wk = Looking" "next_span t = next_span s" "device t = device s"
      by (auto simp: worker_turn_def Let_def)
    with lower Counting show ?thesis by simp
  next
    case (Failing m)
    with assms(2) have "wk = Gone" "next_span t = next_span s" "device t = device s"
      by (auto simp: worker_turn_def Let_def)
    with lower Failing show ?thesis by simp
  next
    case Gone
    with assms(2) have "wk = Gone" "t = s" by (auto simp: worker_turn_def Let_def)
    moreover have "(workers s)[i := Gone] = workers s" using Gone by (metis list_update_id)
    ultimately show ?thesis by simp
  qed
qed

lemma main_turn_waits: "runner s = Returned \<or> runner s = Join \<and> \<not> idle s \<Longrightarrow> main_turn I s = s"
  by (auto simp: main_turn_def idle_def)

text \<open>What the argument needs of a state.\<close>

definition alive :: "'z installation \<Rightarrow> 'z session \<Rightarrow> bool" where
  "alive I s \<longleftrightarrow>
     decoding (payload I) (decoder s) (carried s) \<and> (runner s = Returned \<longleftrightarrow> finished (progress s)) \<and>
     (\<forall>k. Awaiting k \<in> set (workers s) \<longrightarrow> k < spans (img_len (carried s)))"

lemma main_turn_alive: "alive I s \<Longrightarrow> alive I (main_turn I s)"
  by (cases "runner s") (auto simp: alive_def main_turn_def split: option.splits prod.splits sum.splits)

lemma worker_turn_awaits:
  "worker_turn wk s = (Awaiting k, t) \<Longrightarrow> wk = Awaiting k \<or> k < spans (img_len (carried s))"
  by (auto simp: worker_turn_def Let_def image_total_def
      split: worker.splits if_splits option.splits sum.splits prod.splits round.splits)

lemma install_step_alive:
  assumes "install_step I s s'" "alive I s" "zstd_sound (codec I)"
  shows "alive I s'"
  using assms(1)
proof cases
  case main_step
  then show ?thesis using main_turn_alive [OF assms(2)] by simp
next
  case (worker_step k wk t)
  have "j < spans (img_len (carried s))" if "Awaiting j \<in> set ((workers s)[k := wk])" for j
  proof (cases "Awaiting j \<in> set (workers s)")
    case True
    with assms(2) show ?thesis by (simp add: alive_def)
  next
    case False
    with that set_update_subset_insert [of "workers s" k wk] have "wk = Awaiting j" by auto
    with worker_turn_awaits worker_step(2,3) False show ?thesis by (metis nth_mem)
  qed
  with assms(2) worker_turn_rest [OF worker_step(3)] worker_step(1) show ?thesis by (simp add: alive_def)
next
  case (decoder_step dec im)
  have d: "decoding (payload I) (decoder s) (carried s)" using assms(2) by (simp add: alive_def)
  from decode_turn_decoding [OF assms(3) d decoder_step(2)] assms(2) show ?thesis
    by (simp add: decoder_step(1) alive_def extends_def)
qed

lemma install_step_lowers:
  assumes "install_step I s s'" "s' \<noteq> s" "alive I s" "zstd_sound (codec I)" "zstd_advances (codec I)"
  shows "work_left I s' < work_left I s"
  using assms(1)
proof cases
  case main_step
  then show ?thesis using main_turn_waits [of s I] main_turn_lowers [of s I] assms(2) by auto
next
  case (worker_step k wk t)
  then show ?thesis using worker_turn_lowers [OF worker_step(2,3)] assms(2) by auto
next
  case (decoder_step dec im)
  have d: "decoding (payload I) (decoder s) (carried s)" using assms(3) by (simp add: alive_def)
  have "decoder s \<noteq> Quit"
    using decoder_step assms(2) by (auto simp: decode_turn_def)
  from decode_turn_advances [OF assms(4,5) d this decoder_step(2)] decode_turn_decoding [OF assms(4) d decoder_step(2)]
  show ?thesis by (simp add: decoder_step(1) work_left_def Let_def extends_def)
qed

text \<open>Only the end has nothing left to do.\<close>

lemma busy_worker_changes:
  assumes "wk \<noteq> Gone" "\<And>k. wk \<noteq> Awaiting k" "worker_turn wk s = (wk', t)"
  shows "wk' \<noteq> wk \<or> device t \<noteq> device s"
proof (cases wk)
  case (Putting k off)
  let ?e = "span_end (img_len (carried s)) k"
  show ?thesis
  proof (cases "off = ?e")
    case True
    with Putting assms(3) show ?thesis by (auto simp: worker_turn_def Let_def image_total_def)
  next
    case False
    obtain r d where r: "pwrite_round (device s) (image_slice (carried s) off (?e - off)) off = (r, d)" by fastforce
    show ?thesis
    proof (cases r)
      case (Again b off')
      note step = r [unfolded Again]
      have "off' \<noteq> off \<or> d \<noteq> device s"
        using pwrite_round_moves [OF step] pwrite_round_shrinks [OF step] pwrite_round_empty [of "device s" off b off' d] step
        by (cases "image_slice (carried s) off (?e - off) = []") force+
      with Putting False assms(3) r Again show ?thesis by (auto simp: worker_turn_def Let_def image_total_def)
    qed (use Putting False assms(3) r in \<open>auto simp: worker_turn_def Let_def image_total_def\<close>)
  qed
qed (use assms in \<open>auto simp: worker_turn_def Let_def split: if_splits\<close>)

lemma stuck_is_over:
  assumes "alive I s" "zstd_sound (codec I)" "zstd_advances (codec I)" "\<And>s'. install_step I s s' \<Longrightarrow> s' = s"
  shows "finished (progress s)"
proof (rule ccontr)
  assume "\<not> finished (progress s)"
  then have "runner s \<noteq> Returned" using assms(1) by (simp add: alive_def)
  moreover have "main_turn I s = s" by (rule assms(4) [OF install_step.main_step])
  ultimately have "\<not> idle s" using main_turn_lowers [of s I] by auto
  then obtain i where i: "i < length (workers s)" "workers s ! i \<noteq> Gone"
    by (auto simp: idle_def in_set_conv_nth)
  obtain wk t where turn: "worker_turn (workers s ! i) s = (wk, t)" by fastforce
  have same: "t\<lparr>workers := (workers s)[i := wk]\<rparr> = s"
    by (rule assms(4) [OF install_step.worker_step [OF i(1) turn]])
  have "device t = device s" using arg_cong [OF same, of device] by simp
  moreover have "(workers s)[i := wk] = workers s" using arg_cong [OF same, of workers] by simp
  then have wk: "wk = workers s ! i" using i(1) by (metis nth_list_update_eq)
  ultimately obtain k where k: "workers s ! i = Awaiting k" using busy_worker_changes [OF i(2) _ turn] by metis
  with turn wk have low: "ready (carried s) < span_end (img_len (carried s)) k" "failed (carried s) = None"
    by (auto simp: worker_turn_def wait_round_def Let_def image_total_def split: if_splits option.splits)
  have "k < spans (img_len (carried s))" using assms(1) i(1) k by (metis alive_def nth_mem)
  with low(1) span_end_bounds(2) [of k "img_len (carried s)"] have part: "ready (carried s) < img_len (carried s)" by simp
  have d: "decoding (payload I) (decoder s) (carried s)" using assms(1) by (simp add: alive_def)
  with part low(2) have "decoder s \<noteq> Quit" by (auto simp: decoding_def)
  moreover obtain dec im where next_turn: "decode_turn (codec I) (payload I) (decoder s) (carried s) = (dec, im)" by fastforce
  ultimately have "turns_left (length (payload I)) dec im < turns_left (length (payload I)) (decoder s) (carried s)"
    using decode_turn_advances [OF assms(2,3) d] by blast
  moreover have stay: "s\<lparr>decoder := dec, carried := im\<rparr> = s"
    by (rule assms(4) [OF install_step.decoder_step [OF next_turn]])
  have "dec = decoder s" "im = carried s"
    using arg_cong [OF stay, of decoder] arg_cong [OF stay, of carried] by simp_all
  ultimately show False by simp
qed

lemma reaches_alive: "reaches I s s' \<Longrightarrow> alive I s \<Longrightarrow> zstd_sound (codec I) \<Longrightarrow> alive I s'"
  unfolding reaches_def by (induction rule: rtranclp_induct) (auto intro: install_step_alive)

lemma chain_shorter:
  assumes "\<And>k. k < n \<Longrightarrow> install_step I (f k) (f (Suc k)) \<and> f (Suc k) \<noteq> f k"
    and "alive I (f 0)" "zstd_sound (codec I)" "zstd_advances (codec I)"
  shows "alive I (f n) \<and> work_left I (f n) + n \<le> work_left I (f 0)"
  using assms(1)
proof (induction n)
  case (Suc n)
  have step: "install_step I (f n) (f (Suc n))" "f (Suc n) \<noteq> f n" using Suc.prems [of n] by auto
  have IH: "alive I (f n)" "work_left I (f n) + n \<le> work_left I (f 0)"
    using Suc.IH Suc.prems less_SucI by blast+
  from install_step_lowers [OF step IH(1) assms(3,4)] install_step_alive [OF step(1) IH(1) assms(3)] IH(2)
  show ?case by simp
qed (simp add: assms(2))

text \<open>
  C12: an installation ends. In no order of turns can more than the stated number of them change anything:
  two units of work per byte of each span, the calls the schedule disturbs, and the decoder's turns. And a
  state in which no turn of any thread changes anything has \<open>finished\<close> set, so no thread waits for ever.
\<close>

theorem installation_ends:
  assumes "zstd_sound (codec I)" "zstd_advances (codec I)"
    and "ready im = 0" "failed im = None" "0 < img_len im" "img_len im \<le> length (buf im)"
  shows "(\<forall>f n. f 0 = fresh_session im Raising d \<longrightarrow>
      (\<forall>k < n. install_step I (f k) (f (Suc k)) \<and> f (Suc k) \<noteq> f k) \<longrightarrow>
      n \<le> 2 * (spans (img_len im) * (SPAN + 5)) + length (answers d) + 2 * length (payload I) + 2 * img_len im + 36) \<and>
    (\<forall>s. reaches I (fresh_session im Raising d) s \<longrightarrow> (\<forall>s'. install_step I s s' \<longrightarrow> s' = s) \<longrightarrow>
      finished (progress s))"
proof (intro conjI allI impI)
  let ?s = "fresh_session im Raising d"
  have start: "alive I ?s"
    using assms(3-6) by (simp add: alive_def fresh_session_def decoding_def new_progress_def)
  fix f n
  assume f: "f 0 = ?s" and steps: "\<forall>k < n. install_step I (f k) (f (Suc k)) \<and> f (Suc k) \<noteq> f k"
  have "n \<le> work_left I (f 0)"
    using chain_shorter [of n I f] steps start assms(1,2) by (fastforce simp: f)
  also have "work_left I (f 0) =
      2 * (spans (img_len im) * (SPAN + 5)) + length (answers d) + 2 * length (payload I) + 2 * img_len im + 36"
    by (simp add: f fresh_session_def work_left_def unclaimed_def)
  finally show "n \<le> \<dots>" .
next
  fix s
  assume r: "reaches I (fresh_session im Raising d) s" and stuck: "\<forall>s'. install_step I s s' \<longrightarrow> s' = s"
  have "alive I (fresh_session im Raising d)"
    using assms(3-6) by (simp add: alive_def fresh_session_def decoding_def new_progress_def)
  from stuck_is_over [OF reaches_alive [OF r this assms(1)] assms(1,2)] stuck show "finished (progress s)" by blast
qed

lemma installation_ends_witness:
  "case fold (take_turn small_installation) small_schedule
      (fresh_session small_image Raising (small_device [Moves 0, Moves 0, Moves 0, Interrupts, Moves 1, Moves 1])) of
     s \<Rightarrow> workers s = [Gone, Gone] \<and> finished (progress s)"
proof -
  let ?d = "small_device [Moves 0, Moves 0, Moves 0, Interrupts, Moves 1, Moves 1]"
  let ?s = "fold (take_turn small_installation) small_schedule (fresh_session small_image Raising ?d)"
  have over: "case ?s of s \<Rightarrow> workers s = [Gone, Gone] \<and> runner s = Returned \<and> decoder s = Quit" by code_simp
  have still: "take_turn small_installation t ?s = ?s" for t
  proof (cases t)
    case (Worker k)
    have "k < 2 \<Longrightarrow> k = 0 \<or> k = 1" by linarith
    moreover have "?s\<lparr>workers := [Gone, Gone]\<rparr> = ?s" using over by auto
    ultimately show ?thesis using over Worker by (auto simp: worker_turn_def Let_def)
  qed (use over in \<open>auto simp: main_turn_def decode_turn_def\<close>)
  have stuck: "s' = ?s" if "install_step small_installation ?s s'" for s'
    using install_step_turn [OF that] still by blast
  have "zstd_sound (codec small_installation)" "zstd_advances (codec small_installation)"
    by (simp_all add: small_installation_def stored_zstd_sound)
  moreover have "ready small_image = 0" "failed small_image = None" "0 < img_len small_image"
    "img_len small_image \<le> length (buf small_image)"
    by (simp_all add: small_image_def)
  ultimately have "finished (progress ?s)"
    using installation_ends [of small_installation small_image ?d] reaches_turns stuck by blast
  with over show ?thesis by simp
qed

end
