(* ===== verification/Disk.thy ===== *)
theory Disk
  imports File_System "HOL-Library.Sorting_Algorithms" "HOL-Library.Char_ord" "HOL-Library.List_Lexorder"
begin

text \<open>
  The disks that the installer offers: \<open>installer/src/disk.rs\<close>. What it reads of sysfs, of the EFI
  variables and of \<open>/dev/disk\<close> is the argument \<open>sysfs\<close>; \<open>lowercase\<close> is Unicode's \<open>str::to_lowercase\<close>.
\<close>

section \<open>A disk\<close>

definition MIN_BYTES :: u64 where
  "MIN_BYTES = 5 * 1024 * 1024 * 1024"

definition SKIP_PREFIXES :: "string list" where
  "SKIP_PREFIXES = [''loop'', ''ram'', ''zram'', ''sr'', ''fd'', ''dm-'', ''md'', ''nbd'']"

record disk =
  node :: string
  model :: string
  serial :: string
  bus :: string
  disk_kind :: string
  disk_bytes :: u64
  read_only :: bool
  boot_media :: bool

record confirmation =
  confirm_kind :: string
  context_shown :: string
  confirm_chars :: "string list"

definition eligible :: "disk \<Rightarrow> bool" where
  "eligible d \<longleftrightarrow> \<not> read_only d \<and> \<not> boot_media d \<and> MIN_BYTES \<le> disk_bytes d"

text \<open>\<open>str::chars\<close>: the bytes of each character.\<close>

definition char_width :: "char \<Rightarrow> nat" where
  "char_width c = (if byte c < 0x80 then 1 else if byte c < 0xE0 then 2 else if byte c < 0xF0 then 3 else 4)"

function str_chars :: "string \<Rightarrow> string list" where
  "str_chars [] = []"
| "str_chars (c # s) = take (char_width c) (c # s) # str_chars (drop (char_width c) (c # s))"
  by pat_completeness auto
termination by (relation "measure length") (auto simp: char_width_def)

definition CODE_LENGTH :: nat where
  "CODE_LENGTH = 4"

text \<open>What follows the last \<open>/\<close>.\<close>

definition last_part :: "string \<Rightarrow> string" where
  "last_part s = rev (takeWhile (\<lambda>c. c \<noteq> CHR ''/'') (rev s))"

definition device_code :: "string \<Rightarrow> confirmation" where
  "device_code s =
     (let name = str_chars (last_part s);
          amount = min (length name) CODE_LENGTH;
          split = length s - sum_list (map length (take amount (rev name)))
      in \<lparr>confirm_kind = ''DEVICE'', context_shown = take split s,
          confirm_chars = map to_ascii_uppercase (str_chars (drop split s))\<rparr>)"

definition confirm_code :: "disk \<Rightarrow> confirmation" where
  "confirm_code d =
     (let cs = str_chars (serial d); split = length cs - CODE_LENGTH
      in if CODE_LENGTH \<le> length cs \<and> list_all (\<lambda>c. list_all is_ascii_alphanumeric c) (drop split cs)
         then \<lparr>confirm_kind = ''SERIAL'', context_shown = concat (take split cs),
               confirm_chars = map to_ascii_uppercase (drop split cs)\<rparr>
         else device_code (node d))"

definition note_of :: "disk \<Rightarrow> string" where
  "note_of d =
     (if boot_media d then ''INSTALLATION MEDIA''
      else if read_only d then ''READ ONLY''
      else if disk_bytes d < MIN_BYTES then ''TOO SMALL''
      else [])"

definition bus_of :: "string \<Rightarrow> string" where
  "bus_of l =
     (if contains ''/usb'' l then ''USB''
      else if contains ''/nvme/'' l \<or> contains ''nvme'' l then ''NVME''
      else if contains ''/ata'' l then ''SATA''
      else if contains ''virtio'' l then ''VIRTIO''
      else if contains ''/mmc'' l then ''MMC''
      else if contains ''/scsi'' l then ''SCSI''
      else [CHR 0xE2, CHR 0x80, CHR 0x94])"

section \<open>What sysfs says\<close>

text \<open>
  \<open>file_content\<close> is what a file holds, \<open>link_target\<close> where a link points and \<open>block_names\<close> the names under
  \<open>/sys/block\<close> in the order they are listed, \<open>None\<close> for an entry that could not be read.
\<close>

record sysfs =
  file_content :: "path \<Rightarrow> string option"
  link_target :: "path \<Rightarrow> path option"
  block_names :: "string option list option"
  path_present :: "path \<Rightarrow> bool"
  lowercase :: "string \<Rightarrow> string"

definition read_trimmed :: "sysfs \<Rightarrow> path \<Rightarrow> string option" where
  "read_trimmed S p =
     (case file_content S p of
        None \<Rightarrow> None
      | Some b \<Rightarrow> if utf8_valid b \<and> trim b \<noteq> [] then Some (trim b) else None)"

text \<open>\<open>as_chunks::<2>\<close> and \<open>u16::from_le_bytes\<close>; an odd last byte is left out.\<close>

fun utf16_units :: "string \<Rightarrow> nat list" where
  "utf16_units (a # b # s) = (byte a + 256 * byte b) # utf16_units s"
| "utf16_units _ = []"

text \<open>The UTF-8 encoding of a code point, and \<open>String::from_utf16\<close>.\<close>

definition encode_utf8 :: "nat \<Rightarrow> string" where
  "encode_utf8 n =
     (if n < 0x80 then [char_of n]
      else if n < 0x800 then [char_of (0xC0 + n div 64), char_of (0x80 + n mod 64)]
      else if n < 0x10000 then
        [char_of (0xE0 + n div 4096), char_of (0x80 + n div 64 mod 64), char_of (0x80 + n mod 64)]
      else
        [char_of (0xF0 + n div 262144), char_of (0x80 + n div 4096 mod 64),
         char_of (0x80 + n div 64 mod 64), char_of (0x80 + n mod 64)])"

fun from_utf16 :: "nat list \<Rightarrow> string option" where
  "from_utf16 [] = Some []"
| "from_utf16 (u # us) =
     (if u < 0xD800 \<or> 0xE000 \<le> u then map_option ((@) (encode_utf8 u)) (from_utf16 us)
      else if 0xDC00 \<le> u then None
      else (case us of
          v # vs \<Rightarrow>
            if 0xDC00 \<le> v \<and> v < 0xE000
            then map_option ((@) (encode_utf8 (0x10000 + (u - 0xD800) * 1024 + (v - 0xDC00)))) (from_utf16 vs)
            else None
        | [] \<Rightarrow> None))"

definition LOADER_VAR :: path where
  "LOADER_VAR = ''/sys/firmware/efi/efivars/LoaderDevicePartUUID-4a67b082-0a4c-41cf-b6c7-440b29bb8c4f''"

fun holder_of :: "sysfs \<Rightarrow> string \<Rightarrow> string option list \<Rightarrow> string option" where
  "holder_of S part [] = None"
| "holder_of S part (None # rest) = None"
| "holder_of S part (Some n # rest) =
     (if path_present S (join (join ''/sys/block'' (lossy n)) part) then Some (lossy n) else holder_of S part rest)"

text \<open>The partition's name is \<open>file_name()?.to_str()?\<close> of the link.\<close>

definition boot_partition :: "sysfs \<Rightarrow> string option" where
  "boot_partition S =
     (case file_content S LOADER_VAR of
        None \<Rightarrow> None
      | Some raw \<Rightarrow>
          if length raw < 6 then None
          else case from_utf16 (takeWhile (\<lambda>u. u \<noteq> 0) (utf16_units (drop 4 raw))) of
              None \<Rightarrow> None
            | Some uuid \<Rightarrow>
                (case link_target S (join ''/dev/disk/by-partuuid'' (lowercase S uuid)) of
                   None \<Rightarrow> None
                 | Some l \<Rightarrow>
                     (case file_name l of
                        None \<Rightarrow> None
                      | Some part \<Rightarrow> if utf8_valid part then Some part else None)))"

definition boot_disk :: "sysfs \<Rightarrow> string option" where
  "boot_disk S =
     (case boot_partition S of
        None \<Rightarrow> None
      | Some part \<Rightarrow> (case block_names S of None \<Rightarrow> None | Some es \<Rightarrow> holder_of S part es))"

section \<open>The offer\<close>

definition or_else :: "'a option \<Rightarrow> 'a option \<Rightarrow> 'a option" where
  "or_else a b = (case a of None \<Rightarrow> b | Some _ \<Rightarrow> a)"

definition sectors_of :: "sysfs \<Rightarrow> path \<Rightarrow> nat" where
  "sectors_of S base =
     (case Option.bind (read_trimmed S (join base ''size'')) (parse_uint 64) of None \<Rightarrow> 0 | Some n \<Rightarrow> n)"

definition says_one :: "sysfs \<Rightarrow> path \<Rightarrow> bool" where
  "says_one S p \<longleftrightarrow> read_trimmed S p = Some ''1''"

definition disk_at :: "sysfs \<Rightarrow> string option \<Rightarrow> string \<Rightarrow> disk" where
  "disk_at S boot name =
     (let base = join ''/sys/block'' name
      in \<lparr>node = ''/dev/'' @ name,
          model = (case or_else (read_trimmed S (join base ''device/model''))
                     (read_trimmed S (join base ''device/name'')) of Some m \<Rightarrow> m | None \<Rightarrow> name),
          serial = (case or_else (read_trimmed S (join base ''device/serial''))
                      (read_trimmed S (join base ''device/wwid'')) of
                      Some s \<Rightarrow> concat (take 20 (str_chars s)) | None \<Rightarrow> []),
          bus = bus_of (case link_target S base of Some l \<Rightarrow> lossy l | None \<Rightarrow> []),
          disk_kind = (if says_one S (join base ''queue/rotational'') then ''HDD'' else ''SSD''),
          disk_bytes = word_of_nat (sectors_of S base) * 512,
          read_only = says_one S (join base ''ro''),
          boot_media = (boot = Some name)\<rparr>)"

definition skipped :: "string \<Rightarrow> bool" where
  "skipped name \<longleftrightarrow> list_ex (\<lambda>p. starts_with p name) SKIP_PREFIXES"

fun found_disks :: "sysfs \<Rightarrow> string option \<Rightarrow> string option list \<Rightarrow> disk list" where
  "found_disks S boot [] = []"
| "found_disks S boot (None # rest) = found_disks S boot rest"
| "found_disks S boot (Some n # rest) =
     (if skipped (lossy n) \<or> sectors_of S (join ''/sys/block'' (lossy n)) = 0
      then found_disks S boot rest
      else disk_at S boot (lossy n) # found_disks S boot rest)"

text \<open>\<open>b.eligible().cmp(&a.eligible()).then(b.bytes.cmp(&a.bytes)).then(a.node.cmp(&b.node))\<close>\<close>

definition disk_order :: "disk comparator" where
  "disk_order =
     key (\<lambda>d. (eligible d, disk_bytes d, node d))
       (prod_lex (reversed default) (prod_lex (reversed default) default))"

definition enumerate_disks :: "sysfs \<Rightarrow> disk list" where
  "enumerate_disks S =
     (case block_names S of
        None \<Rightarrow> []
      | Some es \<Rightarrow> Sorting_Algorithms.sort disk_order (found_disks S (boot_disk S) es))"

section \<open>The order of the offer\<close>

definition ranks :: "disk \<Rightarrow> disk \<Rightarrow> bool" where
  "ranks a b \<longleftrightarrow>
     (if eligible a = eligible b
      then disk_bytes b < disk_bytes a \<or> (disk_bytes a = disk_bytes b \<and> node a \<le> node b)
      else eligible a)"

lemma disk_order_ranks: "compare disk_order a b \<noteq> Greater \<longleftrightarrow> ranks a b"
  unfolding disk_order_def ranks_def
  by (auto simp: compare_prod_lex_apply split: comp.splits)

lemma sorted_ranks: "Sorting_Algorithms.sorted disk_order ds \<Longrightarrow> sorted_wrt ranks ds"
  by (induction rule: sorted_induct) (auto simp: disk_order_ranks)

lemma concat_str_chars [simp]: "concat (str_chars s) = s"
  by (induction s rule: str_chars.induct) auto

lemma str_chars_suffix: "str_chars (concat (drop k (str_chars s))) = drop k (str_chars s)"
proof (induction s arbitrary: k rule: str_chars.induct)
  case (2 c s)
  show ?case
  proof (cases k)
    case 0
    then show ?thesis by (simp only: drop_0 concat_str_chars)
  next
    case (Suc n)
    with 2 show ?thesis by simp
  qed
qed simp

lemma str_chars_pieces: "concat (take k (str_chars s)) @ concat (drop k (str_chars s)) = s"
  by (metis append_take_drop_id concat_append concat_str_chars)

lemma last_part_suffix: "\<exists>p. s = p @ last_part s"
  unfolding last_part_def by (metis rev_append rev_rev_ident takeWhile_dropWhile_id)

lemma device_code_splits:
  fixes s
  defines "code \<equiv> drop (length (str_chars (last_part s)) - CODE_LENGTH) (str_chars (last_part s))"
  shows "s = context_shown (device_code s) @ concat code"
    "confirm_chars (device_code s) = map to_ascii_uppercase code"
proof -
  let ?name = "str_chars (last_part s)"
  have amount: "take (min (length ?name) CODE_LENGTH) (rev ?name) = rev code"
    by (simp add: code_def take_rev min_def)
  obtain p where p: "s = p @ last_part s" using last_part_suffix by blast
  have "last_part s = concat (take (length ?name - CODE_LENGTH) ?name) @ concat code"
    unfolding code_def by (rule str_chars_pieces [symmetric])
  with p obtain q where q: "s = q @ concat code" by (metis append_assoc)
  then have "length s - length (concat code) = length q" by simp
  with q have "concat code = drop (length s - length (concat code)) s"
    "s = take (length s - length (concat code)) s @ concat code"
    by (metis append_eq_conv_conj, metis append_eq_conv_conj append_take_drop_id)
  moreover have "str_chars (concat code) = code" unfolding code_def by (rule str_chars_suffix)
  moreover have "sum_list (map length (rev code)) = length (concat code)"
    by (simp add: length_concat flip: rev_map)
  ultimately show "s = context_shown (device_code s) @ concat code"
    "confirm_chars (device_code s) = map to_ascii_uppercase code"
    by (simp_all add: device_code_def Let_def amount)
qed

text \<open>
  C37: the operator is asked for a part of what the screen shows. The code is at most four characters
  long and ends the serial number, or the device's name when the serial is too short or holds other
  characters than letters and digits; what is shown before it is the rest. Only its letters are
  turned to capitals, and it is not empty unless the device has no name.
\<close>

theorem confirm_code_faithful:
  "\<exists>code. (if confirm_kind (confirm_code d) = ''SERIAL'' then serial d else node d) =
        context_shown (confirm_code d) @ concat code \<and>
     confirm_chars (confirm_code d) = map to_ascii_uppercase code \<and> length code \<le> 4 \<and>
     (if confirm_kind (confirm_code d) = ''SERIAL''
      then length code = 4 \<and> list_all (list_all is_ascii_alphanumeric) code
      else code = [] \<longleftrightarrow> last_part (node d) = [])"
proof (cases "CODE_LENGTH \<le> length (str_chars (serial d)) \<and>
    list_all (\<lambda>c. list_all is_ascii_alphanumeric c)
      (drop (length (str_chars (serial d)) - CODE_LENGTH) (str_chars (serial d)))")
  case True
  then show ?thesis
    by (intro exI [of _ "drop (length (str_chars (serial d)) - CODE_LENGTH) (str_chars (serial d))"])
      (simp add: confirm_code_def Let_def str_chars_pieces CODE_LENGTH_def)
next
  case False
  let ?name = "str_chars (last_part (node d))"
  let ?code = "drop (length ?name - CODE_LENGTH) ?name"
  have "confirm_code d = device_code (node d)" using False by (auto simp: confirm_code_def Let_def)
  moreover have "confirm_kind (device_code (node d)) = ''DEVICE''" by (simp add: device_code_def Let_def)
  moreover have "length ?code \<le> 4" by (simp add: CODE_LENGTH_def)
  moreover have "?code = [] \<longleftrightarrow> last_part (node d) = []"
    by (cases "last_part (node d)") (simp_all add: CODE_LENGTH_def)
  ultimately show ?thesis
    using device_code_splits [of "node d"] by (intro exI [of _ ?code]) simp
qed

lemma found_disks_Some:
  "d \<in> set (found_disks S boot es) \<Longrightarrow>
     \<exists>n. Some n \<in> set es \<and> d = disk_at S boot (lossy n) \<and> \<not> skipped (lossy n) \<and>
       sectors_of S (join ''/sys/block'' (lossy n)) \<noteq> 0"
  by (induction es rule: found_disks.induct) (auto split: if_splits)

lemma sectors_bytes:
  "unat (word_of_nat n * 512 :: u64) = 512 * n mod 2 ^ 64"
  by (subst (2) mult.commute) (simp add: unat_word_ariths unat_of_nat mod_mult_left_eq)

text \<open>
  C36: the offer is exactly what was found, in a fixed order: eligible disks before the others, larger
  ones before smaller ones, and by name between equals.
\<close>

theorem enumerate_ranked:
  "mset (enumerate_disks S) =
     mset (case block_names S of None \<Rightarrow> [] | Some es \<Rightarrow> found_disks S (boot_disk S) es) \<and>
   sorted_wrt ranks (enumerate_disks S)"
  by (auto simp: enumerate_disks_def sorted_ranks split: option.split)

text \<open>
  C30: an eligible disk of the offer is a block device that the kernel lists, of none of the virtual
  kinds, writable, not the one the installer was started from, and of at least five GiB by its
  sector count, as 64 bits hold it.
\<close>

theorem offered_disk_safe:
  assumes "d \<in> set (enumerate_disks S)" "eligible d"
  shows "\<exists>es n. block_names S = Some es \<and> Some n \<in> set es \<and> node d = ''/dev/'' @ lossy n \<and>
    list_all (\<lambda>p. \<not> starts_with p (lossy n)) SKIP_PREFIXES \<and> boot_disk S \<noteq> Some (lossy n) \<and>
    \<not> says_one S (join (join ''/sys/block'' (lossy n)) ''ro'') \<and>
    5 * 1024 ^ 3 \<le> 512 * sectors_of S (join ''/sys/block'' (lossy n)) mod 2 ^ 64"
proof -
  obtain es where es: "block_names S = Some es" and "d \<in> set (found_disks S (boot_disk S) es)"
    using assms(1) by (cases "block_names S") (auto simp: enumerate_disks_def)
  then obtain n where n: "Some n \<in> set es" "d = disk_at S (boot_disk S) (lossy n)" "\<not> skipped (lossy n)"
    by (auto dest: found_disks_Some)
  have "5 * 1024 ^ 3 \<le> unat (disk_bytes d)"
    using assms(2) by (simp add: eligible_def MIN_BYTES_def word_le_nat_alt)
  then have "5 * 1024 ^ 3 \<le> 512 * sectors_of S (join ''/sys/block'' (lossy n)) mod 2 ^ 64"
    unfolding n(2) disk_at_def Let_def disk.select_convs sectors_bytes .
  with es n assms(2) show ?thesis
    by (intro exI [of _ es] exI [of _ n])
      (auto simp: disk_at_def Let_def eligible_def skipped_def list_ex_iff list_all_iff)
qed

text \<open>A machine with one disk, one partition of it holding the boot loader, and one SSD.\<close>

definition sample_sysfs :: sysfs where
  "sample_sysfs =
     \<lparr>file_content = map_of [(''/sys/block/sda/size'', ''20000000''), (''/sys/block/nvme0n1/size'', ''40000000''),
        (''/sys/block/loop0/size'', ''90000000''),
        (LOADER_VAR, replicate 4 (CHR 0x07) @ concat (map (\<lambda>c. [c, CHR 0x00]) ''AB'')),
        (''/sys/block/nvme0n1/device/serial'', ''S6Z1NJ0T910481'' @ [CHR 0x0A])],
      link_target = map_of [(''/dev/disk/by-partuuid/ab'', ''../../sda1''),
        (''/sys/block/nvme0n1'', ''../devices/pci0000:00/nvme/nvme0/nvme0n1'')],
      block_names = Some [Some ''loop0'', Some ''sda'', None, Some ''nvme0n1''],
      path_present = (\<lambda>p. p = ''/sys/block/sda/sda1''), lowercase = to_ascii_lowercase\<rparr>"

lemma offered_disk_safe_witness:
  "\<exists>es n. block_names sample_sysfs = Some es \<and> Some n \<in> set es \<and> ''/dev/nvme0n1'' = ''/dev/'' @ lossy n \<and>
     list_all (\<lambda>p. \<not> starts_with p (lossy n)) SKIP_PREFIXES \<and> boot_disk sample_sysfs \<noteq> Some (lossy n) \<and>
     \<not> says_one sample_sysfs (join (join ''/sys/block'' (lossy n)) ''ro'') \<and>
     5 * 1024 ^ 3 \<le> 512 * sectors_of sample_sysfs (join ''/sys/block'' (lossy n)) mod 2 ^ 64"
proof -
  have "case enumerate_disks sample_sysfs of [] \<Rightarrow> False | d # _ \<Rightarrow> eligible d \<and> node d = ''/dev/nvme0n1''"
    by code_simp
  then obtain d ds where d: "enumerate_disks sample_sysfs = d # ds" "eligible d" "node d = ''/dev/nvme0n1''"
    by (cases "enumerate_disks sample_sysfs") auto
  with offered_disk_safe [of d sample_sysfs] show ?thesis by simp
qed

end
