(* ===== verification/Installer.thy ===== *)
theory Installer
  imports Install Disk
begin

text \<open>
  The installer's own main file, \<open>installer/src/main.rs\<close>: the payload it opens, the list it shows, the
  button that erases a disk, the timers that watch the installation and the image, and the unattended mode.
  Clocks are in nanoseconds; a look at the progress reads its fields at one moment.
\<close>

section \<open>The payload\<close>

definition DEFAULT_PAYLOAD :: path where
  "DEFAULT_PAYLOAD = ''/usr/share/carbideos/image.raw.zst''"

definition DEFAULT_META :: path where
  "DEFAULT_META = ''/usr/share/carbideos/image.meta''"

definition payload_path :: "(string \<Rightarrow> string option) \<Rightarrow> path" where
  "payload_path env = (case env ''CARBIDE_PAYLOAD'' of Some p \<Rightarrow> p | None \<Rightarrow> DEFAULT_PAYLOAD)"

definition meta_path :: "(string \<Rightarrow> string option) \<Rightarrow> path" where
  "meta_path env = (case env ''CARBIDE_META'' of Some p \<Rightarrow> p | None \<Rightarrow> DEFAULT_META)"

definition start_image ::
  "nat \<Rightarrow> (path \<Rightarrow> sys_error + string) \<Rightarrow> (string \<Rightarrow> string option) \<Rightarrow> string + (image \<times> string)" where
  "start_image mem rd env =
     (case read_meta rd (meta_path env) of
        Inl e \<Rightarrow> Err (''reading '' @ lossy (meta_path env) @ '': '' @ error_text e)
      | Inr m \<Rightarrow>
          (case start_decoding mem rd (payload_path env) m of
             Inl e \<Rightarrow> Err (''reading '' @ lossy (payload_path env) @ '': '' @ error_text e)
           | Inr r \<Rightarrow> Ok r))"

section \<open>Figures\<close>

definition format_rate :: "rat \<Rightarrow> string" where
  "format_rate r =
     (if 1000000000 \<le> r then fixed 2 (f64 (r / 1000000000)) @ '' GB/s''
      else fixed 0 (f64 (r / 1000000)) @ '' MB/s'')"

text \<open>\<open>{:04.1}\<close> fills with zeros to a width of four; the remainder of a division is exact.\<close>

definition format_elapsed :: "nat \<Rightarrow> string" where
  "format_elapsed d =
     (let secs = as_secs_f64 d in
      if secs < 60 then fixed 2 secs @ '' s''
      else show_nat (nat \<lfloor>f64 (secs / 60)\<rfloor>) @ ''m '' @
        pad_zeros 4 (fixed 1 (secs - 60 * of_int \<lfloor>secs / 60\<rfloor>)) @ ''s'')"

text \<open>A total over a duration, which is taken to be a microsecond at least.\<close>

definition average_rate :: "nat \<Rightarrow> nat \<Rightarrow> rat" where
  "average_rate amount d = f64 (f64 (of_nat amount) / max (as_secs_f64 d) (f64 (1 / 1000000)))"

text \<open>Rounding is to two digits, or one, after the choice of the form: a minute can be shown as sixty seconds.\<close>

lemma format_elapsed_examples:
  "format_elapsed 2310000000 = ''2.31 s''" "format_elapsed 65250000000 = ''1m 05.2s''"
  "format_elapsed 59996000000 = ''60.00 s''" "format_elapsed 119970000000 = ''1m 60.0s''"
  by code_simp+

lemma format_rate_examples:
  "format_rate (average_rate 1270000000 2310000000) = ''550 MB/s''"
  "format_rate (average_rate 4000000000 0) = ''4000000.00 GB/s''"
  by code_simp+

section \<open>The window\<close>

datatype screen = Attract | Target | Confirm | Installing | Summary | Failure_Screen

record row =
  code_chars :: "string list"
  code_kind :: string
  code_context :: string
  row_node :: string
  row_model :: string
  row_size :: string
  row_bus :: string
  row_kind :: string
  row_serial :: string
  row_eligible :: bool
  row_boot_media :: bool
  row_note :: string

definition to_row :: "disk \<Rightarrow> row" where
  "to_row d =
     (let code = confirm_code d
      in \<lparr>code_chars = confirm_chars code, code_kind = confirm_kind code, code_context = context_shown code,
          row_node = node d, row_model = model d, row_size = format_size (unat (disk_bytes d)),
          row_bus = bus d, row_kind = disk_kind d, row_serial = serial d, row_eligible = eligible d,
          row_boot_media = boot_media d, row_note = note_of d\<rparr>)"

record window =
  version_shown :: string
  edition_shown :: string
  presented :: bool
  disks :: "disk list"
  rows :: "row list"
  screen :: screen
  selected :: nat
  scan_status :: string
  image_status :: string
  bar :: rat
  stage_shown :: string
  detail :: string
  summary_headline :: string
  summary_message :: string
  summary_target :: string
  summary_image :: string
  summary_elapsed :: string
  summary_written :: string
  summary_average :: string
  summary_peak :: string

definition first_eligible :: "disk list \<Rightarrow> nat" where
  "first_eligible ds =
     (case find (\<lambda>i. eligible (ds ! i)) [0..<length ds] of Some i \<Rightarrow> i | None \<Rightarrow> 0)"

definition scan_text :: "nat \<Rightarrow> string" where
  "scan_text n =
     (if n = 0 then ''No eligible storage device found''
      else if n = 1 then ''1 storage device ready''
      else show_nat n @ '' storage devices ready'')"

definition refresh :: "sysfs \<Rightarrow> window \<Rightarrow> window" where
  "refresh S w =
     (let found = enumerate_disks S
      in w\<lparr>rows := map to_row found, disks := found, selected := first_eligible found,
           scan_status := scan_text (length (filter eligible found))\<rparr>)"

text \<open>The callbacks that only change the screen.\<close>

definition proceed :: "window \<Rightarrow> window" where
  "proceed w = w\<lparr>screen := Target\<rparr>"

definition choose_disk :: "window \<Rightarrow> window" where
  "choose_disk w = w\<lparr>screen := Confirm\<rparr>"

definition go_back :: "window \<Rightarrow> window" where
  "go_back w = w\<lparr>screen := Target\<rparr>"

text \<open>
  \<open>begin_install\<close> with the label of the image, if one could be opened: the window, and the disk that a
  thread was started to write. A negative index is no index after \<open>as usize\<close>.
\<close>

definition begin_install :: "string option \<Rightarrow> int \<Rightarrow> window \<Rightarrow> window \<times> disk option" where
  "begin_install ready_image index w =
     (if index < 0 \<or> length (disks w) \<le> nat index then (w, None)
      else
        let d = disks w ! nat index
        in if \<not> eligible d then (w, None)
           else if ready_image = None then (w, None)
           else (w\<lparr>summary_target := node d, bar := 0, stage_shown := stage_label Preparing, detail := [],
                   screen := Installing\<rparr>, Some d))"

text \<open>
  What the timer that watches the installation keeps between its ticks: when it started, when it last computed
  a rate and from how many bytes, and the highest rate.
\<close>

record watching =
  begun :: nat
  last_at :: nat
  last_bytes :: nat
  peak :: rat

definition start_watching :: "nat \<Rightarrow> nat \<Rightarrow> watching" where
  "start_watching started at_start = \<lparr>begun = started, last_at = at_start, last_bytes = 0, peak = 0\<rparr>"

text \<open>
  The rate since it was last computed, if a fifth of a second has gone by. \<open>instant k\<close> is the clock where a tick
  reads it for the \<open>k\<close>-th time.
\<close>

definition take_rate :: "(nat \<Rightarrow> nat) \<Rightarrow> progress \<Rightarrow> watching \<Rightarrow> rat option \<times> watching" where
  "take_rate instant p t =
     (let dt = as_secs_f64 (instant 0 - last_at t) in
      if f64 (1 / 5) \<le> dt
      then let r = f64 (f64 (of_nat (written p - last_bytes t)) / dt)
        in (Some r, t\<lparr>peak := (if peak t < r then r else peak t), last_at := instant 1, last_bytes := written p\<rparr>)
      else (None, t))"

text \<open>A tick of that timer: the window, what it keeps, and whether it stops.\<close>

definition poll_tick ::
  "(nat \<Rightarrow> nat) \<Rightarrow> disk \<Rightarrow> string \<Rightarrow> progress \<Rightarrow> watching \<Rightarrow> window \<Rightarrow> window \<times> watching \<times> bool" where
  "poll_tick instant d image_label p t w =
     (let w1 = w\<lparr>bar := progress_fraction p, stage_shown := stage_label (progress_stage p)\<rparr>
      in case take_rate instant p t of (measured, t') \<Rightarrow>
        let w2 = (case measured of
              Some r \<Rightarrow> if progress_stage p = Writing then w1\<lparr>detail := format_rate r\<rparr> else w1
            | None \<Rightarrow> w1)
        in if \<not> finished p then (w2, t', False)
           else
             let took = instant 2 - begun t
             in case problem p of
                 Some m \<Rightarrow>
                   (w2\<lparr>summary_headline := ''Installation failed'', summary_message := m, screen := Failure_Screen\<rparr>,
                    t', True)
               | None \<Rightarrow>
                   (w2\<lparr>bar := 1, summary_headline := ''Installation complete'', summary_elapsed := format_elapsed took,
                       summary_written := format_bytes_exact (goal p),
                       summary_average := format_rate (average_rate (goal p) took),
                       summary_peak := format_rate (peak t'), summary_target := node d @ ''  '' @ model d,
                       summary_image := image_label, screen := Summary\<rparr>, t', True))"

text \<open>A tick of the timer that watches the image.\<close>

definition ready_tick :: "image \<Rightarrow> window \<Rightarrow> window \<times> bool" where
  "ready_tick im w =
     (w\<lparr>image_status :=
        (case failed im of
           Some m \<Rightarrow> ''IMAGE FAILED  '' @ m
         | None \<Rightarrow>
             if image_complete im then ''IMAGE READY''
             else ''PREPARING IMAGE  '' @ fixed 0 (f32 (image_fraction im * 100)) @ ''%'')\<rparr>,
      failed im \<noteq> None \<or> image_complete im)"

definition no_image :: "string \<Rightarrow> window \<Rightarrow> window" where
  "no_image m w = w\<lparr>summary_headline := ''No installable image'', summary_message := m, screen := Failure_Screen\<rparr>"

text \<open>
  What \<open>main\<close> does to the window before the event loop runs, \<open>started\<close> being the outcome of \<open>start_image\<close>,
  and the message that reports the first frame.
\<close>

definition open_window ::
  "(string \<Rightarrow> string option) \<Rightarrow> sysfs \<Rightarrow> string + 'i \<Rightarrow> window \<Rightarrow> window" where
  "open_window env S started w =
     (let shown = (\<lambda>x. case env x of Some v \<Rightarrow> v | None \<Rightarrow> []);
          w1 = refresh S (w\<lparr>version_shown := shown ''CARBIDE_VERSION'', edition_shown := shown ''CARBIDE_EDITION''\<rparr>)
      in case started of Inl m \<Rightarrow> no_image m w1 | Inr _ \<Rightarrow> w1)"

definition present :: "window \<Rightarrow> window" where
  "present w = w\<lparr>presented := True\<rparr>"

text \<open>
  Opening the display, which is tried again for five seconds: \<open>opens\<close> is what an attempt at a moment gives and
  how many nanoseconds it takes. The result, and the lines printed.
\<close>

function create_window_from ::
  "(nat \<Rightarrow> (string + 'w) \<times> nat) \<Rightarrow> nat \<Rightarrow> bool \<Rightarrow> nat \<Rightarrow> (string + 'w) \<times> string list" where
  "create_window_from opens deadline logged moment =
     (case opens moment of
        (Inr ui, _) \<Rightarrow> (Ok ui, [])
      | (Inl e, taken) \<Rightarrow>
          if moment + taken < deadline
          then (case create_window_from opens deadline True (moment + taken + 100000000) of
              (r, ls) \<Rightarrow>
                (r, (if logged then [] else [''carbide-installer: display not ready, retrying: '' @ e]) @ ls))
          else (Err e, []))"
  by pat_completeness auto
termination by (relation "measure (\<lambda>(opens, deadline, logged, moment). deadline - moment)") auto

definition create_window :: "(nat \<Rightarrow> (string + 'w) \<times> nat) \<Rightarrow> nat \<Rightarrow> (string + 'w) \<times> string list" where
  "create_window opens started_at = create_window_from opens (started_at + 5000000000) False started_at"

declare create_window_from.simps [simp del]

lemma create_window_patient:
  "create_window_from opens deadline logged moment = (Err e, ls) \<Longrightarrow>
     (\<exists>m. fst (opens m) = Inl e \<and> deadline \<le> m + snd (opens m)) \<and> length ls \<le> (if logged then 0 else 1)"
proof (induction opens deadline logged moment arbitrary: ls rule: create_window_from.induct)
  case (1 opens deadline logged moment)
  obtain r taken where o: "opens moment = (r, taken)" by fastforce
  show ?case
  proof (cases r)
    case (Inl e')
    show ?thesis
    proof (cases "moment + taken < deadline")
      case True
      obtain r' ls' where later: "create_window_from opens deadline True (moment + taken + 100000000) = (r', ls')"
        by fastforce
      with 1(2) True have "r' = Err e" "length ls \<le> (if logged then 0 else 1) + length ls'"
        by (subst (asm) create_window_from.simps, auto simp: o Inl split: if_splits)+
      with 1(1) [OF o [symmetric] Inl] True later show ?thesis by fastforce
    next
      case False
      with 1(2) have "e' = e" "ls = []" by (subst (asm) create_window_from.simps, simp add: o Inl)+
      with False o Inl show ?thesis by (intro conjI exI [of _ moment]) auto
    qed
  next
    case (Inr ui)
    with 1(2) show ?thesis by (subst (asm) create_window_from.simps) (simp add: o)
  qed
qed

section \<open>The command line\<close>

datatype invocation = WriteTo string | UsageError | Interactive

fun write_argument :: "string list \<Rightarrow> invocation" where
  "write_argument [] = Interactive"
| "write_argument (a # rest) =
     (if a = ''--write'' then (case rest of t # _ \<Rightarrow> WriteTo t | [] \<Rightarrow> UsageError) else write_argument rest)"

text \<open>
  The loop of \<open>write_headless\<close> over what it finds in the progress at each look: the lines it prints and,
  once it is finished, its exit status. \<open>report\<close> is
  the line of figures at the end.
\<close>

datatype exit_status = Success | Failed_Status

fun watch ::
  "(progress \<Rightarrow> string) \<Rightarrow> install_stage option \<Rightarrow> progress list \<Rightarrow> string list \<times> exit_status option" where
  "watch report before [] = ([], None)"
| "watch report before (p # rest) =
     (if finished p
      then (case problem p of
          Some m \<Rightarrow> ([''carbide-installer: '' @ m], Some Failed_Status)
        | None \<Rightarrow> ([report p], Some Success))
      else
        (case watch report (Some (progress_stage p)) rest of (ls, st) \<Rightarrow>
           ((if before \<noteq> Some (progress_stage p) then [stage_label (progress_stage p)] else []) @ ls, st)))"

definition report_line :: "string \<Rightarrow> nat \<Rightarrow> progress \<Rightarrow> string" where
  "report_line device_name took p =
     ''wrote '' @ format_bytes_exact (goal p) @ '' to '' @ device_name @ '' in '' @ format_elapsed took @
     '' ('' @ format_rate (average_rate (goal p) took) @ '')''"

definition write_headless ::
  "string \<Rightarrow> nat \<Rightarrow> string + 'i \<Rightarrow> progress list \<Rightarrow> string list \<times> exit_status option" where
  "write_headless device_name took started looks =
     (case started of
        Inl m \<Rightarrow> ([''carbide-installer: '' @ m], Some Failed_Status)
      | Inr _ \<Rightarrow> watch (report_line device_name took) None looks)"

definition exit_number :: "exit_status \<Rightarrow> nat" where
  "exit_number st = (if st = Success then 0 else 1)"

text \<open>
  \<open>main\<close>, given what a write to a device comes to, what \<open>start_image\<close> returns and what opening the display
  gives: the lines printed, and the exit status, the window to run or the error of the display. A write that
  never finishes gives no exit status.
\<close>

datatype launched = Exits nat | Never_Exits | Runs window | No_Display string

definition installer_main ::
  "string list \<Rightarrow> (string \<Rightarrow> string list \<times> exit_status option) \<Rightarrow> (string \<Rightarrow> string option) \<Rightarrow> sysfs \<Rightarrow> string + 'i \<Rightarrow>
     (nat \<Rightarrow> (string + window) \<times> nat) \<Rightarrow> nat \<Rightarrow> string list \<times> launched" where
  "installer_main argv write env S started opens at_start =
     (case write_argument argv of
        WriteTo device_name \<Rightarrow>
          (case write device_name of
             (ls, Some st) \<Rightarrow> (ls, Exits (exit_number st))
           | (ls, None) \<Rightarrow> (ls, Never_Exits))
      | UsageError \<Rightarrow> ([''Usage: carbide-installer --write <device>''], Exits 2)
      | Interactive \<Rightarrow>
          (case create_window opens at_start of
             (Inl e, ls) \<Rightarrow> (ls, No_Display e)
           | (Inr w, ls) \<Rightarrow> (ls, Runs (open_window env S started w))))"

section \<open>Erasing a disk\<close>

text \<open>What can happen to the window before a disk is erased.\<close>

inductive window_step :: "window \<Rightarrow> window \<Rightarrow> bool" where
  rescan: "window_step w (refresh S w)"
| proceeds: "window_step w (proceed w)"
| chooses: "window_step w (choose_disk w)"
| goes_back: "window_step w (go_back w)"
| selects: "window_step w (w\<lparr>selected := i\<rparr>)"
| polls: "window_step w (fst (poll_tick instant d l p t w))"
| readies: "window_step w (fst (ready_tick im w))"
| begins: "window_step w (fst (begin_install ready_image i w))"
| gives_up: "window_step w (no_image m w)"
| opens: "window_step w (open_window env S (started :: string + unit) w)"
| presents: "window_step w (present w)"

definition in_step :: "window \<Rightarrow> bool" where
  "in_step w \<longleftrightarrow>
     rows w = map to_row (disks w) \<and> (disks w = [] \<or> (\<exists>S. disks w = enumerate_disks S))"

lemma window_step_in_step: "window_step w w' \<Longrightarrow> in_step w \<Longrightarrow> in_step w'"
  by (induction rule: window_step.induct)
    (auto simp: in_step_def refresh_def proceed_def choose_disk_def go_back_def poll_tick_def ready_tick_def
      begin_install_def no_image_def open_window_def present_def Let_def split: option.splits sum.splits prod.splits if_splits)

lemma windows_in_step: "window_step\<^sup>*\<^sup>* w w' \<Longrightarrow> in_step w \<Longrightarrow> in_step w'"
  by (induction rule: rtranclp_induct) (auto intro: window_step_in_step)

text \<open>
  C13: a write is started for one disk only: the one whose row the index names at that moment. Whatever
  happened to the window before, that row shows this disk's node, its confirmation code and that it can be
  chosen, the disk is eligible in what sysfs last said, and an image could be opened.
\<close>

theorem erases_what_is_shown:
  assumes "window_step\<^sup>*\<^sup>* w w'" "rows w = []" "disks w = []"
    and "begin_install ready_image i w' = (w'', Some d)"
  shows "0 \<le> i \<and> nat i < length (rows w') \<and> row_node (rows w' ! nat i) = node d \<and>
    code_chars (rows w' ! nat i) = confirm_chars (confirm_code d) \<and> row_eligible (rows w' ! nat i) \<and>
    eligible d \<and> ready_image \<noteq> None \<and> (\<exists>S. d \<in> set (enumerate_disks S))"
proof -
  have "in_step w'"
    by (rule windows_in_step [OF assms(1)]) (simp add: in_step_def assms(2,3))
  moreover have "0 \<le> i" "nat i < length (disks w')" "d = disks w' ! nat i" "eligible d" "ready_image \<noteq> None"
    using assms(4) by (auto simp: begin_install_def Let_def split: if_splits)
  moreover from this have "d \<in> set (disks w')" by simp
  ultimately show ?thesis unfolding in_step_def
    by (auto simp: to_row_def Let_def simp del: nth_mem)
qed

definition blank_window :: window where
  "blank_window =
     \<lparr>version_shown = [], edition_shown = [], presented = False, disks = [], rows = [], screen = Attract, selected = 0, scan_status = [], image_status = [], bar = 0,
      stage_shown = [], detail = [], summary_headline = [], summary_message = [], summary_target = [],
      summary_image = [], summary_elapsed = [], summary_written = [], summary_average = [], summary_peak = []\<rparr>"

lemma erases_what_is_shown_witness:
  "row_node (rows (refresh sample_sysfs blank_window) ! 0) = ''/dev/nvme0n1'' \<and>
   row_eligible (rows (refresh sample_sysfs blank_window) ! 0)"
proof -
  let ?w = "refresh sample_sysfs blank_window"
  have "case begin_install (Some ''carbideos 7'') 0 ?w of (w, erased) \<Rightarrow>
      case erased of None \<Rightarrow> False | Some d \<Rightarrow> node d = ''/dev/nvme0n1''"
    by code_simp
  then obtain w d where run: "begin_install (Some ''carbideos 7'') 0 ?w = (w, Some d)" "node d = ''/dev/nvme0n1''"
    by (auto split: prod.splits option.splits)
  have "window_step\<^sup>*\<^sup>* blank_window ?w" by (rule r_into_rtranclp, rule rescan)
  from erases_what_is_shown [OF this _ _ run(1)] run(2) show ?thesis by (simp add: blank_window_def)
qed

text \<open>
  After a scan the cursor is on the first row, and this is the largest disk that can be chosen,
  whenever there is one.
\<close>

theorem refresh_selects_largest:
  assumes "d \<in> set (disks (refresh S w))" "eligible d"
  shows "selected (refresh S w) = 0 \<and> eligible (disks (refresh S w) ! 0) \<and>
    disk_bytes d \<le> disk_bytes (disks (refresh S w) ! 0)"
proof -
  let ?ds = "enumerate_disks S"
  have sorted: "sorted_wrt ranks ?ds"
    by (cases "block_names S") (auto simp: enumerate_disks_def sorted_ranks)
  obtain x xs where ds: "?ds = x # xs" using assms(1) by (cases ?ds) (auto simp: refresh_def Let_def)
  with assms(1) sorted have "d = x \<or> ranks x d" by (auto simp: refresh_def Let_def)
  with assms(2) have x: "eligible x" "disk_bytes d \<le> disk_bytes x"
    by (auto simp: ranks_def split: if_splits)
  then have "first_eligible ?ds = 0"
    by (simp add: first_eligible_def ds upt_conv_Cons del: upt_Suc)
  with x ds show ?thesis by (simp add: refresh_def Let_def)
qed

lemma watch_Success:
  "watch report before ps = (ls, Some Success) \<Longrightarrow> \<exists>p \<in> set ps. finished p \<and> problem p = None"
  by (induction ps arbitrary: before ls) (auto split: if_splits option.splits prod.splits)

lemma poll_tick_summary:
  "screen (fst (poll_tick instant dk l p t w)) = Summary \<Longrightarrow> screen w \<noteq> Summary \<Longrightarrow> finished p \<and> problem p = None"
  by (auto simp: poll_tick_def Let_def split: prod.splits option.splits if_splits)

text \<open>
  C35: success is reported only if the image is installed. The unattended installer looks at the progress at any
  moments of an installation that it likes; when it exits with success, one of the states it looked at has the
  whole image on the medium, without power too. So has the state that a tick of the window's timer looked at when
  it brings up the summary.
\<close>

theorem reported_success_means_installed:
  assumes "zstd_sound (codec I)" "parallelism I \<noteq> Some 0"
    and "ready im = 0" "failed im = None" "0 < img_len im" "img_len im \<le> length (buf im)"
    and "honest_device d" "\<forall>s \<in> set ss. reaches I (fresh_session im Raising d) s"
  shows "(\<forall>ls. write_headless device_name took started (map progress ss) = (ls, Some Success) \<longrightarrow>
      (\<exists>s \<in> set ss. installed s)) \<and>
    (\<forall>s \<in> set ss. \<forall>instant dk l t w. screen w \<noteq> Summary \<and>
       screen (fst (poll_tick instant dk l (progress s) t w)) = Summary \<longrightarrow> installed s)"
proof -
  have on_medium: "installed s" if "s \<in> set ss" "finished (progress s)" "problem (progress s) = None" for s
    using sound_finished [OF reaches_sound [OF _ fresh_session_sound [OF assms(3-7)] assms(1,2)] that(2)] assms(8) that
    by blast
  have "\<exists>s \<in> set ss. installed s"
    if "write_headless device_name took started (map progress ss) = (ls, Some Success)" for ls
    using that on_medium by (fastforce simp: write_headless_def dest!: watch_Success split: sum.splits)
  with on_medium poll_tick_summary show ?thesis by blast
qed

lemma refresh_selects_largest_witness:
  "selected (refresh sample_sysfs blank_window) = 0 \<and>
   eligible (disks (refresh sample_sysfs blank_window) ! 0)"
proof -
  let ?w = "refresh sample_sysfs blank_window"
  have "case disks ?w of [] \<Rightarrow> False | d # _ \<Rightarrow> eligible d" by code_simp
  then obtain d ds where "disks ?w = d # ds" "eligible d" by (cases "disks ?w") auto
  with refresh_selects_largest [of d sample_sysfs blank_window] show ?thesis by simp
qed

lemma reported_success_means_installed_witness:
  "case fold (take_turn small_installation) small_schedule (fresh_session small_image Raising (small_device [])) of
     s \<Rightarrow> installed s"
proof -
  let ?s = "fold (take_turn small_installation) small_schedule (fresh_session small_image Raising (small_device []))"
  have shown: "screen (fst (poll_tick (\<lambda>_. 0) (disk_at sample_sysfs None ''sda'') ''x'' (progress ?s) (start_watching 0 0)
      blank_window)) = Summary"
    by code_simp
  have "honest_device (small_device [])" by (simp add: honest_device_def small_device_def)
  moreover have "zstd_sound (codec small_installation)" "parallelism small_installation \<noteq> Some 0"
    by (simp_all add: small_installation_def stored_zstd_sound)
  moreover have "ready small_image = 0" "failed small_image = None" "0 < img_len small_image"
    "img_len small_image \<le> length (buf small_image)"
    by (simp_all add: small_image_def)
  moreover have "\<forall>s \<in> set [?s]. reaches small_installation (fresh_session small_image Raising (small_device [])) s"
    by (simp add: reaches_turns)
  ultimately have "\<forall>s \<in> set [?s]. \<forall>instant dk l t w. screen w \<noteq> Summary \<and>
      screen (fst (poll_tick instant dk l (progress s) t w)) = Summary \<longrightarrow> installed s"
    using reported_success_means_installed [of small_installation small_image "small_device []" "[?s]"] by blast
  moreover have "screen blank_window \<noteq> Summary" by (simp add: blank_window_def)
  ultimately have "installed ?s" using shown by (meson list.set_intros(1))
  then show ?thesis by simp
qed

end
