(* ===== verification/Progress_Bar.thy ===== *)
theory Progress_Bar
  imports Install
begin

text \<open>
  What the window shows of an installation under way, \<open>Progress::fraction\<close> of \<open>installer/src/install.rs\<close> and
  \<open>Image::fraction\<close> of \<open>installer/src/image.rs\<close>: true, and never going back.
\<close>

section \<open>The progress bar\<close>

text \<open>The total is stored once, before anything is counted, and does not change.\<close>

definition metered :: "'z session \<Rightarrow> bool" where
  "metered s \<longleftrightarrow>
     goal (progress s) = (if runner s \<in> {SetPreparing, SetGoal} then 0 else img_len (carried s))"

lemma main_turn_meters:
  "metered s \<Longrightarrow> metered (main_turn I s)"
  "written (progress (main_turn I s)) = written (progress s)"
  "metered s \<Longrightarrow> goal (progress s) = 0 \<or> goal (progress (main_turn I s)) = goal (progress s)"
  by (cases "runner s"; auto simp: main_turn_def metered_def image_total_def
      split: prod.splits sum.splits option.splits if_splits)+

lemma worker_turn_written: "worker_turn wk s = (wk', s') \<Longrightarrow> written (progress s) \<le> written (progress s')"
  by (auto simp: worker_turn_def Let_def split: worker.splits if_splits prod.splits round.splits)

lemma decode_turn_img_len: "decode_turn Z source dec im = (dec', im') \<Longrightarrow> img_len im' = img_len im"
  by (auto simp: decode_turn_def publish_def Let_def
      split: decoder.splits option.splits sum.splits prod.splits if_splits)

lemma fraction_advances:
  "goal p = 0 \<or> goal p' = goal p \<and> written p \<le> written p' \<Longrightarrow> progress_fraction p \<le> progress_fraction p'"
  by (auto simp: progress_fraction_def share_mono share_range)

lemma install_step_advances:
  assumes "install_step I s s'" "metered s"
  shows "metered s' \<and> progress_fraction (progress s) \<le> progress_fraction (progress s')"
  using assms(1)
proof cases
  case main_step
  have "goal (progress s) = 0 \<or> goal (progress s') = goal (progress s) \<and> written (progress s) \<le> written (progress s')"
    using main_turn_meters(2) [of I s] main_turn_meters(3) [of s I] assms(2) main_step by auto
  with main_turn_meters(1) [OF assms(2), of I] main_step show ?thesis by (auto intro: fraction_advances)
next
  case (worker_step k wk s1)
  with worker_turn_rest [OF worker_step(3)] worker_turn_written [OF worker_step(3)] assms(2) show ?thesis
    by (auto simp: metered_def intro: fraction_advances)
next
  case (decoder_step dec im)
  with assms(2) decode_turn_img_len [OF decoder_step(2)] show ?thesis by (simp add: metered_def)
qed

lemma reaches_advances:
  assumes "reaches I s s'" "metered s"
  shows "metered s' \<and> progress_fraction (progress s) \<le> progress_fraction (progress s')"
  using assms(1) unfolding reaches_def
proof (induction rule: rtranclp_induct)
  case base
  with assms(2) show ?case by simp
next
  case (step a b)
  with install_step_advances [OF step(2)] show ?case by fastforce
qed

lemma install_step_extends:
  assumes "install_step I s s'" "sound I s" "zstd_sound (codec I)"
  shows "extends (carried s) (carried s')"
  using assms(1)
proof cases
  case main_step
  then show ?thesis
    by (cases "runner s"; auto simp: main_turn_def split: prod.splits sum.splits option.splits)
next
  case (worker_step k wk s1)
  then show ?thesis by (simp add: worker_turn_rest [OF worker_step(3)])
next
  case (decoder_step dec im)
  with decode_turn_decoding [OF assms(3) _ decoder_step(2)] assms(2) show ?thesis by (simp add: sound_def)
qed

lemma reaches_extends:
  assumes "reaches I s s'" "sound I s" "zstd_sound (codec I)" "parallelism I \<noteq> Some 0"
  shows "extends (carried s) (carried s')"
  using assms(1) unfolding reaches_def
proof (induction rule: rtranclp_induct)
  case (step a b)
  have "sound I a" using reaches_sound [OF _ assms(2-4)] step(1) by (simp add: reaches_def)
  from install_step_extends [OF step(2) this assms(3)] step(3) show ?case by (rule extends_trans [rotated])
qed simp

text \<open>
  C34: what the window shows of the progress is true and never goes back. Whatever turns the threads take, the
  bar and the share of the image that is ready do not shrink and do not exceed one; the bar is the share of the
  image that is written, up to \<open>1 / 2 ^ 23\<close>, although it is computed in floating point; and when the
  installation has ended without an error the bar is full.
\<close>

theorem progress_bar_advances:
  assumes "zstd_sound (codec I)" "parallelism I \<noteq> Some 0"
    and "ready im = 0" "failed im = None" "0 < img_len im" "img_len im \<le> length (buf im)"
    and "honest_device d" "reaches I (fresh_session im Raising d) s" "reaches I s s'"
  shows "progress_fraction (progress s) \<le> progress_fraction (progress s') \<and> progress_fraction (progress s') \<le> 1 \<and>
    image_fraction (carried s) \<le> image_fraction (carried s') \<and> image_fraction (carried s') \<le> 1 \<and>
    \<bar>progress_fraction (progress s') - of_nat (written (progress s')) / of_nat (image_total (carried s'))\<bar> \<le> 1 / 2 ^ 23 \<and>
    (finished (progress s') \<and> problem (progress s') = None \<longrightarrow> progress_fraction (progress s') = 1)"
proof -
  have s: "sound I s" by (rule reaches_sound [OF assms(8) fresh_session_sound [OF assms(3-7)] assms(1,2)])
  have s': "sound I s'" by (rule reaches_sound [OF assms(9) s assms(1,2)])
  have "metered (fresh_session im Raising d)"
    by (simp add: metered_def fresh_session_def new_progress_def)
  then have "metered s" using reaches_advances [OF assms(8)] by blast
  note bar = reaches_advances [OF assms(9) this]
  have pos: "0 < img_len (carried s')" using s' by (simp add: sound_def)
  have w: "written (progress s') \<le> img_len (carried s')"
    using s' at_work_written [of s']
    by (cases "runner s'") (auto simp: sound_def settled_as_def on_device_def split: if_splits)
  have "written (progress s') = 0 \<and> goal (progress s') = 0 \<or> goal (progress s') = img_len (carried s')"
    using bar s' by (auto simp: metered_def sound_def)
  moreover from this have "\<bar>progress_fraction (progress s') - of_nat (written (progress s')) / of_nat (img_len (carried s'))\<bar> \<le> 1 / 2 ^ 23"
    using pos share_close [OF pos w] by (auto simp: progress_fraction_def)
  moreover have "progress_fraction (progress s') \<le> 1" by (simp add: progress_fraction_def share_range)
  moreover have "image_fraction (carried s) \<le> image_fraction (carried s')" "image_fraction (carried s') \<le> 1"
    using reaches_extends [OF assms(9) s assms(1,2)] by (auto simp: image_fraction_def extends_def share_mono share_range)
  moreover have "progress_fraction (progress s') = 1" if "finished (progress s')" "problem (progress s') = None"
    using sound_finished [OF s' that(1)] that(2) calculation(1) pos share_full [OF pos]
    by (auto simp: installed_def image_total_def progress_fraction_def)
  ultimately show ?thesis using bar by (simp add: image_total_def)
qed

lemma progress_bar_advances_witness:
  "case fold (take_turn small_installation) small_schedule (fresh_session small_image Raising (small_device [Moves 1])) of
     s \<Rightarrow> progress_fraction (progress s) = 1 \<and> image_fraction (carried s) \<le> 1"
proof -
  let ?d = "small_device [Moves 1]"
  let ?s = "fold (take_turn small_installation) small_schedule (fresh_session small_image Raising ?d)"
  have "case ?s of s \<Rightarrow> finished (progress s) \<and> problem (progress s) = None" by code_simp
  moreover have "honest_device ?d" by (simp add: honest_device_def small_device_def)
  moreover have "zstd_sound (codec small_installation)" "parallelism small_installation \<noteq> Some 0"
    by (simp_all add: small_installation_def stored_zstd_sound)
  moreover have "ready small_image = 0" "failed small_image = None" "0 < img_len small_image"
    "img_len small_image \<le> length (buf small_image)"
    by (simp_all add: small_image_def)
  moreover have "reaches small_installation ?s ?s" by (simp add: reaches_def)
  ultimately show ?thesis
    using progress_bar_advances [OF _ _ _ _ _ _ _ reaches_turns, of small_installation small_image ?d small_schedule ?s]
    by simp
qed

end
