(* ===== verification/Exclusion.thy ===== *)
theory Exclusion
  imports Bookkeeping
begin

text \<open>
  The operation lock: every operation keeps it as it is, \<open>exclusive\<close> and \<open>locked\<close> take it for one operation
  and give it back, and while it is held by another nothing happens.
\<close>

section \<open>The operation lock\<close>

definition lock_is :: "bool \<Rightarrow> 'e world \<Rightarrow> bool" where
  "lock_is b w \<longleftrightarrow> lock_taken w = b"

lemma lock_is_updates [simp]:
  "lock_is b (w\<lparr>faults := f\<rparr>) = lock_is b w" "lock_is b (w\<lparr>dirs := d\<rparr>) = lock_is b w"
  "lock_is b (w\<lparr>older := l\<rparr>) = lock_is b w" "lock_is b (set_inode i x w) = lock_is b w"
  "lock_is b (set_names al w) = lock_is b w" "lock_is b (new_file p w) = lock_is b w"
  "lock_is b (append_bytes i y w) = lock_is b w"
  by (simp_all add: lock_is_def set_inode_def set_names_def new_file_def append_bytes_def)

lemma steady_lock: "steady (lock_is b)"
  by (simp add: steady_def)

lemma lock_prims:
  "keeps (lock_is b) (fs_create_new p)" "keeps (lock_is b) (fs_create p)" "keeps (lock_is b) (fs_write_all i y)"
  "keeps (lock_is b) (fs_copy i j n)" "keeps (lock_is b) (fs_set_permissions i m)"
  "keeps (lock_is b) (fs_set_path_permissions p m)" "keeps (lock_is b) (fs_sync_file i)"
  "keeps (lock_is b) (fs_sync_dir d)" "keeps (lock_is b) (fs_rename s t)" "keeps (lock_is b) (fs_remove_file p)"
  "keeps (lock_is b) (fs_create_dir_all d)" "keeps (lock_is b) (fs_open_or_create p)"
  unfolding fs_create_new_def fs_create_def fs_write_all_def fs_copy_def fs_set_permissions_def
    fs_set_path_permissions_def fs_sync_file_def fs_sync_dir_def fs_rename_def fs_remove_file_def
    fs_create_dir_all_def fs_open_or_create_def Let_def
  by (rule keeps_prim; simp split: option.split)+

lemmas lock_intros = lock_prims keeps_fs_reading [OF steady_lock] keeps_intros

lemma lock_durable:
  "keeps (lock_is b) (durable_remove q)" "keeps (lock_is b) (durable_copy_file i q m)"
  "keeps (lock_is b) (durable_copy src q)" "keeps (lock_is b) (durable_mode q k)"
  unfolding durable_remove_def durable_copy_def durable_copy_file_def durable_mode_def sync_parent_def publish_copy_def
  by (intro lock_intros)+

lemma lock_store: "keeps (lock_is b) (store P s)"
  unfolding store_def Let_def by (intro lock_intros)

lemma lock_prune:
  "keeps (lock_is b) (prune_matching_in d x y k)" "keeps (lock_is b) candidate_files"
  "keeps (lock_is b) prune_transaction_files"
proof -
  have sync: "keeps (lock_is b) (sync_if d c)" for d c
    unfolding sync_if_def by (intro lock_intros)
  have "keeps (lock_is b) (prune_entries x y k c es)" for c es
    by (induction es arbitrary: c) (auto simp: Let_def intro!: lock_intros)
  then show "keeps (lock_is b) (prune_matching_in d x y k)"
    unfolding prune_matching_in_def by (intro lock_intros sync)
  have "keeps (lock_is b) (each_entry es)" for es
    by (induction es) (auto intro!: lock_intros)
  then show "keeps (lock_is b) candidate_files"
    unfolding candidate_files_def Let_def by (intro lock_intros)
  have "keeps (lock_is b) (transaction_entries d s c es)" for d s c es
    by (induction es arbitrary: c) (auto simp: Let_def intro!: lock_intros)
  then have "keeps (lock_is b) (prune_directories s ds)" for s ds
    by (induction ds) (auto intro!: lock_intros sync)
  then show "keeps (lock_is b) prune_transaction_files"
    unfolding prune_transaction_files_def prune_transaction_files_in_def .
qed

interpretation lock_held: bookkeeping P "\<lambda>w. obeys P (lock_is b) \<longrightarrow> lock_is b w" "\<lambda>_. True"
  for P :: "('e, 'v) platform" and b
proof
  show "obeys P (\<lambda>w. obeys P (lock_is b) \<longrightarrow> lock_is b w)" by (intro obeys_implies)
  show "steady (\<lambda>w. obeys P (lock_is b) \<longrightarrow> lock_is b w)" by (intro steady_implies steady_lock)
  have "keeps (lock_is b) (load_state P)" by (intro keeps_intros steady_lock)
  then show "yields (\<lambda>w. obeys P (lock_is b) \<longrightarrow> lock_is b w) (\<lambda>r. case r of Inl _ \<Rightarrow> True | Inr _ \<Rightarrow> True) (load_state P)"
    by (intro yields_mono [OF yields_any] keeps_implies) (auto split: sum.split)
  show "keeps (\<lambda>w. obeys P (lock_is b) \<longrightarrow> lock_is b w) (store P s)" for s
    by (intro keeps_implies lock_store)
  show "keeps (\<lambda>w. obeys P (lock_is b) \<longrightarrow> lock_is b w) (prune_candidates n k)"
    "keeps (\<lambda>w. obeys P (lock_is b) \<longrightarrow> lock_is b w) (prune_rollbacks n k)" for n k
    unfolding prune_candidates_def prune_rollbacks_def by (intro keeps_implies lock_intros lock_prune)+
  show "keeps (\<lambda>w. obeys P (lock_is b) \<longrightarrow> lock_is b w) (clear_staged n)" for n
    unfolding clear_staged_def by (intro keeps_implies lock_prune)
qed (intro TrueI keeps_implies lock_durable lock_prune lock_prims)+


lemma lock_reconcile: "obeys P (lock_is b) \<Longrightarrow> keeps (lock_is b) (reconcile_state P)"
  using lock_held.keeps_reconcile_state [of P b] by (simp add: keeps_def)

text \<open>Taking the lock: it was free and is held now, or nothing changed about it.\<close>

lemma lock_cases:
  "fs_lock i w = (q, w') \<Longrightarrow> (if q = Done (Ok ()) then \<not> lock_taken w \<and> lock_taken w' else lock_taken w' = lock_taken w)"
  "fs_try_lock i w = (q', w') \<Longrightarrow>
     (if q' = Done (Ok ()) then \<not> lock_taken w \<and> lock_taken w' else lock_taken w' = lock_taken w)"
  by (auto simp: fs_lock_def fs_try_lock_def prim_def bind_def ret_def split: list.splits fault.splits if_splits)

lemma open_at_lock: "open_at d w = (q, w') \<Longrightarrow> lock_taken w' = lock_taken w"
  using keepsD [of "lock_is (lock_taken w)" "open_at d" w q w']
  unfolding open_at_def by (auto simp: lock_is_def intro!: lock_intros)

lemma acquire_cases:
  assumes "acquire w = (q, w')"
  shows "if \<exists>l. q = Done (Ok l) then \<not> lock_taken w \<and> lock_taken w' else lock_taken w' = lock_taken w"
proof -
  obtain r w1 where r: "open_at STATE_DIR w = (r, w1)" by fastforce
  show ?thesis
  proof (cases "\<exists>i. r = Done (Ok i)")
    case True
    then obtain i where i: "r = Done (Ok i)" by blast
    obtain z w2 where z: "fs_lock i w1 = (z, w2)" by fastforce
    from lock_cases(1) [OF z] open_at_lock [OF r] assms show ?thesis
      by (auto simp: acquire_def and_then_def bind_def ret_def own_def r i z split: outcome.splits sum.splits if_splits)
  next
    case False
    with open_at_lock [OF r] assms show ?thesis
      by (auto simp: acquire_def and_then_def bind_def ret_def r split: outcome.splits sum.splits)
  qed
qed

lemma try_acquire_cases:
  assumes "try_acquire w = (q, w')"
  shows "if \<exists>l. q = Done (Ok (Some l)) then \<not> lock_taken w \<and> lock_taken w' else lock_taken w' = lock_taken w"
proof -
  obtain r w1 where r: "open_at STATE_DIR w = (r, w1)" by fastforce
  show ?thesis
  proof (cases "\<exists>i. r = Done (Ok i)")
    case True
    then obtain i where i: "r = Done (Ok i)" by blast
    obtain z w2 where z: "fs_try_lock i w1 = (z, w2)" by fastforce
    from lock_cases(2) [OF z] open_at_lock [OF r] assms show ?thesis
      by (auto simp: try_acquire_def try_acquire_at_def and_then_def bind_def ret_def own_def r i z
          split: outcome.splits sum.splits if_splits try_lock_error.splits)
  next
    case False
    with open_at_lock [OF r] assms show ?thesis
      by (auto simp: try_acquire_def try_acquire_at_def and_then_def bind_def ret_def r split: outcome.splits sum.splits)
  qed
qed

lemma exclusive_released:
  assumes "exclusive P op w = (Done r, w')"
  shows "lock_taken w' = lock_taken w"
proof -
  obtain q w1 where q: "try_acquire w = (q, w1)" by fastforce
  note c = try_acquire_cases [OF q]
  show ?thesis
  proof (cases "\<exists>l. q = Done (Ok (Some l))")
    case True
    then obtain l where l: "q = Done (Ok (Some l))" by blast
    have "\<not> lock_taken w" using c True by simp
    moreover have "\<not> lock_taken w'"
      using assms by (auto simp: exclusive_def bind_Done_iff q l drop_lock_def ret_def)
    ultimately show ?thesis by simp
  next
    case False
    with c assms show ?thesis
      by (auto simp: exclusive_def bind_def q ret_def split: outcome.splits sum.splits option.splits)
  qed
qed

lemma locked_released:
  assumes "locked P op w = (Done r, w')"
  shows "lock_taken w' = lock_taken w"
proof -
  obtain q w1 where q: "acquire w = (q, w1)" by fastforce
  note c = acquire_cases [OF q]
  show ?thesis
  proof (cases "\<exists>l. q = Done (Ok l)")
    case True
    then obtain l where l: "q = Done (Ok l)" by blast
    have "\<not> lock_taken w" using c True by simp
    moreover have "\<not> lock_taken w'"
      using assms by (auto simp: locked_def and_then_def mapping_err_def bind_Done_iff bind_def q l drop_lock_def ret_def
          split: outcome.splits prod.splits)
    ultimately show ?thesis by simp
  next
    case False
    with c assms show ?thesis
      by (auto simp: locked_def and_then_def mapping_err_def bind_def q ret_def split: outcome.splits sum.splits)
  qed
qed

lemma same_under_lock:
  fixes P :: "('e, 'v) platform"
  assumes "obeys P (lock_is True)" "\<And>x. lock_taken x \<Longrightarrow> op x = op' x"
  shows "exclusive P op = exclusive P op'"
proof
  fix w :: "'e world"
  obtain q w1 where q: "try_acquire w = (q, w1)" by fastforce
  obtain z w2 where z: "reconcile_state P w1 = (z, w2)" by fastforce
  show "exclusive P op w = exclusive P op' w"
  proof (cases "\<exists>l. q = Done (Ok (Some l))")
    case True
    with try_acquire_cases [OF q] have "lock_taken w1" by simp
    with keepsD [OF lock_reconcile [OF assms(1)] _ z] have "lock_taken w2" by (simp add: lock_is_def)
    from assms(2) [OF this] show ?thesis
      by (simp add: exclusive_def bind_def q z split: outcome.split sum.split option.split)
  next
    case False
    then show ?thesis
      by (auto simp: exclusive_def bind_def q split: outcome.split sum.split option.split)
  qed
qed


lemma refused:
  fixes P :: "('e, 'v) platform"
  assumes "coherent w" "lock_taken w" "exclusive P op w = (r, w')"
  shows "(\<forall>reply. r = Done reply \<longrightarrow> \<not> success reply) \<and> outside w' = outside w \<and> console w' = console w \<and>
    (\<forall>p. p \<noteq> lock_path \<longrightarrow> bytes_at w' p = bytes_at w p)"
proof -
  obtain q w1 where q: "try_acquire w = (q, w1)" by fastforce
  have "\<forall>l. q \<noteq> Done (Ok (Some l))" using try_acquire_cases [OF q] assms(2) by auto
  then have r: "(\<forall>reply. r = Done reply \<longrightarrow> \<not> success reply) \<and> w' = w1"
    using assms(3) by (auto simp: exclusive_def bind_def q ret_def busy_def reply_failed_def
        split: outcome.splits sum.splits option.splits)
  have "bytes_at w1 p = bytes_at w p" if "p \<noteq> lock_path" for p
    using keepsD [OF keeps_lock(1) [OF that] _ q, of w] assms(1) by (simp add: stays_def frame_bytes_at)
  moreover have "outside w1 = outside w \<and> console w1 = console w"
  proof -
    let ?J = "\<lambda>x. outside x = outside w \<and> console x = console w"
    have "keeps ?J (fs_create_dir_all d)" "keeps ?J (fs_open_or_create p)" for d p
      unfolding fs_create_dir_all_def fs_open_or_create_def
      by (rule keeps_prim; auto simp: new_file_def set_names_def set_inode_def split: option.split)+
    moreover have "keeps ?J (fs_try_lock i)" "keeps ?J (own i)" for i
    proof -
      have "keeps ?J (prim nothing (\<lambda>w. (Ok (\<not> lock_taken w), w\<lparr>lock_taken := True\<rparr>)))"
        by (rule keeps_prim) auto
      then show "keeps ?J (fs_try_lock i)" unfolding fs_try_lock_def by (intro keeps_intros)
      show "keeps ?J (own i)" by (simp add: keeps_def own_def)
    qed
    ultimately have "keeps ?J try_acquire"
      unfolding try_acquire_def try_acquire_at_def open_at_def by (auto intro!: keeps_intros split: try_lock_error.split)
    from keepsD [OF this _ q] show ?thesis by simp
  qed
  ultimately show ?thesis using r by blast
qed

text \<open>\<open>restores m\<close>: when \<open>m\<close> returns, the lock is as it was.\<close>

definition restores :: "('e, 'a) io \<Rightarrow> bool" where
  "restores m \<longleftrightarrow> (\<forall>w x w'. m w = (Done x, w') \<longrightarrow> lock_taken w' = lock_taken w)"

lemma restores_keeps: "(\<And>b. keeps (lock_is b) m) \<Longrightarrow> restores m"
  unfolding restores_def keeps_def lock_is_def by (metis snd_conv)

lemma restores_bind: "restores m \<Longrightarrow> (\<And>x. restores (f x)) \<Longrightarrow> restores (bind m f)"
  unfolding restores_def bind_Done_iff by metis

lemma restores_if: "restores m \<Longrightarrow> restores n \<Longrightarrow> restores (if b then m else n)"
  by simp

lemma restores_sum: "(\<And>x. restores (f x)) \<Longrightarrow> (\<And>y. restores (g y)) \<Longrightarrow> restores (case z of Inl x \<Rightarrow> f x | Inr y \<Rightarrow> g y)"
  by (cases z) simp_all

lemma restores_option: "restores m \<Longrightarrow> (\<And>y. restores (g y)) \<Longrightarrow> restores (case z of None \<Rightarrow> m | Some y \<Rightarrow> g y)"
  by (cases z) simp_all

lemma restores_exclusive: "restores (exclusive P op)" "restores (locked P op')"
  unfolding restores_def using exclusive_released locked_released by blast+

lemma restores_plain: "restores (ret x)" "restores (say l)"
  by (rule restores_keeps, simp add: keeps_def ret_def say_def lock_is_def)+

lemmas restores_intros = restores_bind restores_if restores_sum restores_option restores_exclusive restores_plain

lemma restores_commands:
  assumes "\<forall>b. obeys P (lock_is b)"
  shows "restores (hello P)" "restores (update_status P)" "restores (logs P request)" "restores (status_command P)"
  using lock_held.keeps_commands(1,2,6) [of P] lock_held.keeps_record_commands(3) [of P] assms
  by (auto intro!: restores_keeps)

lemma restores_dispatch: "\<forall>b. obeys P (lock_is b) \<Longrightarrow> restores (dispatch P request)"
  unfolding dispatch_def by (intro restores_intros restores_commands)

text \<open>
  C17: privileged operations exclude each other. While one holds the lock, a request to stage or activate an
  extension or to stage a base is refused, and nothing happened for it: no program ran, nothing was
  printed, and no file but the lock's has other bytes. When the lock was free, an operation that comes in
  runs only while it is held: what it would do without it makes no difference. And when a command of the
  socket returned, the lock is held exactly if it was before.
\<close>

theorem one_operation_at_a_time:
  fixes P :: "('e, 'v) platform"
  assumes "\<forall>b. obeys P (\<lambda>x. lock_taken x = b)" "coherent w"
    and "\<forall>x. lock_taken x \<longrightarrow> op x = op' x" and "dispatch P request w = (r, w')"
  shows "exclusive P op = exclusive P op' \<and>
    (\<forall>reply. r = Done reply \<longrightarrow> lock_taken w' = lock_taken w) \<and>
    (lock_taken w \<and> field_text P request ''command'' \<in> Some ` {''stage-extension'', ''activate-extension'', ''stage-base''} \<longrightarrow>
       (\<forall>reply. r = Done reply \<longrightarrow> \<not> success reply) \<and> outside w' = outside w \<and> console w' = console w \<and>
       (\<forall>p. p \<noteq> lock_path \<longrightarrow> bytes_at w' p = bytes_at w p))"
proof -
  have o: "\<forall>b. obeys P (lock_is b)" using assms(1) by (simp add: lock_is_def [abs_def])
  have "\<exists>op. dispatch P request = exclusive P op"
    if "field_text P request ''command'' \<in> Some ` {''stage-extension'', ''activate-extension'', ''stage-base''}"
    using that unfolding dispatch_def by auto
  with refused [OF assms(2)] assms(4) restores_dispatch [OF o, of request] same_under_lock [of P op op'] o assms(3)
  show ?thesis unfolding restores_def by (metis (no_types, lifting))
qed

text \<open>
  C38: no command of the command line keeps the lock. When \<open>main\<close> returned, whatever the command and its
  outcome, the lock is as it was. Only the accept loop is a parameter.
\<close>

theorem lock_released:
  assumes "\<forall>b. obeys P (\<lambda>x. lock_taken x = b)" "\<forall>b p. keeps (\<lambda>x. lock_taken x = b) (serve p)"
    and "main P serve argv w = (Done succeeded, w')"
  shows "lock_taken w' = lock_taken w"
proof -
  have o: "\<forall>b. obeys P (lock_is b)" "\<forall>b p. keeps (lock_is b) (serve p)"
    using assms(1,2) by (simp_all add: lock_is_def [abs_def])
  have "restores (main P serve argv)"
    unfolding main_def Let_def usage_def
    by (intro restores_intros restores_commands restores_keeps [of "serve p" for p] o) (use o(2) in blast)
  with assms(3) show ?thesis by (simp add: restores_def)
qed


text \<open>A machine on which an operation is in flight.\<close>

definition occupied :: "unit world" where
  "occupied = (staging_world ''new'')\<lparr>lock_taken := True\<rparr>"

lemma occupied_coherent: "coherent occupied"
  using staging_orderly [of "''new''"] by (simp add: occupied_def orderly_def coherent_def points_def versions_def)

lemma staging_lock: "obeys staging_platform (\<lambda>x. lock_taken x = b)"
  by (rule staging_obeys) (simp_all add: keeps_def sleep_def say_def)

lemma one_operation_at_a_time_witness:
  "case dispatch staging_platform [''stage-base''] occupied of (r, w') \<Rightarrow>
     r = Done busy \<and> lock_taken w' \<and> bytes_at w' state_path = Some ''{}'' \<and> console w' = [] \<and>
     exists_path w' lock_path"
proof -
  have "case dispatch staging_platform [''stage-base''] occupied of (r, w') \<Rightarrow> r = Done busy \<and> exists_path w' lock_path"
    by code_simp
  then obtain w' where w': "dispatch staging_platform [''stage-base''] occupied = (Done busy, w')" "exists_path w' lock_path"
    by (auto split: prod.splits)
  have "field_text staging_platform [''stage-base''] ''command'' = Some ''stage-base''" "lock_taken occupied"
    "bytes_at occupied state_path = Some ''{}''" "console occupied = []" by code_simp+
  then show ?thesis
    using one_operation_at_a_time [OF allI [OF staging_lock] occupied_coherent _ w'(1), where op = "ret busy" and op' = "ret busy"]
      state_not_lock w' by simp
qed

lemma lock_released_witness:
  "lock_taken (snd (main staging_platform (\<lambda>_. ret (Ok ())) [''stage-base'', ''11''] (staging_world ''new''))) = False"
proof -
  let ?m = "main staging_platform (\<lambda>_. ret (Ok ())) [''stage-base'', ''11''] (staging_world ''new'')"
  have "fst ?m = Done False" by code_simp
  then obtain w' where w': "?m = (Done False, w')" by (metis prod.collapse)
  have "\<forall>b p. keeps (\<lambda>x. lock_taken x = b) ((\<lambda>_. ret (Ok ())) p :: (unit, string + unit) io)" by (simp add: keeps_ret)
  from lock_released [OF allI [OF staging_lock] this w'] show ?thesis
    unfolding w' by (simp add: staging_world_def)
qed

end
