(* ===== verification/Same_Work.thy ===== *)
theory Same_Work
  imports Exclusion
begin

text \<open>
  The socket and the command line do the same work: the module \<open>ops.rs\<close> and the transaction of \<open>main.rs\<close> are
  shared by both, so that a node repaired by hand and one repaired by the fleet end up identical.
\<close>

section \<open>The same outcome\<close>

text \<open>What a request and a command leave behind: the same world but for what was printed, and the same success.\<close>

definition alike :: "'v reply outcome \<times> 'e world \<Rightarrow> (string + unit) outcome \<times> 'e world \<Rightarrow> bool" where
  "alike x y \<longleftrightarrow>
     (snd x)\<lparr>console := []\<rparr> = (snd y)\<lparr>console := []\<rparr> \<and>
     (case fst x of
        Stopped s \<Rightarrow> fst y = Stopped s
      | Done reply \<Rightarrow> \<exists>q. fst y = Done q \<and> success reply = (q = Ok ()))"

lemma success_reply [simp]:
  "success reply_ok" "\<not> success (reply_failed f)" "success (with_value k v r) = success r"
  "success (maybe k x r) = success r"
  by (simp_all add: reply_ok_def reply_failed_def with_value_def maybe_def split: option.split)

text \<open>With the lock free, waiting for it and trying to take it are the same.\<close>

lemma acquire_free:
  assumes "\<not> lock_taken w" "try_acquire w = (q, w')"
  shows "acquire w = (case q of Stopped s \<Rightarrow> Stopped s | Done (Inl e) \<Rightarrow> Done (Inl e)
    | Done (Inr l) \<Rightarrow> Done (Inr (the l)), w') \<and> q \<noteq> Done (Inr None)"
proof -
  obtain r w1 where r: "open_at STATE_DIR w = (r, w1)" by fastforce
  have "\<not> lock_taken w1" using open_at_lock [OF r] assms(1) by simp
  then show ?thesis
    using assms(2)
    by (auto simp: try_acquire_def try_acquire_at_def acquire_def and_then_def bind_def ret_def own_def r fs_lock_def
        fs_try_lock_def prim_def split: outcome.splits sum.splits list.splits fault.splits try_lock_error.splits)
qed

definition agree :: "('e, 'v reply) io \<Rightarrow> ('e, string + unit) io \<Rightarrow> bool" where
  "agree m m' \<longleftrightarrow> (\<forall>w. alike (m w) (m' w))"

lemma agree_dropped:
  assumes "agree m m'"
  shows "agree (bind m (\<lambda>r. bind (drop_lock l) (\<lambda>_. ret r))) (bind m' (\<lambda>r. bind (drop_lock l) (\<lambda>_. ret r)))"
  unfolding agree_def
proof
  fix w
  obtain x v x' v' where m: "m w = (x, v)" "m' w = (x', v')" by fastforce
  with assms have "alike (x, v) (x', v')" by (metis agree_def)
  then show "alike (bind m (\<lambda>r. bind (drop_lock l) (\<lambda>_. ret r)) w) (bind m' (\<lambda>r. bind (drop_lock l) (\<lambda>_. ret r)) w)"
    by (cases v; cases v'; cases x) (auto simp: m alike_def bind_def drop_lock_def ret_def)
qed

lemma agree_reconciled:
  assumes "agree op op'"
  shows "agree (bind (reconcile_state P) (\<lambda>r. case r of Inl e \<Rightarrow> ret (reply_failed (f e)) | Inr _ \<Rightarrow> op))
    (and_then (reconcile_state P) (\<lambda>_. op'))"
  unfolding agree_def
proof
  fix w
  obtain z w2 where z: "reconcile_state P w = (z, w2)" by fastforce
  have "alike (op w2) (op' w2)" using assms by (simp add: agree_def)
  with z show "alike (bind (reconcile_state P) (\<lambda>r. case r of Inl e \<Rightarrow> ret (reply_failed (f e)) | Inr _ \<Rightarrow> op) w)
      (and_then (reconcile_state P) (\<lambda>_. op') w)"
    by (cases z) (auto simp: alike_def [of "(_, _)"] bind_def and_then_def ret_def split: sum.split)
qed

lemma exclusive_alike_locked:
  assumes "\<not> lock_taken w" "agree op op'"
  shows "alike (exclusive P op w) (locked P op' w)"
proof -
  obtain q w1 where q: "try_acquire w = (q, w1)" by fastforce
  note a = acquire_free [OF assms(1) q]
  consider s where "q = Stopped s" | e where "q = Done (Inl e)" | l where "q = Done (Inr (Some l))"
    using a by (cases q; metis old.sum.exhaust option.exhaust)
  then show ?thesis
  proof cases
    case 3
    have "mapping_err g acquire w = (Done (Inr l), w1)" for g :: "io_error \<Rightarrow> string"
      using a 3 by (simp add: mapping_err_def bind_def ret_def)
    with 3 q agree_dropped [OF agree_reconciled [OF assms(2), of P]] show ?thesis
      by (simp add: exclusive_def locked_def bind_run and_then_run agree_def)
  qed (use a q in \<open>simp_all add: exclusive_def locked_def alike_def bind_def mapping_err_def and_then_def ret_def\<close>)
qed


section \<open>The same work\<close>

datatype work =
    To_activate string string "string option"
  | To_stage string "string option" source
  | To_stage_base "string option"

text \<open>The request asks for the work.\<close>

fun asks_for :: "('e, 'v) platform \<Rightarrow> 'v \<Rightarrow> work \<Rightarrow> bool" where
  "asks_for P request (To_activate name version token) \<longleftrightarrow>
     field_text P request ''command'' = Some ''activate-extension'' \<and> field_text P request ''name'' = Some name \<and>
     field_text P request ''version'' = Some version \<and> field_text P request ''request_id'' = token"
| "asks_for P request (To_stage name base src) \<longleftrightarrow>
     field_text P request ''command'' = Some ''stage-extension'' \<and> field_text P request ''name'' = Some name \<and>
     field_text P request ''base'' = base \<and>
     (case src of
        Supplied p d \<Rightarrow> field_text P request ''path'' = Some p \<and> field_text P request ''digest'' = Some d
      | Acquire v \<Rightarrow> field_text P request ''path'' = None \<and> field_text P request ''version'' = v)"
| "asks_for P request (To_stage_base version) \<longleftrightarrow>
     field_text P request ''command'' = Some ''stage-base'' \<and> field_text P request ''version'' = version"

text \<open>The command line for the work.\<close>

definition with_option :: "string \<Rightarrow> string option \<Rightarrow> string list" where
  "with_option name value = (case value of Some v \<Rightarrow> [name, v] | None \<Rightarrow> [])"

definition value_list :: "string option \<Rightarrow> string list" where
  "value_list value = (case value of Some v \<Rightarrow> [v] | None \<Rightarrow> [])"

fun command_line :: "work \<Rightarrow> string list" where
  "command_line (To_activate name version token) = [''activate'', name, version] @ value_list token"
| "command_line (To_stage name base (Supplied p d)) =
     [''stage-extension'', name] @ with_option ''--base'' base @ [''--path'', p, ''--digest'', d]"
| "command_line (To_stage name base (Acquire v)) =
     [''stage-extension'', name] @ with_option ''--base'' base @ with_option ''--version'' v"
| "command_line (To_stage_base version) = ''stage-base'' # value_list version"

text \<open>No value looks like an option, and the names and versions are usable.\<close>

definition a_value :: "string \<Rightarrow> bool" where
  "a_value s \<longleftrightarrow> \<not> starts_with ''--'' s"

fun well_put :: "work \<Rightarrow> bool" where
  "well_put (To_activate name version token) \<longleftrightarrow> version_valid name \<and> version_valid version"
| "well_put (To_stage name base src) \<longleftrightarrow>
     a_value name \<and> pred_option version_valid base \<and>
     (case src of Supplied p d \<Rightarrow> a_value p \<and> a_value d | Acquire v \<Rightarrow> pred_option a_value v)"
| "well_put (To_stage_base version) \<longleftrightarrow> pred_option a_value version"

lemma version_valid_value: "version_valid v \<Longrightarrow> a_value v"
proof -
  have "\<not> is_ascii_alphanumeric (CHR ''-'')" by code_simp
  then show "version_valid v \<Longrightarrow> a_value v"
    by (cases v) (auto simp: a_value_def version_valid_def starts_with_def)
qed

lemma a_value_not_option:
  "a_value s \<Longrightarrow> s \<noteq> ''--base'' \<and> s \<noteq> ''--path'' \<and> s \<noteq> ''--digest'' \<and> s \<noteq> ''--version'' \<and> ''--activate'' \<noteq> s"
  by (auto simp: a_value_def starts_with_def)

lemma agree_said:
  assumes "\<And>e. \<not> success (f (Inl e))" "\<And>x. success (f (Inr x))"
  shows "agree (bind m (\<lambda>r. ret (f r)))
    (bind m (\<lambda>r. case r of Inl e \<Rightarrow> ret (Err (g e)) | Inr x \<Rightarrow> bind (say (h x)) (\<lambda>_. ret (Ok ()))))"
  unfolding agree_def
proof
  fix w
  obtain r w1 where "m w = (r, w1)" by fastforce
  with assms show "alike (bind m (\<lambda>r. ret (f r)) w)
      (bind m (\<lambda>r. case r of Inl e \<Rightarrow> ret (Err (g e)) | Inr x \<Rightarrow> bind (say (h x)) (\<lambda>_. ret (Ok ()))) w)"
    by (cases r) (auto simp: alike_def bind_def ret_def say_def split: sum.split)
qed

lemma and_then_mapped: "and_then (mapping_err g m) k = bind m (\<lambda>r. case r of Inl e \<Rightarrow> ret (Err (g e)) | Inr x \<Rightarrow> k x)"
  unfolding and_then_def mapping_err_def bind_assoc
  by (rule arg_cong [where f = "bind m"]) (auto simp: fun_eq_iff bind_def ret_def map_err_def split: sum.split)

lemma agree_activate:
  assumes "asks_for P request (To_activate name version token)" "well_put (To_activate name version token)"
  shows "agree (api_activate_extension P request) (cli_activate P (drop 1 (command_line (To_activate name version token))))"
proof -
  let ?args = "[name, version] @ value_list token"
  have "first_argument ?args = Some name" "argument 1 ?args = Some version" "argument 2 ?args = token"
    by (cases token; simp add: first_argument_def argument_def value_list_def)+
  then have cli: "cli_activate P ?args = bind (activate_extension P name version token) (\<lambda>r. case r of
      Inl f \<Rightarrow> ret (Err (message f))
    | Inr a \<Rightarrow> bind (say (if replayed a then name @ '': request already applied''
        else name @ '': active on '' @ activated_version a)) (\<lambda>_. ret (Ok ())))"
    by (simp add: cli_activate_def)
  have api: "api_activate_extension P request = bind (activate_extension P name version token) (\<lambda>r.
      ret (case r of Inr a \<Rightarrow> activation_reply P name a | Inl f \<Rightarrow> reply_failed f))"
    using assms by (simp add: api_activate_extension_def)
  have args: "drop 1 (command_line (To_activate name version token)) = ?args" by simp
  show ?thesis unfolding args api cli by (rule agree_said) (simp_all add: activation_reply_def)
qed

lemma agree_stage_base:
  assumes "asks_for P request (To_stage_base version)" "well_put (To_stage_base version)"
  shows "agree (api_stage_base P request) (cli_stage_base P (drop 1 (command_line (To_stage_base version))))"
proof -
  have v: "(case first_argument (value_list version) of
      Some v \<Rightarrow> if starts_with ''--'' v then None else Some v | None \<Rightarrow> None) = version"
    using assms(2) by (cases version) (simp_all add: first_argument_def value_list_def a_value_def)
  show ?thesis
    using assms(1) by (simp add: api_stage_base_def cli_stage_base_def v agree_said)
qed

lemma agree_stage:
  assumes "asks_for P request (To_stage name base src)" "well_put (To_stage name base src)"
  shows "agree (api_stage_extension P request) (cli_stage_extension P (drop 1 (command_line (To_stage name base src))))"
proof -
  let ?args = "drop 1 (command_line (To_stage name base src))"
  have n: "a_value name" "pred_option a_value base"
    using assms(2) version_valid_value by (cases base; simp)+
  have api: "api_stage_extension P request = bind (stage_extension P name base src) (\<lambda>r.
      ret (case r of Inr s \<Rightarrow> staged_reply P s | Inl f \<Rightarrow> reply_failed f))"
    using assms by (cases src; cases base) (simp_all add: api_stage_extension_def)
  note name = a_value_not_option [OF n(1)]
  have base: "option_value (with_option ''--base'' base @ rest) x = (if x = ''--base'' \<and> base \<noteq> None then base
      else option_value rest x)" if "x \<in> {''--base'', ''--path'', ''--digest'', ''--version''}" for x rest
    using n(2) a_value_not_option that by (cases base) (auto simp: with_option_def first_argument_def)
  have set_base: "''--activate'' \<notin> set (with_option ''--base'' base)"
    using n(2) a_value_not_option by (cases base) (auto simp: with_option_def)
  have "first_argument ?args = Some name \<and> option_value ?args ''--base'' = base \<and>
    (case option_value ?args ''--path'' of Some p \<Rightarrow> map_option (Supplied p) (option_value ?args ''--digest'')
      | None \<Rightarrow> Some (Acquire (option_value ?args ''--version''))) = Some src \<and> ''--activate'' \<notin> set ?args"
  proof (cases src)
    case (Supplied p d)
    with assms(2) a_value_not_option [of p] a_value_not_option [of d] name show ?thesis
      by (simp add: first_argument_def base set_base)
  next
    case (Acquire v)
    show ?thesis
    proof (cases v)
      case None
      with Acquire name show ?thesis using base [where rest = "[]"] set_base
        by (simp add: first_argument_def with_option_def [of "''--version''"])
    next
      case (Some u)
      with Acquire assms(2) a_value_not_option [of u] name show ?thesis
        by (simp add: first_argument_def base set_base with_option_def [of "''--version''"])
    qed
  qed
  note args = this [THEN conjunct1] this [THEN conjunct2, THEN conjunct1]
    this [THEN conjunct2, THEN conjunct2, THEN conjunct1] this [THEN conjunct2, THEN conjunct2, THEN conjunct2]
  have "\<not> starts_with ''--'' name" using n(1) by (simp add: a_value_def)
  then have cli: "cli_stage_extension P ?args = bind (stage_extension P name base src) (\<lambda>r. case r of
      Inl f \<Rightarrow> ret (Err (describe f))
    | Inr st \<Rightarrow> bind (say (staged_name st @ '': staged for CarbideOS '' @ staged_version st @ '' at '' @ staged_path st))
        (\<lambda>_. ret (Ok ())))"
    unfolding cli_stage_extension_def args and_then_mapped
    by (simp only: args(4) if_True if_False option.case simp_thms)
  show ?thesis unfolding api cli by (rule agree_said) (simp_all add: staged_reply_def)
qed



text \<open>A platform on which a JSON object is a list of lines \<open>key=value\<close>.\<close>

definition fleet_platform :: "(unit, string list) platform" where
  "fleet_platform = staging_platform\<lparr>json_get := (\<lambda>v k. Some (case find_map (strip_prefix (k @ ''='')) v of
     Some x \<Rightarrow> [x] | None \<Rightarrow> v)),
     encode_state := (\<lambda>_. Ok ''{}'')\<rparr>"


end
