(* ===== verification/Screen_Tools.thy ===== *)
theory Screen_Tools
  imports Installer
begin

text \<open>
  The tools that render the installer's screens without a display: \<open>installer/src/bin/record.rs\<close>, which
  records scenes as raw frames on a clock of its own, \<open>installer/src/bin/preview.rs\<close>, which takes single
  pictures, and their stand-in hardware, \<open>installer/src/sample.rs\<close>. Slint is a parameter: what a property, a
  key or the passing of time does to its state, and what it draws.
\<close>

section \<open>Stand-in hardware\<close>

definition sample_code :: "string \<Rightarrow> string list" where
  "sample_code chars = str_chars chars"

definition sample_disks :: "row list" where
  "sample_disks =
     [\<lparr>code_chars = sample_code ''0481'', code_kind = ''SERIAL'', code_context = ''S6Z1NJ0T91'',
       row_node = ''/dev/nvme0n1'', row_model = ''Samsung SSD 990 PRO 2TB'', row_size = ''2.00 TB'',
       row_bus = ''NVME'', row_kind = ''SSD'', row_serial = ''S6Z1NJ0T910481'', row_eligible = True,
       row_boot_media = False, row_note = ''''\<rparr>,
      \<lparr>code_chars = sample_code ''A9C1'', code_kind = ''SERIAL'', code_context = ''2138E5F2'',
       row_node = ''/dev/sda'', row_model = ''CT500MX500SSD1'', row_size = ''500.1 GB'',
       row_bus = ''SATA'', row_kind = ''SSD'', row_serial = ''2138E5F2A9C1'', row_eligible = True,
       row_boot_media = False, row_note = ''''\<rparr>,
      \<lparr>code_chars = sample_code ''2010'', code_kind = ''SERIAL'', code_context = ''4C530001'',
       row_node = ''/dev/sdb'', row_model = ''SanDisk Ultra USB 3.0'', row_size = ''30.8 GB'',
       row_bus = ''USB'', row_kind = ''SSD'', row_serial = ''4C5300012010'', row_eligible = False,
       row_boot_media = True, row_note = ''INSTALLATION MEDIA''\<rparr>]"

section \<open>Slint\<close>

record pixel =
  red :: "8 word"
  green :: "8 word"
  blue :: "8 word"

text \<open>The properties that the tools set.\<close>

datatype setting =
    Version string | Edition string | Disks "row list" | Scan_Status string | Image_Status string
  | Screen screen | Presented bool | Confirm_Style int | Attract_Variant int | Chosen int | Typed int
  | Progress rat | Stage_Shown string | Detail_Shown string
  | Summary_Headline string | Summary_Elapsed string | Summary_Written string | Summary_Average string
  | Summary_Peak string | Summary_Target string | Summary_Image string

datatype callback = On_Proceed | On_Choose | On_Back | On_Begin_Install

datatype key = Return_Key | Escape_Key | Up_Arrow | Down_Arrow

text \<open>
  \<open>draw_if_needed\<close> is what is drawn into a buffer, if anything has to be; \<open>handle c ss\<close> registers a callback
  that sets \<open>ss\<close>.
\<close>

record 'u slint =
  update_animations :: "nat \<Rightarrow> 'u \<Rightarrow> 'u"
  draw_if_needed :: "'u \<Rightarrow> (pixel list \<Rightarrow> pixel list) option \<times> 'u"
  dispatch_key :: "string \<Rightarrow> bool \<Rightarrow> 'u \<Rightarrow> 'u"
  setting :: "setting \<Rightarrow> 'u \<Rightarrow> 'u"
  new_ui :: "'u \<Rightarrow> 'u"
  handle :: "callback \<Rightarrow> setting list \<Rightarrow> 'u \<Rightarrow> 'u"
  show_ui :: "'u \<Rightarrow> 'u"
  hide_ui :: "'u \<Rightarrow> 'u"
  key_text :: "key \<Rightarrow> string"

definition settings :: "'u slint \<Rightarrow> setting list \<Rightarrow> 'u \<Rightarrow> 'u" where
  "settings L ss u = fold (setting L) ss u"

definition ms :: "nat \<Rightarrow> nat" where
  "ms n = n * 1000000"

section \<open>Recording\<close>

definition WIDTH :: nat where "WIDTH = 1920"
definition HEIGHT :: nat where "HEIGHT = 1080"
definition FPS :: nat where "FPS = 60"

definition BLACK :: pixel where
  "BLACK = \<lparr>red = 0, green = 0, blue = 0\<rparr>"

record 'u tape =
  out :: "8 word list"
  frame :: nat
  buffers :: "pixel list list"
  front :: nat
  swapped :: bool
  ui :: 'u

definition frame_time :: "nat \<Rightarrow> nat" where
  "frame_time n = n * 1000000000 div FPS"

definition now_on :: "'u tape \<Rightarrow> nat" where
  "now_on t = frame_time (frame t)"

definition push :: "pixel list \<Rightarrow> 'u tape \<Rightarrow> 'u tape" where
  "push pixels t =
     t\<lparr>out := out t @ concat (map (\<lambda>p. [red p, green p, blue p]) pixels), frame := frame t + 1\<rparr>"

lemma push_frame [simp]: "frame (push pixels t) = Suc (frame t)"
  by (simp add: push_def)

lemma frame_time_unbounded: "frame_time n < x \<Longrightarrow> n < x"
  by (simp add: frame_time_def FPS_def)

function black_until :: "nat \<Rightarrow> 'u tape \<Rightarrow> 'u tape" where
  "black_until until t =
     (if now_on t < until then black_until until (push (replicate (WIDTH * HEIGHT) BLACK) t) else t)"
  by pat_completeness auto
termination
  by (relation "measure (\<lambda>(until, t). until - frame t)") (auto simp: now_on_def dest!: frame_time_unbounded)

definition black :: "nat \<Rightarrow> 'u tape \<Rightarrow> 'u tape" where
  "black duration t = black_until (now_on t + duration) t"

definition on_ui :: "('u \<Rightarrow> 'u) \<Rightarrow> 'u tape \<Rightarrow> 'u tape" where
  "on_ui f t = t\<lparr>ui := f (ui t)\<rparr>"

definition render :: "'u slint \<Rightarrow> 'u tape \<Rightarrow> 'u tape" where
  "render L t =
     (let back = (if swapped t then 1 - front t else front t)
      in case draw_if_needed L (update_animations L (now_on t) (ui t)) of
        (drawn, u) \<Rightarrow>
          let t' = (case drawn of
                None \<Rightarrow> t\<lparr>ui := u\<rparr>
              | Some f \<Rightarrow> t\<lparr>ui := u, buffers := (buffers t)[back := f (buffers t ! back)], front := back\<rparr>)
          in push (buffers t' ! front t') t')"

lemma render_frame [simp]: "frame (render L t) = Suc (frame t)"
  by (simp add: render_def Let_def split: prod.split option.split)

lemma on_ui_frame [simp]: "frame (on_ui f t) = frame t"
  by (simp add: on_ui_def)

lemma still_running: "now_on t - start < duration \<Longrightarrow> frame t < start + duration"
  using frame_time_unbounded [of "frame t" "start + duration"] by (simp add: now_on_def)

text \<open>\<open>each\<close> acts on the screen before every frame, with the time since the start.\<close>

function run_from :: "'u slint \<Rightarrow> nat \<Rightarrow> nat \<Rightarrow> (nat \<Rightarrow> 'u \<Rightarrow> 'u) \<Rightarrow> 'u tape \<Rightarrow> 'u tape" where
  "run_from L start duration each t =
     (if now_on t - start < duration
      then run_from L start duration each (render L (on_ui (each (now_on t - start)) t)) else t)"
  by pat_completeness auto
termination
  by (relation "measure (\<lambda>(L, start, duration, each, t). start + duration - frame t)")
    (auto dest!: still_running)

declare black_until.simps [simp del] run_from.simps [simp del]

definition run_tape :: "'u slint \<Rightarrow> nat \<Rightarrow> (nat \<Rightarrow> 'u \<Rightarrow> 'u) \<Rightarrow> 'u tape \<Rightarrow> 'u tape" where
  "run_tape L duration each t = run_from L (now_on t) duration each t"

definition press_key :: "'u slint \<Rightarrow> string \<Rightarrow> bool \<Rightarrow> 'u tape \<Rightarrow> 'u tape" where
  "press_key L txt pressed t = on_ui (dispatch_key L txt pressed) t"

text \<open>The closure that does nothing.\<close>

definition still :: "nat \<Rightarrow> 'u \<Rightarrow> 'u" where
  "still time u = u"

definition tap :: "'u slint \<Rightarrow> string \<Rightarrow> nat \<Rightarrow> 'u tape \<Rightarrow> 'u tape" where
  "tap L txt after t = run_tape L after still (press_key L txt False (press_key L txt True t))"

definition build_ui :: "'u slint \<Rightarrow> 'u \<Rightarrow> 'u" where
  "build_ui L u =
     handle L On_Begin_Install
       [Summary_Target ''/dev/nvme0n1'', Progress 0, Stage_Shown ''PREPARING'', Detail_Shown [],
        Screen Installing]
     (handle L On_Back [Screen Target]
     (handle L On_Choose [Screen Confirm]
     (handle L On_Proceed [Screen Target]
     (settings L [Version ''0.3.5'', Edition ''Fleet'', Disks sample_disks, Scan_Status ''3 storage devices ready'',
        Image_Status ''IMAGE READY''] (new_ui L u)))))"

definition sync_clock :: "'u slint \<Rightarrow> 'u tape \<Rightarrow> 'u tape" where
  "sync_clock L t = on_ui (update_animations L (now_on t)) t"

definition decode_percent :: "nat \<Rightarrow> string" where
  "decode_percent time = fixed 0 (f64 (f64 (as_secs_f64 time / as_secs_f64 (ms 2600)) * 100))"

definition boot_each :: "'u slint \<Rightarrow> nat \<Rightarrow> 'u \<Rightarrow> 'u" where
  "boot_each L time u =
     setting L (Image_Status (if time \<ge> ms 2600 then ''IMAGE READY''
         else ''PREPARING IMAGE  '' @ decode_percent time @ ''%''))
       (if time > 0 then setting L (Presented True) u else u)"

definition boot :: "'u slint \<Rightarrow> 'u tape \<Rightarrow> 'u tape" where
  "boot L t =
     (let t1 = sync_clock L (black (ms 300) t);
          t2 = on_ui (show_ui L) (on_ui (build_ui L) t1);
          t3 = run_tape L (ms 5700) (boot_each L) (black (ms 250) t2)
      in tap L (key_text L Return_Key) (ms 1400) t3)"

definition at_target :: "'u slint \<Rightarrow> int \<Rightarrow> 'u tape \<Rightarrow> 'u tape" where
  "at_target L style t =
     (let t1 = on_ui (build_ui L) (sync_clock L t);
          t2 = on_ui (settings L [Confirm_Style style, Screen Target, Presented True]) t1
      in run_tape L (ms 1300) still (on_ui (show_ui L) t2))"

text \<open>The share of the write that the scene shows: nothing for 0.4 seconds, then all of it after 2.4 more.\<close>

definition write_share :: "nat \<Rightarrow> rat" where
  "write_share time = f32 (max 0 (f32 (as_secs_f32 time - f32 (4 / 10))) / f32 (24 / 10))"

definition install_each :: "'u slint \<Rightarrow> nat \<Rightarrow> 'u \<Rightarrow> 'u" where
  "install_each L time u =
     (let p = write_share time in
      settings L [Progress (min p 1), Stage_Shown (if p < 1 then ''WRITING'' else ''VERIFYING''),
        Detail_Shown (if 0 < p \<and> p < 1 then ''1.84 GB/s'' else [])] u)"

definition finished_settings :: "string \<Rightarrow> setting list" where
  "finished_settings img =
     [Summary_Headline ''Installation complete'', Summary_Elapsed ''2.31 s'', Summary_Written ''1.18 GiB'',
      Summary_Average ''548 MB/s'', Summary_Peak ''1.92 GB/s'',
      Summary_Target ''/dev/nvme0n1  Samsung SSD 990 PRO 2TB'', Summary_Image img]"

definition install_scene :: "'u slint \<Rightarrow> bool \<Rightarrow> 'u tape \<Rightarrow> 'u tape" where
  "install_scene L to_summary t =
     (let t1 = run_tape L (ms (if to_summary then 3200 else 2200)) (install_each L) t
      in if \<not> to_summary then t1
         else run_tape L (ms 3000) still
           (on_ui (settings L (finished_settings ''carbideos-fleet 0.3.5'' @ [Screen Summary])) t1))"

definition confirm_hold :: "'u slint \<Rightarrow> 'u tape \<Rightarrow> 'u tape" where
  "confirm_hold L t =
     (let enter = key_text L Return_Key;
          t1 = tap L enter (ms 1100) (at_target L 0 t);
          t2 = press_key L enter False (run_tape L (ms 600) still (press_key L enter True t1));
          t3 = run_tape L (ms 1100) still t2;
          t4 = press_key L enter False (run_tape L (ms 1800) still (press_key L enter True t3))
      in install_scene L False t4)"

definition type_code :: "'u slint \<Rightarrow> string list \<Rightarrow> nat \<Rightarrow> 'u tape \<Rightarrow> 'u tape" where
  "type_code L cs after t = fold (\<lambda>c. tap L c after) cs t"

definition confirm_type :: "'u slint \<Rightarrow> 'u tape \<Rightarrow> 'u tape" where
  "confirm_type L t =
     (let t1 = tap L (key_text L Return_Key) (ms 1200) (at_target L 1 t);
          t2 = run_tape L (ms 900) still (type_code L [''0'', ''4'', ''7''] (ms 260) t1);
          t3 = run_tape L (ms 700) still (type_code L [''0'', ''4'', ''8'', ''1''] (ms 300) t2)
      in install_scene L False t3)"

definition confirm_countdown :: "'u slint \<Rightarrow> 'u tape \<Rightarrow> 'u tape" where
  "confirm_countdown L t =
     (let enter = key_text L Return_Key;
          t1 = tap L enter (ms 1200) (at_target L 2 t);
          t2 = tap L (key_text L Escape_Key) (ms 1100) (tap L enter (ms 2300) t1)
      in install_scene L False (tap L enter (ms 5900) t2))"

definition flow :: "'u slint \<Rightarrow> 'u tape \<Rightarrow> 'u tape" where
  "flow L t =
     (let t1 = tap L (key_text L Down_Arrow) (ms 700) (boot L t);
          t2 = tap L (key_text L Return_Key) (ms 1300) (tap L (key_text L Up_Arrow) (ms 900) t1);
          t3 = run_tape L (ms 700) still (type_code L [''0'', ''4'', ''8'', ''1''] (ms 280) t2)
      in install_scene L True t3)"

text \<open>The environment variable and the first argument; \<open>None\<close> is an unknown scene.\<close>

definition fresh_tape :: "string option \<Rightarrow> 'u \<Rightarrow> 'u tape" where
  "fresh_tape buffering u =
     \<lparr>out = [], frame = 0, buffers = replicate 2 (replicate (WIDTH * HEIGHT) BLACK), front = 0,
      swapped = (buffering \<noteq> Some ''new'' \<and> buffering \<noteq> Some ''reused''), ui = u\<rparr>"

definition record_scene :: "'u slint \<Rightarrow> string option \<Rightarrow> string option \<Rightarrow> 'u \<Rightarrow> 'u tape option" where
  "record_scene L buffering argument u =
     (let scene = (case argument of Some s \<Rightarrow> s | None \<Rightarrow> ''boot''); t = fresh_tape buffering u
      in if scene = ''boot'' then Some (boot L t)
         else if scene = ''confirm-hold'' then Some (confirm_hold L t)
         else if scene = ''confirm-type'' then Some (confirm_type L t)
         else if scene = ''confirm-countdown'' then Some (confirm_countdown L t)
         else if scene = ''flow'' then Some (flow L t)
         else None)"

section \<open>How long a recording is\<close>

text \<open>The first frame that is due at \<open>x\<close> nanoseconds or later.\<close>

definition due_frame :: "nat \<Rightarrow> nat" where
  "due_frame x = (60 * x + 999999999) div 1000000000"

lemma frame_time_less: "frame_time n < x \<longleftrightarrow> n < due_frame x"
proof -
  have "frame_time n < x \<longleftrightarrow> n * 1000000000 < 60 * x"
    by (simp add: frame_time_def FPS_def div_less_iff_less_mult mult.commute)
  also have "\<dots> \<longleftrightarrow> Suc n \<le> due_frame x"
    unfolding due_frame_def by (subst less_eq_div_iff_mult_less_eq) auto
  finally show ?thesis by auto
qed

definition ending :: "nat \<Rightarrow> nat \<Rightarrow> nat" where
  "ending duration n = max n (due_frame (frame_time n + duration))"

lemma black_until_frame: "frame (black_until until t) = max (frame t) (due_frame until)"
proof (induction until t rule: black_until.induct)
  case (1 until t)
  show ?case
  proof (cases "now_on t < until")
    case True
    then have "frame t < due_frame until" by (simp add: now_on_def frame_time_less)
    with 1 [OF True] show ?thesis by (subst black_until.simps) (simp add: True)
  next
    case False
    then have "\<not> frame t < due_frame until" by (simp add: now_on_def frame_time_less)
    then show ?thesis by (subst black_until.simps) (simp add: False)
  qed
qed

lemma run_from_frame:
  assumes "0 < duration"
  shows "start \<le> now_on t \<Longrightarrow> frame (run_from L start duration each t) = max (frame t) (due_frame (start + duration))"
proof (induction L start duration each t rule: run_from.induct)
  case (1 L start duration each t)
  show ?case
  proof (cases "now_on t - start < duration")
    case True
    with 1(2) have less: "frame t < due_frame (start + duration)" by (simp add: now_on_def frame_time_less [symmetric])
    have "now_on t \<le> now_on (render L (on_ui (each (now_on t - start)) t))"
      by (simp add: now_on_def frame_time_def div_le_mono)
    with 1 True less show ?thesis by (subst run_from.simps) simp
  next
    case False
    with 1(2) have "\<not> frame t < due_frame (start + duration)" by (simp add: now_on_def frame_time_less [symmetric])
    with False show ?thesis by (subst run_from.simps) simp
  qed
qed

lemma run_tape_frame [simp]: "frame (run_tape L duration each t) = ending duration (frame t)"
proof (cases "duration = 0")
  case True
  then show ?thesis using frame_time_less [of "frame t" "frame_time (frame t)"]
    by (simp add: run_tape_def run_from.simps [of L _ 0] ending_def)
next
  case False
  then show ?thesis by (simp add: run_tape_def run_from_frame ending_def now_on_def)
qed

lemma black_frame [simp]: "frame (black duration t) = ending duration (frame t)"
  by (simp add: black_def black_until_frame ending_def now_on_def)

lemma tape_frames [simp]:
  "frame (press_key L txt b t) = frame t" "frame (tap L txt d t) = ending d (frame t)" "frame (sync_clock L t) = frame t"
  by (simp_all add: press_key_def tap_def sync_clock_def)

text \<open>The lengths of the scenes, in frames.\<close>

definition scene_frames :: "string \<Rightarrow> nat option" where
  "scene_frames scene =
     (if scene = ''boot'' then Some 459
      else if scene = ''confirm-hold'' then Some 486
      else if scene = ''confirm-type'' then Some 498
      else if scene = ''confirm-countdown'' then Some 840
      else if scene = ''flow'' then Some 1115
      else None)"

definition shaped :: "'u tape \<Rightarrow> bool" where
  "shaped t \<longleftrightarrow> front t < 2 \<and> length (buffers t) = 2 \<and> (\<forall>b \<in> set (buffers t). length b = WIDTH * HEIGHT) \<and>
     length (out t) = frame t * (WIDTH * HEIGHT * 3)"

definition draws_whole :: "'u slint \<Rightarrow> bool" where
  "draws_whole L \<longleftrightarrow> (\<forall>u f u' b. draw_if_needed L u = (Some f, u') \<longrightarrow> length (f b) = length b)"

lemma length_pixels: "length (concat (map (\<lambda>p. [red p, green p, blue p]) ps)) = 3 * length ps"
  by (induction ps) simp_all

lemma shaped_push: "shaped t \<Longrightarrow> length ps = WIDTH * HEIGHT \<Longrightarrow> shaped (push ps t)"
  by (simp add: shaped_def push_def length_pixels algebra_simps)

lemma shaped_on_ui [simp]: "shaped (on_ui f t) = shaped t"
  by (simp add: shaped_def on_ui_def)

lemma shaped_black: "shaped t \<Longrightarrow> shaped (black duration t)"
proof -
  have "shaped t \<Longrightarrow> shaped (black_until until t)" for until
    by (induction until t rule: black_until.induct) (subst black_until.simps, simp add: shaped_push)
  then show "shaped t \<Longrightarrow> ?thesis" by (simp add: black_def)
qed

lemma shaped_render:
  assumes "draws_whole L" "shaped t"
  shows "shaped (render L t)"
proof -
  obtain d u where d: "draw_if_needed L (update_animations L (now_on t) (ui t)) = (d, u)" by fastforce
  let ?bg = "if swapped t then 1 - front t else front t"
  have front: "front t < 2" "?bg < 2" "length (buffers t) = 2" using assms(2) by (auto simp: shaped_def)
  then have b: "length (buffers t ! front t) = WIDTH * HEIGHT" "length (buffers t ! ?bg) = WIDTH * HEIGHT"
    using assms(2) nth_mem [of "front t" "buffers t"] nth_mem [of ?bg "buffers t"] by (auto simp: shaped_def)
  show ?thesis
  proof (cases d)
    case None
    then have "render L t = push (buffers t ! front t) (t\<lparr>ui := u\<rparr>)" by (simp add: render_def d Let_def)
    moreover have "shaped (t\<lparr>ui := u\<rparr>)" using assms(2) by (simp add: shaped_def)
    ultimately show ?thesis using shaped_push b(1) by metis
  next
    case (Some f)
    let ?t = "t\<lparr>ui := u, buffers := (buffers t)[?bg := f (buffers t ! ?bg)], front := ?bg\<rparr>"
    have f: "length (f (buffers t ! ?bg)) = WIDTH * HEIGHT" using assms(1) d Some b(2) unfolding draws_whole_def by metis
    have "set ((buffers t)[?bg := f (buffers t ! ?bg)]) \<subseteq> {b. length b = WIDTH * HEIGHT}"
      by (rule set_update_subsetI) (use assms(2) f in \<open>auto simp: shaped_def\<close>)
    then have "shaped ?t" using assms(2) front(2) unfolding shaped_def by auto
    moreover have "render L t = push (f (buffers t ! ?bg)) ?t" using Some front by (simp add: render_def d Let_def)
    ultimately show ?thesis using shaped_push f by metis
  qed
qed

lemma shaped_run: "draws_whole L \<Longrightarrow> shaped t \<Longrightarrow> shaped (run_tape L duration each t)"
proof -
  have "draws_whole L \<Longrightarrow> shaped t \<Longrightarrow> shaped (run_from L start duration each t)" for start
    by (induction L start duration each t rule: run_from.induct) (subst run_from.simps, simp add: shaped_render)
  then show "draws_whole L \<Longrightarrow> shaped t \<Longrightarrow> ?thesis" by (simp add: run_tape_def)
qed

lemma shaped_keys: "shaped (press_key L txt b t) = shaped t" "shaped (sync_clock L t) = shaped t"
  "draws_whole L \<Longrightarrow> shaped t \<Longrightarrow> shaped (tap L txt d t)"
  by (simp_all add: press_key_def sync_clock_def tap_def shaped_run)

lemma shaped_fresh: "shaped (fresh_tape buffering u)"
  by (simp add: shaped_def fresh_tape_def)

lemmas scene_defs = boot_def at_target_def install_scene_def type_code_def confirm_hold_def confirm_type_def
  confirm_countdown_def flow_def Let_def

lemma scenes_shaped:
  assumes "draws_whole L" "shaped t"
  shows "shaped (boot L t)" "shaped (confirm_hold L t)" "shaped (confirm_type L t)" "shaped (confirm_countdown L t)"
    "shaped (flow L t)"
  by (simp_all add: scene_defs shaped_run shaped_keys shaped_black assms)

lemmas frames_eval = scene_defs ending_def due_frame_def frame_time_def FPS_def ms_def

lemma scenes_frames:
  assumes "frame t = 0"
  shows "frame (boot L t) = 459" "frame (confirm_hold L t) = 486" "frame (confirm_type L t) = 498"
    "frame (confirm_countdown L t) = 840" "frame (flow L t) = 1115"
  by (simp_all add: frames_eval assms)

text \<open>
  C40: a recording is exact. Whatever Slint draws, and however fast the machine is, a scene has a length in
  frames of its own, and the output is that many whole frames of 1920 by 1080 pixels in three bytes each;
  an unknown scene records nothing.
\<close>

theorem recording_exact:
  assumes "draws_whole L"
  shows "map_option frame (record_scene L buffering (Some scene) u) = scene_frames scene \<and>
    map_option (\<lambda>t. length (out t)) (record_scene L buffering (Some scene) u) =
      map_option (\<lambda>n. n * 6220800) (scene_frames scene)"
proof -
  let ?t = "fresh_tape buffering u"
  have f: "frame ?t = 0" by (simp add: fresh_tape_def)
  have "length (out t) = frame t * 6220800" if "shaped t" for t :: "'a tape"
    using that by (simp add: shaped_def WIDTH_def HEIGHT_def)
  then show ?thesis
    using scenes_shaped [OF assms shaped_fresh, of buffering u]
    by (simp add: record_scene_def scene_frames_def scenes_frames [OF f] Let_def)
qed

text \<open>A screen that is black once and never drawn again.\<close>

definition plain_slint :: "unit slint" where
  "plain_slint =
     \<lparr>update_animations = (\<lambda>_ _. ()), draw_if_needed = (\<lambda>_. (Some id, ())), dispatch_key = (\<lambda>_ _ _. ()),
      setting = (\<lambda>_ _. ()), new_ui = (\<lambda>_. ()), handle = (\<lambda>_ _ _. ()), show_ui = (\<lambda>_. ()), hide_ui = (\<lambda>_. ()),
      key_text = (\<lambda>_. [CHR 0x0A])\<rparr>"

lemma recording_exact_witness:
  "map_option frame (record_scene plain_slint None (Some ''flow'') ()) = Some 1115 \<and>
   map_option (\<lambda>t. length (out t)) (record_scene plain_slint None (Some ''boot'') ()) = Some 2855347200"
proof -
  have "draws_whole plain_slint" by (simp add: draws_whole_def plain_slint_def)
  from recording_exact [OF this, of None "''flow''" "()"] recording_exact [OF this, of None "''boot''" "()"]
  show ?thesis by (simp add: scene_frames_def)
qed

section \<open>Pictures\<close>

text \<open>
  The state of \<open>preview.rs\<close>: the buffer that is drawn into, the clock, the screen and the pictures saved
  so far. The PNG that holds a picture's bytes is made by a library.
\<close>

record 'u studio =
  canvas :: "pixel list"
  time_now :: nat
  stage_ui :: 'u
  saved :: "(path \<times> 8 word list) list"

definition draw_frame :: "'u slint \<Rightarrow> nat \<Rightarrow> 'u studio \<Rightarrow> 'u studio" where
  "draw_frame L since s =
     (case draw_if_needed L (update_animations L since (stage_ui s)) of
        (drawn, u) \<Rightarrow>
          s\<lparr>time_now := since, stage_ui := u,
            canvas := (case drawn of None \<Rightarrow> canvas s | Some f \<Rightarrow> f (canvas s))\<rparr>)"

function advance_to :: "'u slint \<Rightarrow> nat \<Rightarrow> nat \<Rightarrow> 'u studio \<Rightarrow> 'u studio" where
  "advance_to L since to s =
     (if since < to
      then let next_time = min (since + ms 16) to in advance_to L next_time to (draw_frame L next_time s)
      else s)"
  by pat_completeness auto
termination by (relation "measure (\<lambda>(L, since, to, s). to - since)") (auto simp: ms_def)

declare advance_to.simps [simp del]

definition advance :: "'u slint \<Rightarrow> nat \<Rightarrow> 'u studio \<Rightarrow> 'u studio" where
  "advance L by_time s = advance_to L (time_now s) (time_now s + by_time) s"

lemma advance_time: "time_now (advance L d s) = time_now s + d"
proof -
  have "since \<le> to \<Longrightarrow> time_now s = since \<Longrightarrow> time_now (advance_to L since to s) = to" for since to s
  proof (induction L since to s rule: advance_to.induct)
    case (1 L since to s)
    show ?case
    proof (cases "since < to")
      case True
      have "time_now (draw_frame L (min (since + ms 16) to) s) = min (since + ms 16) to"
        by (simp add: draw_frame_def split: prod.split)
      with 1(1) [OF True refl] True show ?thesis by (subst advance_to.simps) (simp add: Let_def)
    next
      case False
      with 1(2,3) show ?thesis by (subst advance_to.simps) simp
    qed
  qed
  then show ?thesis by (simp add: advance_def)
qed

definition save_picture :: "string \<Rightarrow> 'u studio \<Rightarrow> 'u studio" where
  "save_picture name s =
     s\<lparr>saved := saved s @ [(''preview/'' @ name @ ''.png'', concat (map (\<lambda>p. [red p, green p, blue p]) (canvas s)))]\<rparr>"

definition on_stage :: "('u \<Rightarrow> 'u) \<Rightarrow> 'u studio \<Rightarrow> 'u studio" where
  "on_stage f s = s\<lparr>stage_ui := f (stage_ui s)\<rparr>"

definition preview_ui :: "'u slint \<Rightarrow> 'u \<Rightarrow> 'u" where
  "preview_ui L u =
     settings L [Version ''0.3.5'', Disks sample_disks, Scan_Status ''3 storage devices ready'',
       Image_Status ''PREPARING IMAGE  64%'', Edition ''Fleet''] (new_ui L u)"

definition first_screens :: "(int \<times> string \<times> string) list" where
  "first_screens = [(0, ''Fleet'', ''1a-editorial''), (1, ''Fleet'', ''1b-minimal''), (2, ''Fleet'', ''1c-backdrop''),
     (2, [], ''1d-backdrop-dev'')]"

definition first_screen :: "'u slint \<Rightarrow> int \<times> string \<times> string \<Rightarrow> 'u studio \<Rightarrow> 'u studio" where
  "first_screen L =
     (\<lambda>(variant, edition, name) s.
       let s1 = on_stage (show_ui L) (on_stage (settings L [Attract_Variant variant, Edition edition])
             (on_stage (preview_ui L) s));
           s2 = on_stage (setting L (Presented True)) (advance L (ms 16) s1);
           s3 = save_picture (name @ ''-boot'') (advance L (ms 1484) s2)
       in on_stage (hide_ui L) (save_picture name (advance L (ms 2600) s3)))"

definition picture :: "'u slint \<Rightarrow> setting list \<Rightarrow> nat \<Rightarrow> string \<Rightarrow> 'u studio \<Rightarrow> 'u studio" where
  "picture L ss after name s = save_picture name (advance L after (on_stage (settings L ss) s))"

definition preview_main :: "'u slint \<Rightarrow> 'u \<Rightarrow> 'u studio" where
  "preview_main L u =
     (let s0 = \<lparr>canvas = replicate (WIDTH * HEIGHT) BLACK, time_now = 0, stage_ui = u, saved = []\<rparr>;
          s1 = fold (first_screen L) first_screens s0;
          s2 = on_stage (show_ui L) (on_stage (preview_ui L) s1);
          s3 = picture L [Screen Target, Chosen 0, Image_Status ''IMAGE READY''] (ms 1200) ''2-target'' s2;
          s4 = picture L [Screen Confirm] (ms 800) ''3-confirm'' s3;
          s5 = on_stage (setting L (Typed 0)) (picture L [Typed 2] (ms 500) ''4-typing'' s4);
          s6 = picture L [Screen Installing, Progress (f32 (62 / 100)), Stage_Shown ''WRITING'', Detail_Shown ''1.84 GB/s'',
            Summary_Target ''/dev/nvme0n1''] (ms 500) ''5-install'' s5
      in picture L (Screen Summary # finished_settings ''carbideos 0.3.5'') (ms 1400) ''6-summary'' s6)"

end
