(* ===== verification/Server.thy ===== *)
theory Server
  imports Exclusion
begin

text \<open>
  The server of \<open>agent/src/api.rs\<close>: \<open>serve\<close> accepts connections and gives each a thread of its own. Here
  a connection is a worker that takes \<open>serve_connection\<close> in the steps between which other threads and other
  processes can meet the operation lock, and the server a step relation over all of them.
\<close>

section \<open>Starting\<close>

text \<open>\<open>UnixListener::bind\<close> makes a new name for the socket.\<close>

definition bind_socket :: "path \<Rightarrow> ('e, io_error + unit) io" where
  "bind_socket p =
     prim nothing (\<lambda>w.
       if exists_path w p then (Err (IoError OtherIo ''Address already in use (os error 98)''), w)
       else if \<not> has_parent w p then (Err not_found, w)
       else (Ok (), new_file p w))"

text \<open>\<open>serve\<close> up to its loop; \<open>listen_fds\<close> is the variable of that name in the environment.\<close>

definition serve_start :: "('e, 'v) platform \<Rightarrow> string option \<Rightarrow> string option \<Rightarrow> ('e, string + unit) io" where
  "serve_start P listen_fds path =
     bind (fs_create_dir_all STAGING_DIR) (\<lambda>_.
     bind (load_state P) (\<lambda>_.
       case path of
         Some p \<Rightarrow>
           bind (fs_remove_file p) (\<lambda>_.
           mapping_err (\<lambda>e. ''could not bind '' @ p @ '': '' @ io_text e) (bind_socket p))
       | None \<Rightarrow>
           if trim (case listen_fds of Some n \<Rightarrow> n | None \<Rightarrow> []) \<noteq> ''1''
           then ret (Err ''expected exactly one socket from systemd'')
           else ret (Ok ())))"

section \<open>Workers\<close>

text \<open>
  A worker has its request line or the error of reading it; wants the lock for an operation; holds it;
  has the reply and still the lock; has the reply; has written it, if it could be encoded.
\<close>

datatype ('e, 'v) worker =
    Reading "io_error + string"
  | Taking "('e, 'v reply) io"
  | Holding nat "('e, 'v reply) io"
  | Releasing nat "'v reply"
  | Writing "'v reply"
  | Closed "string option"

text \<open>The operation of a request that \<open>dispatch\<close> runs under the lock.\<close>

definition privileged :: "('e, 'v) platform \<Rightarrow> 'v \<Rightarrow> ('e, 'v reply) io option" where
  "privileged P request =
     (case field_text P request ''command'' of
        None \<Rightarrow> None
      | Some c \<Rightarrow>
          if c = ''stage-extension'' then Some (api_stage_extension P request)
          else if c = ''activate-extension'' then Some (api_activate_extension P request)
          else if c = ''stage-base'' then Some (api_stage_base P request)
          else None)"

fun worker_step :: "('e, 'v) platform \<Rightarrow> ('e, 'v) worker \<Rightarrow> ('e, ('e, 'v) worker) io" where
  "worker_step P (Reading received) =
     (case received of
        Inl _ \<Rightarrow> ret (Closed None)
      | Inr line \<Rightarrow>
          (case json_parse P (trim line) of
             Inl e \<Rightarrow> ret (Writing (reply_failed (new_failure Malformed (''unreadable request: '' @ e))))
           | Inr request \<Rightarrow>
               (case privileged P request of
                  Some operation \<Rightarrow> ret (Taking operation)
                | None \<Rightarrow> bind (dispatch P request) (\<lambda>reply. ret (Writing reply)))))"
| "worker_step P (Taking operation) =
     bind try_acquire (\<lambda>r. ret (case r of
         Inl e \<Rightarrow> Writing (reply_failed (new_failure Failed (''could not acquire operation lock: '' @ io_text e)))
       | Inr None \<Rightarrow> Writing busy
       | Inr (Some l) \<Rightarrow> Holding l operation))"
| "worker_step P (Holding l operation) =
     bind (bind (reconcile_state P) (\<lambda>reconciled.
         case reconciled of
           Inl e \<Rightarrow> ret (reply_failed (new_failure Failed (''could not reconcile interrupted work: '' @ e)))
         | Inr _ \<Rightarrow> operation)) (\<lambda>reply. ret (Releasing l reply))"
| "worker_step P (Releasing l reply) = bind (drop_lock l) (\<lambda>_. ret (Writing reply))"
| "worker_step P (Writing reply) = ret (Closed (map_option (\<lambda>b. b @ [CHR 0x0A]) (encode_reply P reply)))"
| "worker_step P (Closed sent) = ret (Closed sent)"

fun worker_run :: "('e, 'v) platform \<Rightarrow> nat \<Rightarrow> ('e, 'v) worker \<Rightarrow> ('e, ('e, 'v) worker) io" where
  "worker_run P 0 k = ret k"
| "worker_run P (Suc n) k = bind (worker_step P k) (worker_run P n)"

fun answer :: "('e, 'v) worker \<Rightarrow> string option" where
  "answer (Closed sent) = sent"
| "answer _ = None"

lemma worker_run_Closed: "worker_run P n (Closed sent) = ret (Closed sent)"
  by (induction n) simp_all

lemma worker_run_Writing:
  "worker_run P (Suc n) (Writing reply) = ret (Closed (map_option (\<lambda>b. b @ [CHR 0x0A]) (encode_reply P reply)))"
  by (simp add: worker_run_Closed)

lemma privileged_dispatch:
  "privileged P request = Some operation \<Longrightarrow> dispatch P request = exclusive P operation"
  by (auto simp: privileged_def dispatch_def split: option.splits if_splits)

text \<open>What a privileged request does is what its worker does from wanting the lock on.\<close>

lemma worker_run_Taking:
  "bind (worker_run P 4 (Taking operation)) (\<lambda>k. ret (answer k)) =
     bind (exclusive P operation) (\<lambda>reply. ret (map_option (\<lambda>b. b @ [CHR 0x0A]) (encode_reply P reply)))"
  by (rule ext)
    (auto simp: eval_nat_numeral exclusive_def bind_def ret_def split: outcome.splits prod.splits sum.splits option.splits)



section \<open>The server\<close>

text \<open>
  \<open>elsewhere\<close> says that another process has the lock; \<open>running\<close> ends when a thread panics, which aborts the
  process, or the power goes.
\<close>

record ('e, 'v) server =
  machine :: "'e world"
  workers :: "('e, 'v) worker list"
  incoming :: "(io_error + (io_error + string)) list"
  elsewhere :: bool
  running :: bool

inductive server_step :: "('e, 'v) platform \<Rightarrow> ('e, 'v) server \<Rightarrow> ('e, 'v) server \<Rightarrow> bool" for P where
  accept: "running s \<Longrightarrow> incoming s = Inr received # rest \<Longrightarrow>
    server_step P s (s\<lparr>incoming := rest, workers := workers s @ [Reading received]\<rparr>)"
| refuse: "running s \<Longrightarrow> incoming s = Inl e # rest \<Longrightarrow>
    say (''carbide-agent: connection failed: '' @ io_text e) (machine s) = (r, w') \<Longrightarrow>
    server_step P s (s\<lparr>incoming := rest, machine := w'\<rparr>)"
| work: "running s \<Longrightarrow> i < length (workers s) \<Longrightarrow> worker_step P (workers s ! i) (machine s) = (Done k, w') \<Longrightarrow>
    server_step P s (s\<lparr>workers := (workers s)[i := k], machine := w'\<rparr>)"
| die: "running s \<Longrightarrow> i < length (workers s) \<Longrightarrow> worker_step P (workers s ! i) (machine s) = (Stopped x, w') \<Longrightarrow>
    server_step P s (s\<lparr>machine := w', running := False\<rparr>)"
| other_takes: "\<not> lock_taken (machine s) \<Longrightarrow>
    server_step P s (s\<lparr>elsewhere := True, machine := (machine s)\<lparr>lock_taken := True\<rparr>\<rparr>)"
| other_works: "elsewhere s \<Longrightarrow> lock_taken w' \<Longrightarrow> server_step P s (s\<lparr>machine := w'\<rparr>)"
| other_releases: "elsewhere s \<Longrightarrow>
    server_step P s (s\<lparr>elsewhere := False, machine := (machine s)\<lparr>lock_taken := False\<rparr>\<rparr>)"

fun holds :: "('e, 'v) worker \<Rightarrow> bool" where
  "holds (Holding l operation) = True"
| "holds (Releasing l reply) = True"
| "holds _ = False"

fun wants :: "('e, 'v) worker \<Rightarrow> ('e, 'v reply) io option" where
  "wants (Taking operation) = Some operation"
| "wants (Holding l operation) = Some operation"
| "wants _ = None"

text \<open>Whatever a worker wants to do under the lock came from a request.\<close>

definition from_request :: "('e, 'v) platform \<Rightarrow> ('e, 'v) worker \<Rightarrow> bool" where
  "from_request P k \<longleftrightarrow> (case wants k of None \<Rightarrow> True | Some operation \<Rightarrow> \<exists>request. privileged P request = Some operation)"

definition holders :: "('e, 'v) server \<Rightarrow> nat" where
  "holders s = length (filter holds (workers s)) + (if elsewhere s then 1 else 0)"

definition exclusion :: "('e, 'v) platform \<Rightarrow> ('e, 'v) server \<Rightarrow> bool" where
  "exclusion P s \<longleftrightarrow> (running s \<longrightarrow>
     holders s = (if lock_taken (machine s) then 1 else 0) \<and> list_all (from_request P) (workers s))"

lemma privileged_keeps_lock:
  "obeys P (lock_is b) \<Longrightarrow> privileged P request = Some operation \<Longrightarrow> keeps (lock_is b) operation"
  using lock_held.keeps_commands(3-5) [of P b request]
  by (auto simp: privileged_def keeps_def split: option.splits if_splits)

lemma unprivileged_dispatch:
  assumes "\<forall>b. obeys P (lock_is b)" "dispatch P request w = (Done reply, w')"
  shows "lock_taken w' = lock_taken w"
  using restores_dispatch [OF assms(1)] assms(2) by (simp add: restores_def)

text \<open>A step of a worker passes the lock on: it is taken and released with the worker's hold on it.\<close>

lemma worker_step_lock:
  assumes o: "\<forall>b. obeys P (lock_is b)" and k: "from_request P k" "holds k \<Longrightarrow> lock_taken w"
    and run: "worker_step P k w = (Done k', w')"
  shows "from_request P k' \<and>
    (if holds k then holds k' = lock_taken w'
     else if holds k' then \<not> lock_taken w \<and> lock_taken w' else lock_taken w' = lock_taken w)"
proof (cases k)
  case (Reading received)
  with run o show ?thesis
    by (auto simp: from_request_def ret_def bind_Done_iff split: sum.splits option.splits dest: unprivileged_dispatch)
next
  case (Taking operation)
  with run obtain q where q: "try_acquire w = (Done q, w')"
    and k': "k' = (case q of
         Inl e \<Rightarrow> Writing (reply_failed (new_failure Failed (''could not acquire operation lock: '' @ io_text e)))
       | Inr None \<Rightarrow> Writing busy
       | Inr (Some l) \<Rightarrow> Holding l operation)"
    by (auto simp: bind_Done_iff ret_def)
  from try_acquire_cases [OF q] k(1) Taking k' show ?thesis
    by (auto simp: from_request_def split: sum.splits option.splits)
next
  case (Holding l operation)
  with k(1) obtain request where "privileged P request = Some operation" by (auto simp: from_request_def)
  with o have "keeps (lock_is True) operation" by (blast intro: privileged_keeps_lock)
  then have "keeps (lock_is True) (worker_step P k)"
    unfolding Holding worker_step.simps by (intro keeps_intros lock_reconcile o [rule_format])
  from keepsD [OF this _ run] k(2) have "lock_taken w'" using Holding by (simp add: lock_is_def)
  moreover from run Holding obtain reply where "k' = Releasing l reply" by (auto simp: bind_Done_iff ret_def)
  ultimately show ?thesis using Holding by (simp add: from_request_def)
next
  case (Releasing l reply)
  with run show ?thesis by (auto simp: from_request_def drop_lock_def bind_def ret_def)
qed (use run k(1) in \<open>auto simp: from_request_def ret_def\<close>)

lemma holders_update:
  assumes "i < length ks"
  shows "length (filter holds (ks[i := k])) + (if holds (ks ! i) then 1 else 0) =
    length (filter holds ks) + (if holds k then 1 else 0)"
  using assms
proof (induction ks arbitrary: i)
  case (Cons x ks)
  then show ?case by (cases i) auto
qed simp

lemma exclusion_step:
  assumes o: "\<forall>b. obeys P (lock_is b)"
  shows "server_step P s s' \<Longrightarrow> exclusion P s \<Longrightarrow> exclusion P s'"
proof (induction rule: server_step.induct)
  case (work s i k w')
  have k: "from_request P (workers s ! i)" using work by (simp add: exclusion_def list_all_length)
  have h: "lock_taken (machine s)" if "holds (workers s ! i)"
  proof -
    have "workers s ! i \<in> set (filter holds (workers s))" using that work(2) by simp
    then have "0 < length (filter holds (workers s))" by (metis length_pos_if_in_set)
    then show ?thesis using work(1,4) by (auto simp: exclusion_def holders_def split: if_splits)
  qed
  from worker_step_lock [OF o k h work(3)] holders_update [OF work(2), of k] work(1,2,4) h
  show ?case
    by (auto simp: exclusion_def holders_def list_all_length nth_list_update split: if_splits)
qed (auto simp: exclusion_def holders_def from_request_def say_def split: if_splits)


text \<open>
  C6: at most one of all the threads of the server and the other processes holds the operation lock, at every
  moment of every interleaving. From a start without connections, whatever comes in and however the threads
  and the other processes take turns, the lock is taken exactly if one of them holds it, and then no other
  does: two privileged operations never overlap.
\<close>

theorem operations_never_overlap:
  assumes "\<forall>b. obeys P (\<lambda>x. lock_taken x = b)" "workers s = []" "elsewhere s \<longleftrightarrow> lock_taken (machine s)"
    and "(server_step P)\<^sup>*\<^sup>* s s'" "running s'"
  shows "length (filter holds (workers s')) + (if elsewhere s' then 1 else 0) = (if lock_taken (machine s') then 1 else 0)"
proof -
  have o: "\<forall>b. obeys P (lock_is b)" using assms(1) by (simp add: lock_is_def [abs_def])
  have "exclusion P s" using assms(2,3) by (simp add: exclusion_def holders_def)
  from assms(4) this have "exclusion P s'"
    by (induction rule: rtranclp_induct) (auto intro: exclusion_step [OF o])
  with assms(5) show ?thesis by (simp add: exclusion_def holders_def)
qed

text \<open>Two requests to stage a base: the first gets the lock, the second is told that the agent is busy.\<close>

definition two_requests :: "(unit, string list) server" where
  "two_requests = \<lparr>machine = staging_world ''new'', workers = [],
     incoming = [Inr (Inr ''stage-base''), Inr (Inr ''stage-base'')], elsewhere = False, running = True\<rparr>"


text \<open>A schedule: accept the next connection, or let a worker take its step.\<close>

fun drive :: "('e, 'v) platform \<Rightarrow> nat option list \<Rightarrow> ('e, 'v) server \<Rightarrow> ('e, 'v) server option" where
  "drive P [] s = Some s"
| "drive P (None # turns) s =
     (case incoming s of
        Inr received # rest \<Rightarrow>
          if running s then drive P turns (s\<lparr>incoming := rest, workers := workers s @ [Reading received]\<rparr>) else None
      | _ \<Rightarrow> None)"
| "drive P (Some i # turns) s =
     (if running s \<and> i < length (workers s)
      then (case worker_step P (workers s ! i) (machine s) of
          (Done k, w') \<Rightarrow> drive P turns (s\<lparr>workers := (workers s)[i := k], machine := w'\<rparr>)
        | (Stopped _, _) \<Rightarrow> None)
      else None)"

lemma drive_steps: "drive P turns s = Some s' \<Longrightarrow> (server_step P)\<^sup>*\<^sup>* s s'"
proof (induction turns arbitrary: s)
  case (Cons turn turns)
  show ?case
  proof (cases turn)
    case None
    with Cons show ?thesis
      by (auto split: list.splits sum.splits if_splits intro: converse_rtranclp_into_rtranclp accept)
  next
    case (Some i)
    with Cons show ?thesis
      by (auto split: prod.splits outcome.splits if_splits intro: converse_rtranclp_into_rtranclp work)
  qed
qed simp

lemma operations_never_overlap_witness:
  "case drive staging_platform [None, None, Some 0, Some 1, Some 0, Some 1] two_requests of
     Some s \<Rightarrow> map holds (workers s) = [True, False] \<and> lock_taken (machine s) \<and>
       length (filter holds (workers s)) + (if elsewhere s then 1 else 0) = 1
   | None \<Rightarrow> False"
proof -
  let ?d = "drive staging_platform [None, None, Some 0, Some 1, Some 0, Some 1] two_requests"
  have "case ?d of Some s \<Rightarrow> map holds (workers s) = [True, False] \<and> lock_taken (machine s) \<and> running s | None \<Rightarrow> False"
    by code_simp
  then obtain s where s: "?d = Some s" "map holds (workers s) = [True, False]" "lock_taken (machine s)" "running s"
    by (auto split: option.splits)
  have "workers two_requests = []" "elsewhere two_requests = lock_taken (machine two_requests)"
    by (simp_all add: two_requests_def staging_world_def)
  from operations_never_overlap [OF allI [OF staging_lock] this drive_steps [OF s(1)] s(4)] s(3)
  show ?thesis unfolding s(1) option.case by (simp add: s(2,3))
qed

end
