(* ===== verification/Staging.thy ===== *)
theory Staging
  imports Confinement Feed
begin

text \<open>
  What staging an extension guarantees, \<open>stage_extension\<close> of \<open>agent/src/ops.rs\<close>: the image that it reports as
  staged is the one that was checked, whoever supplied it, and it is where the report says, durably.
\<close>

section \<open>The staging directory\<close>

text \<open>A path that the tools, which are given it as text, find again.\<close>

definition within_staging :: "path \<Rightarrow> bool" where
  "within_staging p \<longleftrightarrow> starts_with (STAGING_DIR @ ''/'') p \<and> lossy p = p"

lemma dropWhile_keeps_tail: "\<not> Q c \<Longrightarrow> length (dropWhile Q (xs @ c # ys)) \<ge> length (c # ys)"
  by (induction xs) auto

lemma within_staging_parent:
  assumes "within_staging p"
  shows "parent p \<noteq> Some EXTENSIONS_DIR"
proof
  assume *: "parent p = Some EXTENSIONS_DIR"
  obtain x where "p = STAGING_DIR @ CHR ''/'' # x"
    using assms by (auto simp: within_staging_def starts_with_iff)
  then have "length (dir_part p) \<ge> length (CHR ''/'' # rev STAGING_DIR)"
    using dropWhile_keeps_tail [of "\<lambda>c. c \<noteq> CHR ''/''" "CHR ''/''" "rev STAGING_DIR" "rev x"] by (simp add: dir_part_def)
  moreover have "dir_part p = ''/'' \<and> EXTENSIONS_DIR = ''/'' \<or> butlast (dir_part p) = EXTENSIONS_DIR"
    using * by (auto simp: parent_def split: if_splits)
  then have "length (dir_part p) \<le> Suc (length EXTENSIONS_DIR)"
    by (cases "dir_part p" rule: rev_cases) auto
  ultimately show False by (simp add: STAGING_DIR_def EXTENSIONS_DIR_def)
qed

lemma within_staging_join:
  assumes "version_valid name" "plain x"
  shows "within_staging (join STAGING_DIR (name @ x))"
proof -
  obtain c s where "name = c # s" "c \<noteq> CHR ''/''"
    using assms by (cases name) (auto simp: version_valid_def dest: version_char_facts)
  then have j: "join STAGING_DIR (name @ x) = STAGING_DIR @ ''/'' @ name @ x"
    by (simp add: join_def STAGING_DIR_def starts_with_def)
  have "ascii STAGING_DIR" "ascii ''/''" by code_simp+
  then have "ascii (STAGING_DIR @ ''/'' @ name @ x)"
    using plain_ascii [OF assms(2)] plain_ascii [OF version_valid_plain [OF assms(1)]]
    by (simp only: ascii_def list_all_append simp_thms)
  then show ?thesis
    unfolding within_staging_def j using starts_with_append [of "STAGING_DIR @ ''/''" "name @ x"]
    by (simp add: lossy_ascii)
qed

lemma slots_outside_staging:
  assumes "version_valid name"
  shows "\<not> within_staging (scoped_active_path name base)" "\<not> within_staging (candidate_path name v w)"
proof -
  obtain c s where n: "name = c # s" "c \<noteq> CHR ''/''" "c \<noteq> CHR ''.''"
  proof (cases name)
    case (Cons c s)
    moreover have "\<not> is_ascii_alphanumeric (CHR ''/'')" "\<not> is_ascii_alphanumeric (CHR ''.'')" by code_simp+
    ultimately show ?thesis using assms that by (auto simp: version_valid_def)
  qed (use assms in \<open>simp add: version_valid_def\<close>)
  have "\<not> within_staging (join EXTENSIONS_DIR (name @ x))" for x
    using n by (simp add: within_staging_def join_def STAGING_DIR_def EXTENSIONS_DIR_def starts_with_def)
  then show "\<not> within_staging (scoped_active_path name base)" "\<not> within_staging (candidate_path name v w)"
    by (simp_all add: scoped_active_path_def candidate_path_def)
qed

text \<open>A directory that is pruned loses only what lies right under it.\<close>

lemma keeps_prune_elsewhere:
  assumes "parent p \<noteq> Some d"
  shows "keeps (stays p u) (prune_matching_in d prefix suffix keep)"
proof -
  note entries = yields_returns [OF keeps_fs_reading(9) [OF steady_stays] next_entry_returns]
  have loop: "list_all (\<lambda>e. parent e = Some d) es \<Longrightarrow>
      yields (stays p u) (\<lambda>_. True) (prune_entries prefix suffix keep changed es)" for es changed
  proof (induction es arbitrary: changed)
    case (Cons e es)
    then have "p \<noteq> e" using assms by auto
    show ?case
      unfolding prune_entries.simps Let_def
      by (rule yields_and_then_info [OF entries])
        (use Cons \<open>p \<noteq> e\<close> in \<open>auto intro!: yields_and_then_keeps keeps_remove_file\<close>)
  qed (simp add: yields_ret)
  show ?thesis
    unfolding prune_matching_in_def sync_if_def
    by (rule yields_keeps, rule yields_and_then_info [OF yields_returns [OF keeps_fs_reading(8) [OF steady_stays] read_dir_returns]])
      (auto intro!: yields_any keeps_intros yields_keeps [OF loop])
qed

section \<open>Placing the image that was checked\<close>

text \<open>
  The programs keep the file system coherent, and none but \<open>systemd-sysupdate\<close> touches what lies in the
  staging directory.
\<close>

definition secluded :: "('e, 'v) platform \<Rightarrow> bool" where
  "secluded P \<longleftrightarrow>
     (\<forall>c. keeps coherent (exec P c)) \<and>
     (\<forall>c p u. program c \<noteq> SYSUPDATE \<longrightarrow> within_staging p \<longrightarrow> keeps (stays p u) (exec P c))"

lemma keeps_coherent: "(\<And>u. keeps (stays p u) m) \<Longrightarrow> keeps coherent m"
  by (rule keeps_through_stays [of p]) (auto simp: stays_def)

lemma keeps_capture_has_bytes:
  assumes "secluded P" "within_staging p" "prog \<noteq> SYSUPDATE"
  shows "keeps (has_bytes p z) (capture P prog args)" "keeps (has_bytes p z) (exec P (plain_command prog args))"
proof -
  have "keeps (stays p u) (exec P (plain_command prog args))" for u
    using assms by (simp add: secluded_def plain_command_def)
  then show *: "keeps (has_bytes p z) (exec P (plain_command prog args))" by (rule keeps_has_bytes)
  show "keeps (has_bytes p z) (capture P prog args)"
    unfolding capture_def run_def by (intro keeps_and_then keeps_ret *)
qed

lemma keeps_checks:
  assumes "secluded P" "within_staging p"
  shows "keeps (has_bytes p z) (validate_image P q)" "keeps (has_bytes p z) (read_image_release P q)"
    "keeps (has_bytes p z) (sha256 P q)" "keeps (has_bytes p z) (require_space P n)"
    "keeps (has_bytes p z) (missing_rollback_size P name)" "keeps (has_bytes p z) (prune_candidates name keep)"
    "keeps (has_bytes p z) (durable_mode q k)"
proof -
  note caps = keeps_capture_has_bytes [OF assms]
  have st: "steady (has_bytes p z)" by (rule steady_has_bytes)
  show "keeps (has_bytes p z) (validate_image P q)" "keeps (has_bytes p z) (read_image_release P q)"
    "keeps (has_bytes p z) (sha256 P q)" "keeps (has_bytes p z) (require_space P n)"
    unfolding validate_image_def read_image_release_def sha256_def require_space_def available_bytes_def Let_def
    by (intro keeps_intros caps; simp add: DISSECT_def SYSUPDATE_def)+
  show "keeps (has_bytes p z) (missing_rollback_size P name)"
    unfolding missing_rollback_size_def by (intro keeps_intros st)
  show "keeps (has_bytes p z) (prune_candidates name keep)"
    unfolding prune_candidates_def
    by (intro keeps_has_bytes keeps_intros keeps_prune_elsewhere within_staging_parent assms)
  show "keeps (has_bytes p z) (durable_mode q k)"
    by (rule keeps_durable_mode [OF st]) (auto intro: keeps_has_bytes keeps_intros simp: has_bytes_set_inode)
qed

lemma durable_move_publishes:
  assumes "durable_move s t w = (Done (Ok x), w')" "has_bytes s (Some b) w" "length b < 2 ^ 64"
    and "\<not> temporary t" "s \<noteq> t"
  shows "published b t w'"
proof -
  obtain y w1 where run: "durable_copy s t w = (Done (Ok y), w1)" "durable_remove s w1 = (Done (Ok x), w')"
    using assms(1) by (auto simp: durable_move_def and_then_Ok_iff)
  have "coherent w" "bytes_at w s = Some b" using assms(2) by (simp_all add: has_bytes_def)
  with copying.outcome(2) [OF assms(4) _ _ run(1), of b] assms(3) have "published b t w1" by simp
  moreover have "keeps (published b t) (durable_remove s)"
    by (rule keeps_published, rule keeps_durable_remove) (use assms(5) in simp)
  ultimately show ?thesis using keepsD run(2) by blast
qed

lemma place_image_publishes:
  assumes "secluded P" "within_staging staging" "\<not> within_staging target" "slot_like target" "\<not> temporary target"
    and "place_image P name staging target running v w = (Done (Ok x), w')"
    and "has_bytes staging (Some b) w" "length b < 2 ^ 64"
  shows "published b target w'"
proof -
  note k = keeps_checks [OF assms(1,2)]
  from assms(6) obtain n w1 r w2 y w3 z w4 a w5 c w6 where run: "fs_metadata_len staging w = (Done (Ok n), w1)"
      "(if running then mapping_err (io_failure Checking []) (missing_rollback_size P name) else ret (Ok 0)) w1 = (Done (Ok r), w2)"
      "require_space P (activation_space n r) w2 = (Done (Ok y), w3)"
      "(if running then mapping_err (io_failure Staging ''could not prune old candidates: '') (prune_candidates name None)
        else ret (Ok ())) w3 = (Done (Ok z), w4)"
      "durable_mode staging 420 w4 = (Done (Ok a), w5)" "durable_move staging target w5 = (Done (Ok c), w6)"
    and rest: "(if running then (case v of Some v \<Rightarrow> record_candidate P name v target | None \<Rightarrow> stop (Panicked ''checked above''))
       else ret (Ok ())) w6 = (Done (Ok x), w')"
    unfolding place_image_def and_then_Ok_iff mapping_err_Ok_iff by blast
  have "keeps (has_bytes staging (Some b)) (fs_metadata_len staging)" by (intro keeps_intros steady_has_bytes)
  then have "has_bytes staging (Some b) w1" using assms(7) run(1) by (rule keepsD)
  then have "has_bytes staging (Some b) w2"
    using keepsD [OF k(5)] run(2) by (auto simp: mapping_err_Ok_iff ret_def split: if_splits)
  then have "has_bytes staging (Some b) w3" using run(3) by (rule keepsD [OF k(4)])
  then have "has_bytes staging (Some b) w4"
    using keepsD [OF k(6)] run(4) by (auto simp: mapping_err_Ok_iff ret_def split: if_splits)
  then have "has_bytes staging (Some b) w5" using run(5) by (rule keepsD [OF k(7)])
  then have w6: "published b target w6"
    using durable_move_publishes [OF run(6) _ assms(8,5)] assms(2,3) by auto
  show ?thesis
  proof (cases "running \<and> v \<noteq> None")
    case True
    then obtain u s w7 e w8 where rec: "load_state P w6 = (Done (Ok s), w7)" "store P u w7 = (Done (Ok e), w')"
      using rest by (auto simp: record_candidate_def and_then_Ok_iff mapping_err_Ok_iff bind_Done_iff ret_def split: sum.splits)
    have "keeps (published b target) (load_state P)" by (intro keeps_published keeps_intros steady_stays)
    then have "published b target w7" using w6 rec(1) by (rule keepsD)
    moreover have "target \<noteq> state_path" "target \<noteq> state_staging"
      using assms(4,5) foreign_paths(2) state_paths(1) by (auto simp: foreign_slot_like)
    then have "keeps (published b target) (store P u)" by (intro keeps_published keeps_store)
    ultimately show ?thesis using keepsD rec(2) by blast
  next
    case False
    with rest w6 show ?thesis by (auto simp: ret_def stop_def split: option.splits if_splits)
  qed
qed


text \<open>
  The slot of an image that declares \<open>base\<close>: the active one, which only a boot of that base reads, or one for
  a candidate, which waits for its activation.
\<close>

definition slot_for :: "string \<Rightarrow> string \<Rightarrow> string option \<Rightarrow> path" where
  "slot_for name base v = join EXTENSIONS_DIR (name @ ''_'' @ base @ ''.raw'' @
     (case v of None \<Rightarrow> [] | Some v \<Rightarrow> ''.'' @ v @ ''.candidate''))"

lemma slot_for_slots:
  "slot_for name base None = scoped_active_path name base"
  "scope w = base \<Longrightarrow> slot_for name base (Some v) = candidate_path name v w"
  by (simp_all add: slot_for_def scoped_active_path_def candidate_path_def)

definition fitting ::
  "(string \<Rightarrow> bool) \<Rightarrow> (string \<Rightarrow> image_release \<Rightarrow> bool) \<Rightarrow> string \<Rightarrow> string \<Rightarrow> string \<Rightarrow> bool" where
  "fitting trusted declares name base b \<longleftrightarrow>
     trusted b \<and> (\<exists>r. declares b r \<and> release_name r = Some name \<and> release_base r = Some base)"

lemma check_release_Ok:
  "check_release name requested r = Ok base \<Longrightarrow>
     release_name r = Some name \<and> release_base r = Some base \<and> version_valid base \<and>
     (requested = None \<or> requested = Some base) \<and> r \<noteq> no_release"
  by (auto simp: check_release_def no_release_def split: if_splits option.splits)

lemma lossy_slot:
  assumes "plain n" "n \<noteq> []"
  shows "lossy (join EXTENSIONS_DIR n) = join EXTENSIONS_DIR n"
proof -
  have "join EXTENSIONS_DIR n = ''/var/lib/extensions/'' @ n"
    using assms plain_no_slash [OF assms(1)] by (simp add: EXTENSIONS_DIR_def path_simps)
  moreover have "ascii ''/var/lib/extensions/''" by code_simp
  ultimately have "ascii (join EXTENSIONS_DIR n)" using plain_ascii [OF assms(1)] by (simp only: ascii_def list_all_append simp_thms)
  then show ?thesis by (rule lossy_ascii)
qed

lemma slot_target:
  assumes "version_valid name" "version_valid base" "os_version w = Some base \<and> v \<noteq> None \<and> version_valid (the v) \<or> v = None"
  shows "lossy (slot_for name base v) = slot_for name base v" "parent (slot_for name base v) = Some EXTENSIONS_DIR"
    "\<not> within_staging (slot_for name base v)" "slot_like (slot_for name base v)" "\<not> temporary (slot_for name base v)"
proof -
  let ?n = "name @ ''_'' @ base @ ''.raw'' @ (case v of None \<Rightarrow> [] | Some v \<Rightarrow> ''.'' @ v @ ''.candidate'')"
  have dot: "plain ''.''" by code_simp
  note p = version_valid_plain [OF assms(1)] version_valid_plain [OF assms(2)]
  have n: "plain ?n" "?n \<noteq> []"
    using assms(3) p dot version_valid_plain by (auto simp only: plain_append plain_literals split: option.split) auto
  show "parent (slot_for name base v) = Some EXTENSIONS_DIR"
    unfolding slot_for_def by (rule plain_slot(3) [OF n])
  show "lossy (slot_for name base v) = slot_for name base v" unfolding slot_for_def by (rule lossy_slot [OF n])
  have "v = None \<or> (\<exists>x. v = Some x \<and> slot_for name base v = candidate_path name x w)"
    using assms(3) slot_for_slots(2) [of w base name] by (cases v) (auto simp: scope_def)
  then show "\<not> within_staging (slot_for name base v)" "slot_like (slot_for name base v)" "\<not> temporary (slot_for name base v)"
    using slots_outside_staging [OF assms(1)] slot_like_slots temporary_slots slot_for_slots(1) by metis+
qed


text \<open>The image that is placed is one that fits, and it was in the staging directory.\<close>

lemma validated_placed:
  assumes "secluded P" "trustworthy P staging trusted declares" "\<forall>b. trusted b \<longrightarrow> length b < 2 ^ 64"
    and "version_valid name" "within_staging staging" "coherent w"
    and "validate_and_place P name requested staging w = (Done (Ok pl), w')"
  obtains b v where "bytes_at w staging = Some b" "fitting trusted declares name (placed_base pl) b"
    "requested = None \<or> requested = Some (placed_base pl)"
    "placed_path pl = slot_for name (placed_base pl) v" "published b (slot_for name (placed_base pl) v) w'"
    "parent (slot_for name (placed_base pl) v) = Some EXTENSIONS_DIR" "\<not> within_staging (slot_for name (placed_base pl) v)"
    "placed_for_running_base pl = (v \<noteq> None)"
proof -
  note k = keeps_checks [OF assms(1,5)]
  let ?tail = "\<lambda>rel base. bind (reads os_version) (\<lambda>running.
      let now = (running = Some base);
          declared = (case release_version rel of Some v \<Rightarrow> if version_valid v then Some v else None | None \<Rightarrow> None)
      in and_then
           (if now
            then case declared of
                None \<Rightarrow> ret (Err (at Validating (new_failure Failed (name @ '' declares no usable extension version''))))
              | Some v \<Rightarrow> bind (reads (candidate_path name v)) (\<lambda>p. ret (Ok p))
            else ret (Ok (scoped_active_path name base))) (\<lambda>target.
         and_then (place_image P name staging target now declared) (\<lambda>_.
         ret (Ok \<lparr>placed_path = lossy target, placed_base = base, placed_extension_version = declared,
           placed_for_running_base = now\<rparr>))))"
  from assms(7) obtain f w1 rel w2 where run: "validate_image P staging w = (Done (Ok f), w1)" "finished_ok f"
      "read_image_release P staging w1 = (Done (Ok rel), w2)"
    and tail: "(case check_release name requested rel of Inl e \<Rightarrow> ret (Err e) | Inr base \<Rightarrow> ?tail rel base) w2 = (Done (Ok pl), w')"
    unfolding validate_and_place_def by (auto simp: and_then_Ok_iff mapping_err_Ok_iff ret_def split: if_splits)
  from tail obtain base where check: "check_release name requested rel = Ok base"
    and rest: "?tail rel base w2 = (Done (Ok pl), w')"
    by (cases "check_release name requested rel") (simp_all add: ret_def)
  note rel = check_release_Ok [OF check]
  obtain b where b: "bytes_at w staging = Some b" "trusted b"
    using assms(2) run(1,2) unfolding trustworthy_def by blast
  have "has_bytes staging (Some b) w" using b(1) assms(6) by (simp add: has_bytes_def)
  then have w1: "has_bytes staging (Some b) w1" using run(1) by (rule keepsD [OF k(1)])
  then have w2: "has_bytes staging (Some b) w2" using run(3) by (rule keepsD [OF k(2)])
  have "declares b rel"
    using assms(2) run(3) rel w1 unfolding trustworthy_def has_bytes_def by (metis option.inject)
  then have fit: "fitting trusted declares name base b" using rel b(2) by (auto simp: fitting_def)
  define v where "v = (if os_version w2 = Some base then release_version rel else None)"
  from rest obtain x now d where place: "place_image P name staging (slot_for name base v) now d w2 = (Done (Ok x), w')"
      "os_version w2 = Some base \<and> v \<noteq> None \<and> version_valid (the v) \<or> v = None"
      "placed_path pl = lossy (slot_for name base v)" "placed_base pl = base" "placed_for_running_base pl = (v \<noteq> None)"
    using slot_for_slots(1) [of name base] slot_for_slots(2) [of w2 base name]
    by (auto simp: Let_def v_def and_then_Ok_iff bind_reads ret_def scope_def split: if_splits option.splits)
  note target = slot_target [OF assms(4) _ place(2)]
  have base: "version_valid base" using rel by simp
  have "published b (slot_for name base v) w'"
    using place_image_publishes [OF assms(1,5) target(3) target(4) target(5) place(1) w2] base assms(3) b(2) by blast
  with that b(1) fit rel place(3-5) target(1-3) base show ?thesis by simp
qed


section \<open>Staging an extension\<close>

text \<open>What \<open>sha256sum\<close> prints for a file of the staging directory is the digest of its bytes.\<close>

definition digests :: "('e, 'v) platform \<Rightarrow> (string \<Rightarrow> string) \<Rightarrow> bool" where
  "digests P hash \<longleftrightarrow>
     (\<forall>p x d y. within_staging p \<longrightarrow> sha256 P p x = (Done (Ok d), y) \<longrightarrow> (\<exists>b. bytes_at x p = Some b \<and> d = hash b))"

definition expected_digest :: "string \<Rightarrow> string" where
  "expected_digest digest = (case strip_prefix ''sha256:'' digest of Some d \<Rightarrow> d | None \<Rightarrow> digest)"

text \<open>The image \<open>b\<close> is staged as \<open>st\<close> says.\<close>

definition staged_as ::
  "(string \<Rightarrow> bool) \<Rightarrow> (string \<Rightarrow> image_release \<Rightarrow> bool) \<Rightarrow> string \<Rightarrow> string option \<Rightarrow> staged \<Rightarrow> string \<Rightarrow> 'e world \<Rightarrow> bool" where
  "staged_as trusted declares name base st b w \<longleftrightarrow>
     survives w (staged_path st) (\<lambda>x. x = Some b) \<and> fitting trusted declares name (staged_version st) b \<and>
     (base = None \<or> base = Some (staged_version st)) \<and>
     (\<exists>v. staged_path st = slot_for name (staged_version st) v \<and> staged_for_running_base st = (v \<noteq> None))"

lemma staged_asI:
  assumes "published b (slot_for name (placed_base pl) v) w" "fitting trusted declares name (placed_base pl) b"
    "base = None \<or> base = Some (placed_base pl)" "placed_path pl = slot_for name (placed_base pl) v"
    "placed_for_running_base pl = (v \<noteq> None)"
  shows "staged_as trusted declares name base (placed_as name acquired pl) b w"
  using assms published_survives [OF assms(1)] by (auto simp: staged_as_def placed_as_def)

lemma digest_and_place_vetted:
  assumes "secluded P" "digests P hash" "trustworthy P staging trusted declares" "\<forall>b. trusted b \<longrightarrow> length b < 2 ^ 64"
    and "version_valid name" "within_staging staging" "coherent w"
    and "digest_and_place P name base digest staging w = (Done (Ok st), w' :: 'e world)"
  shows "\<exists>b. staged_as trusted declares name base st b w' \<and> eq_ignore_ascii_case (hash b) (expected_digest digest)"
proof -
  have err: "(bind m (\<lambda>_. ret (Err e)) :: ('e, failure + staged) io) u \<noteq> (Done (Ok st), w')" for m :: "('e, io_error + unit) io" and e u
    by (auto simp: bind_Done_iff ret_def)
  obtain dg w1 where dg: "sha256 P staging w = (Done dg, w1)"
    using assms(8) by (auto simp: digest_and_place_def Let_def bind_Done_iff)
  with assms(8) err obtain actual where run: "sha256 P staging w = (Done (Ok actual), w1)"
      "eq_ignore_ascii_case actual (expected_digest digest)"
    and rest: "bind (validate_and_place P name base staging) (\<lambda>outcome. bind (durable_remove staging) (\<lambda>_.
      ret (map_sum id (placed_as name False) outcome))) w1 = (Done (Ok st), w')"
    by (cases dg) (auto simp: digest_and_place_def expected_digest_def [symmetric] Let_def bind_run split: if_splits)
  from rest obtain q w2 r where "validate_and_place P name base staging w1 = (Done q, w2)"
      "durable_remove staging w2 = (Done r, w')" "map_sum id (placed_as name False) q = Ok st"
    by (auto simp: bind_Done_iff ret_def)
  then obtain pl where step: "validate_and_place P name base staging w1 = (Done (Ok pl), w2)"
      "durable_remove staging w2 = (Done r, w')" and st: "st = placed_as name False pl" by (cases q) auto
  obtain b where b: "bytes_at w staging = Some b" "actual = hash b"
    using assms(2,6) run(1) unfolding digests_def by blast
  have "has_bytes staging (Some b) w" using b(1) assms(7) by (simp add: has_bytes_def)
  then have "has_bytes staging (Some b) w1" using run(1) by (rule keepsD [OF keeps_checks(3) [OF assms(1,6)]])
  then have w1: "coherent w1" "bytes_at w1 staging = Some b" by (simp_all add: has_bytes_def)
  obtain b' v where placed: "bytes_at w1 staging = Some b'" "fitting trusted declares name (placed_base pl) b'"
    "base = None \<or> base = Some (placed_base pl)" "placed_path pl = slot_for name (placed_base pl) v"
    "published b' (slot_for name (placed_base pl) v) w2" "\<not> within_staging (slot_for name (placed_base pl) v)"
    "placed_for_running_base pl = (v \<noteq> None)"
    using validated_placed [OF assms(1,3,4,5,6) w1(1) step(1)] by metis
  have "keeps (published b' (slot_for name (placed_base pl) v)) (durable_remove staging)"
    by (rule keeps_published, rule keeps_durable_remove) (use assms(6) placed(6) in auto)
  then have "published b' (slot_for name (placed_base pl) v) w'" using placed(5) step(2) keepsD by blast
  from staged_asI [OF this placed(2,3,4,7)] have "staged_as trusted declares name base st b' w'" unfolding st .
  with placed(1) w1(2) b(2) run(2) show ?thesis by auto
qed

lemma coherent_runs:
  assumes "secluded P"
  shows "keeps coherent (exec P c)" "keeps coherent (capture P prog args)" "keeps coherent (capture_mutating P prog args)"
    "keeps coherent (require_space P n)" "keeps coherent (missing_rollback_size P name)"
    "slot_like t \<Longrightarrow> \<not> temporary t \<Longrightarrow> keeps coherent (durable_copy_file i t m)"
    "keeps coherent (fs_create_dir_all d)"
proof -
  show e: "keeps coherent (exec P c)" for c using assms by (simp add: secluded_def)
  then show "keeps coherent (capture P prog args)" "keeps coherent (capture_mutating P prog args)"
    "keeps coherent (require_space P n)"
    unfolding capture_def run_def capture_mutating_def run_mutating_def require_space_def available_bytes_def Let_def
    by (intro keeps_intros e)+
  show "keeps coherent (missing_rollback_size P name)"
    unfolding missing_rollback_size_def by (intro keeps_intros) (simp_all add: steady_def)
  show "slot_like t \<Longrightarrow> \<not> temporary t \<Longrightarrow> keeps coherent (durable_copy_file i t m)"
    using keeps_apart(3) [OF apart_state] by (intro keeps_coherent) blast
  show "keeps coherent (fs_create_dir_all d)" by (intro keeps_coherent keeps_intros)
qed


lemma supplied_vetted:
  assumes "secluded P" "digests P hash" "\<forall>p. within_staging p \<longrightarrow> trustworthy P p trusted declares"
    and "\<forall>b. trusted b \<longrightarrow> length b < 2 ^ 64" "version_valid name" "coherent w"
    and "supplied P name base p digest w = (Done (Ok st), w')"
  shows "\<exists>b. staged_as trusted declares name base st b w' \<and> eq_ignore_ascii_case (hash b) (expected_digest digest)"
proof -
  let ?staging = "join STAGING_DIR (name @ ''.raw'')"
  have within: "within_staging ?staging" by (rule within_staging_join [OF assms(5)]) simp
  have "is_absolute p" "exists_path w p"
    using assms(7) by (auto simp: supplied_def bind_reads ret_def split: if_split_asm)
  with assms(7) obtain src w1 n w2 running r w3 x w4 y w5 z w6 where run: "fs_open p w = (Done (Ok src), w1)"
      "fs_len src w1 = (Done (Ok n), w2)"
      "(if running then mapping_err (io_failure Checking []) (missing_rollback_size P name) else ret (Ok 0)) w2 = (Done (Ok r), w3)"
      "require_space P (staging_space n r) w3 = (Done (Ok x), w4)" "fs_create_dir_all STAGING_DIR w4 = (Done (Ok y), w5)"
      "durable_copy_file src ?staging n w5 = (Done (Ok z), w6)"
      "digest_and_place P name base digest ?staging w6 = (Done (Ok st), w')"
    by (auto simp: supplied_def Let_def and_then_Ok_iff mapping_err_Ok_iff bind_reads)
  note c = coherent_runs [OF assms(1)]
  have st: "steady coherent" by (simp add: steady_def)
  have "coherent w1" by (rule keepsD [OF keeps_fs_reading(1) [OF st] assms(6) run(1)])
  then have "coherent w2" using run(2) by (rule keepsD [OF keeps_fs_reading(5) [OF st]])
  then have "coherent w3"
    using keepsD [OF c(5)] run(3) by (auto simp: mapping_err_Ok_iff ret_def split: if_split_asm)
  then have "coherent w4" using run(4) by (rule keepsD [OF c(4)])
  then have "coherent w5" using run(5) by (rule keepsD [OF c(7)])
  then have "coherent w6" using run(6) by (rule keepsD [OF c(6) [OF staging_slot_like(1,2)]])
  with digest_and_place_vetted [OF assms(1,2) _ assms(4,5) within _ run(7)] assms(3) within show ?thesis by blast
qed

lemma place_download_Ok:
  assumes "place_download P name base selected f w = (Done (Ok pl), w')" "coherent w"
  obtains w1 where "coherent w1"
    "validate_and_place P name (Some base) (join STAGING_DIR (name @ ''_'' @ selected @ ''.raw'')) w1 = (Done (Ok pl), w')"
proof -
  let ?staged = "join STAGING_DIR (name @ ''_'' @ selected @ ''.raw'')"
  from assms(1) obtain n w1 where run: "fs_metadata_len ?staged w = (Done (Ok n), w1)"
      "validate_and_place P name (Some base) ?staged w1 = (Done (Ok pl), w')"
    by (auto simp: place_download_def Let_def and_then_Ok_iff mapping_err_Ok_iff bind_reads ret_def split: if_split_asm)
  have "keeps coherent (fs_metadata_len ?staged)" by (intro keeps_intros) (simp add: steady_def)
  then have "coherent w1" using assms(2) run(1) by (rule keepsD)
  with run(2) that show ?thesis by blast
qed

lemma validated_base:
  "validate_and_place P name (Some base) staging w = (Done (Ok pl), w') \<Longrightarrow> version_valid base"
  using check_release_Ok [of name "Some base"]
  by (auto simp: validate_and_place_def and_then_Ok_iff mapping_err_Ok_iff ret_def split: if_split_asm)
    (auto simp: ret_def split: sum.split_asm)

lemma resolved_plain:
  assumes "resolve_revision P name base w = (Done (Ok v), w')" "version_valid base"
  shows "plain v"
proof -
  obtain offered where "newest_for_base base offered = Some v"
    using assms(1)
    by (auto simp: resolve_revision_def and_then_Ok_iff mapping_err_Ok_iff ret_def split: if_split_asm option.split_asm)
  then obtain n where n: "v = revision_name base n"
    unfolding newest_for_base_def found_revisions
    by (cases "List.map_filter (revision_of base) offered")
      (auto simp: later_max_fold later_max_def [of _ None])
  have "plain ''-''" by code_simp
  moreover have "plain (show_nat n)"
    using show_nat_digits [of n] by (auto simp: plain_def list_all_iff version_char_def is_ascii_alphanumeric_def)
  ultimately show ?thesis
    unfolding n revision_name_def using version_valid_plain [OF assms(2)] by (simp only: plain_append split: if_split) simp
qed

lemma acquired_vetted:
  assumes "secluded P" "\<forall>p. within_staging p \<longrightarrow> trustworthy P p trusted declares"
    and "\<forall>b. trusted b \<longrightarrow> length b < 2 ^ 64" "version_valid name" "coherent w"
    and "acquire_image P name base version w = (Done (Ok st), w' :: 'e world)"
  shows "\<exists>b. staged_as trusted declares name (Some base) st b w'"
proof -
  note c = coherent_runs [OF assms(1)]
  from assms(6) obtain known w1 x w2 y w3 selected w4 f w5 where run: "components P w = (Done known, w1)"
      "fs_create_dir_all STAGING_DIR w1 = (Done (Ok x), w2)"
      "require_space P (sat_add MAX_ACQUIRED_IMAGE (16 * 1024 * 1024)) w2 = (Done (Ok y), w3)"
      "(case version of Some v \<Rightarrow> ret (Ok v) | None \<Rightarrow> resolve_revision P name base) w3 = (Done (Ok selected), w4)"
      "acquire_component P name (Some selected) w4 = (Done (Ok f), w5)"
    and rest: "bind (place_download P name base selected f) (\<lambda>outcome. bind (clear_staged name) (\<lambda>_.
      ret (map_sum id (placed_as name True) outcome))) w5 = (Done (Ok st), w')"
    by (auto simp: acquire_image_def Let_def and_then_Ok_iff mapping_err_Ok_iff bind_Done_iff ret_def split: if_split_asm)
  from rest obtain q w6 r where "place_download P name base selected f w5 = (Done q, w6)"
      "clear_staged name w6 = (Done r, w')" "map_sum id (placed_as name True) q = Ok st"
    by (auto simp: bind_Done_iff ret_def)
  then obtain pl where step: "place_download P name base selected f w5 = (Done (Ok pl), w6)"
      "clear_staged name w6 = (Done r, w')" and st: "st = placed_as name True pl" by (cases q) auto
  have "keeps coherent (components P)" "keeps coherent (resolve_revision P name base)"
    "keeps coherent (acquire_component P name v)" for v
    unfolding components_def resolve_revision_def list_component_def acquire_component_def Let_def
    by (intro keeps_intros c)+
  note k = this
  have "coherent w1" by (rule keepsD [OF k(1) assms(5) run(1)])
  then have "coherent w2" using run(2) by (rule keepsD [OF c(7)])
  then have "coherent w3" using run(3) by (rule keepsD [OF c(4)])
  then have "coherent w4" using run(4) keepsD [OF k(2)] by (auto simp: ret_def split: option.splits)
  then have "coherent w5" using run(5) by (rule keepsD [OF k(3)])
  then obtain w0 where w0: "coherent w0" "validate_and_place P name (Some base)
      (join STAGING_DIR (name @ ''_'' @ selected @ ''.raw'')) w0 = (Done (Ok pl), w6)"
    using place_download_Ok [OF step(1)] by metis
  have "plain selected"
  proof (cases version)
    case None
    then show ?thesis using resolved_plain run(4) validated_base [OF w0(2)] by simp
  next
    case (Some v)
    then show ?thesis
      using assms(6) run(4) by (auto simp: acquire_image_def ret_def version_valid_plain split: if_split_asm)
  qed
  then have within: "within_staging (join STAGING_DIR (name @ ''_'' @ selected @ ''.raw''))"
    by (intro within_staging_join [OF assms(4)]) (simp only: plain_append plain_literals simp_thms)
  obtain b v where placed: "fitting trusted declares name (placed_base pl) b" "Some base = Some (placed_base pl)"
    "placed_path pl = slot_for name (placed_base pl) v" "published b (slot_for name (placed_base pl) v) w6"
    "parent (slot_for name (placed_base pl) v) = Some EXTENSIONS_DIR" "placed_for_running_base pl = (v \<noteq> None)"
    using validated_placed [OF assms(1) _ assms(3,4) within w0] assms(2) within by (metis option.distinct(1))
  have "Some EXTENSIONS_DIR \<noteq> Some STAGING_DIR" by (simp add: EXTENSIONS_DIR_def STAGING_DIR_def)
  then have "keeps (published b (slot_for name (placed_base pl) v)) (clear_staged name)"
    unfolding clear_staged_def by (intro keeps_published keeps_prune_elsewhere) (simp add: placed(5))
  then have "published b (slot_for name (placed_base pl) v) w'" using placed(4) step(2) keepsD by blast
  from staged_asI [OF this placed(1) _ placed(3,6), of "Some base"] placed(2) show ?thesis unfolding st by auto
qed



text \<open>
  The image \<open>new\<close>, which declares \<open>a\<close> for base 10 and has the digest \<open>ab\<close>, is supplied on a node that runs base 9.
\<close>

definition vetting_platform :: "(unit, string list) platform" where
  "vetting_platform = staging_platform\<lparr>exec := (\<lambda>c w.
     if program c = ''/usr/bin/df'' then (Done (Ok \<lparr>output_code = Some 0, output_success = True,
       output_stdout = ''Avail'' @ [CHR 0x0A] @ ''99999999'', output_stderr = []\<rparr>), w)
     else if program c = ''/usr/bin/sha256sum'' then (Done (Ok \<lparr>output_code = Some 0,
       output_success = bytes_at w (last (arguments c)) \<noteq> None,
       output_stdout = if dissected c w then ''ab'' else ''cd'', output_stderr = []\<rparr>), w)
     else exec staging_platform c w)\<rparr>"

definition vetting_world :: "unit world" where
  "vetting_world =
     \<lparr>live = [(''/etc/os-release'', 0), (''/var/lib/carbide/agent/state.json'', 1), (''/srv/a.raw'', 2)],
      older = [], inodes = (\<lambda>i. bench_file ([''VERSION_ID=9'', ''{}'', ''new''] ! i)), fresh = 3,
      dirs = [''/var/lib/extensions'', ''/''], faults = [], clock = 0, lock_taken = False, lock_fd = None,
      console = [], outside = ()\<rparr>"

lemma vetting_keeps: "keeps I (exec vetting_platform c)"
  using staging_keeps(1) [of I c] by (auto simp: vetting_platform_def keeps_def)

lemma vetting_secluded: "secluded vetting_platform"
  by (simp add: secluded_def vetting_keeps)

lemma vetting_coherent: "coherent vetting_world"
  by (auto simp: vetting_world_def coherent_def points_def versions_def temporary_def ends_with_def
      starts_with_def split: if_splits)

lemma vetting_digests: "digests vetting_platform (\<lambda>b. if b = ''new'' then ''ab'' else ''cd'')"
proof -
  have run: "capture vetting_platform ''/usr/bin/sha256sum'' [p] x =
      (Done (Ok (finish ''/usr/bin/sha256sum'' [p] \<lparr>output_code = Some 0, output_success = bytes_at x p \<noteq> None,
        output_stdout = if bytes_at x p = Some ''new'' then ''ab'' else ''cd'', output_stderr = []\<rparr>)), x)" for p x
    unfolding capture_def and_then_def run_def bind_def plain_command_def
    by (simp add: vetting_platform_def dissected_def ret_def)
  have "split_whitespace (lossy ''ab'') = [''ab'']" "split_whitespace (lossy ''cd'') = [''cd'']" by code_simp+
  then have digest: "lossy p = p \<Longrightarrow> sha256 vetting_platform p x = (if bytes_at x p = None
      then (Done (Err (IoError OtherIo ''sha256sum failed'')), x)
      else (Done (Ok (if bytes_at x p = Some ''new'' then ''ab'' else ''cd'')), x))" for p x
    unfolding sha256_def by (simp add: and_then_def bind_def run ret_def finish_def)
  show ?thesis
    unfolding digests_def
  proof (intro allI impI)
    fix p x d y
    assume "within_staging p" "sha256 vetting_platform p x = (Done (Ok d), y)"
    then show "\<exists>b. bytes_at x p = Some b \<and> d = (if b = ''new'' then ''ab'' else ''cd'')"
      by (cases "bytes_at x p") (simp_all add: within_staging_def digest)
  qed
qed

lemma vetting_trustworthy:
  "within_staging p \<Longrightarrow>
     trustworthy vetting_platform p (\<lambda>b. b = ''new'') (\<lambda>b r. b = ''new'' \<and> r = staged_release)"
proof -
  assume p: "within_staging p"
  have run: "last as = p \<Longrightarrow> capture vetting_platform DISSECT as x =
      (Done (Ok (finish DISSECT as \<lparr>output_code = None, output_success = (bytes_at x p = Some ''new''),
        output_stdout = ''SYSEXT_ID=a'' @ [CHR 0x0A] @ ''VERSION_ID=10'', output_stderr = []\<rparr>)), x)" for as x
    unfolding capture_def and_then_def run_def bind_def plain_command_def
    by (simp add: vetting_platform_def staging_platform_def dissected_def DISSECT_def ret_def)
  have "parse_sysext_release vetting_platform (lossy (''SYSEXT_ID=a'' @ [CHR 0x0A] @ ''VERSION_ID=10'')) = staged_release"
    by code_simp
  with p show ?thesis
    unfolding trustworthy_def validate_image_def read_image_release_def
    by (auto simp: and_then_def bind_def run ret_def finish_def no_release_def within_staging_def split: if_splits)
qed


end
