(* ===== verification/Unit_Tests.thy ===== *)
theory Unit_Tests
  imports Agent
begin

text \<open>
  The repository's own unit tests of the agent, as computations over the model. A test that fails stops as the
  panic of its assertion does; that every one of them returns is checked by evaluation. They tie the model to
  what the authors say the code does. The tests of the texts of JSON (a parameter here) and of the lock that a
  child process keeps (which is the kernel's) are left out.
\<close>

section \<open>What the tests use\<close>

definition expect :: "string \<Rightarrow> ('e, 'x + 'a) io \<Rightarrow> ('e, 'a) io" where
  "expect what m = bind m (\<lambda>r. case r of Inr x \<Rightarrow> ret x | Inl _ \<Rightarrow> stop (Panicked what))"

definition assert :: "bool \<Rightarrow> ('e, unit) io" where
  "assert b = (if b then ret () else stop (Panicked ''assertion failed''))"

text \<open>\<open>std::fs::write\<close>, \<open>std::fs::remove_dir_all\<close> and \<open>std::fs::create_dir\<close>.\<close>

definition fs_write :: "path \<Rightarrow> string \<Rightarrow> ('e, io_error + unit) io" where
  "fs_write p b = and_then (fs_create p) (\<lambda>f. fs_write_all f b)"

definition beneath :: "path \<Rightarrow> path \<Rightarrow> bool" where
  "beneath d p \<longleftrightarrow> p = d \<or> starts_with (d @ ''/'') p"

definition fs_remove_dir_all :: "path \<Rightarrow> ('e, io_error + unit) io" where
  "fs_remove_dir_all d =
     prim nothing (\<lambda>w. if d \<notin> set (dirs w) then (Err not_found, w)
       else (Ok (), set_names (filter (\<lambda>(p, _). \<not> beneath d p) (live w))
         (w\<lparr>dirs := filter (\<lambda>p. \<not> beneath d p) (dirs w)\<rparr>)))"

definition fs_create_dir :: "path \<Rightarrow> ('e, io_error + unit) io" where
  "fs_create_dir d =
     prim nothing (\<lambda>w. if exists_path w d then (Err (IoError AlreadyExists ''File exists (os error 17)''), w)
       else if has_parent w d then (Ok (), w\<lparr>dirs := d # dirs w\<rparr>) else (Err not_found, w))"

definition missing :: "path \<Rightarrow> ('e, bool) io" where
  "missing p = reads (\<lambda>w. \<not> exists_path w p)"

text \<open>The directory for temporary files and the process number are the environment's.\<close>

definition temp_dir :: path where
  "temp_dir = ''/tmp''"

definition temporary_directory :: "string \<Rightarrow> ('e, path) io" where
  "temporary_directory name =
     (let directory = join temp_dir (''carbide-agent-'' @ name @ ''-7'')
      in bind (fs_remove_dir_all directory) (\<lambda>_.
         bind (expect ''create test directory'' (fs_create_dir_all directory)) (\<lambda>_. ret directory)))"

definition fresh_world :: "unit world" where
  "fresh_world = \<lparr>live = [], older = [], inodes = (\<lambda>_. \<lparr>cached = [], synced = [], mode = 420\<rparr>), fresh = 0,
     dirs = [''/tmp'', ''/''], faults = [], clock = 0, lock_taken = False, lock_fd = None, console = [], outside = ()\<rparr>"

definition passes :: "(unit, unit) io \<Rightarrow> bool" where
  "passes m \<longleftrightarrow> (case fst (m fresh_world) of Done _ \<Rightarrow> True | Stopped _ \<Rightarrow> False)"

section \<open>The record\<close>

definition terminal_on :: "string \<Rightarrow> extension_state" where
  "terminal_on version = default_extension\<lparr>required := True, phase := Unrecoverable,
     last_failure := Some ''no usable ruleset'', terminal_os_version := Some version\<rparr>"

definition refusing_state :: state where
  "refusing_state = default_state\<lparr>extensions := bt_insert ''watchtower'' (terminal_on ''0.1.45'') (extensions default_state)\<rparr>"

definition a_refusal_does_not_survive_the_rollback_that_fixes_it :: bool where
  "a_refusal_does_not_survive_the_rollback_that_fixes_it =
     (case forget_stale_terminals ''0.1.43'' refusing_state of (cleared, s) \<Rightarrow>
        cleared = [''watchtower''] \<and>
        (case state_get s ''watchtower'' of None \<Rightarrow> False | Some e \<Rightarrow>
           phase e = Idle \<and> last_failure e = None \<and> required e))"

definition a_refusal_survives_a_reboot_onto_the_same_image :: bool where
  "a_refusal_survives_a_reboot_onto_the_same_image =
     (case forget_stale_terminals ''0.1.45'' refusing_state of (cleared, s) \<Rightarrow>
        cleared = [] \<and>
        (case state_get s ''watchtower'' of None \<Rightarrow> False | Some e \<Rightarrow> phase e = Unrecoverable))"

definition the_operation_lock_excludes_another_process_path :: "('e, unit) io" where
  "the_operation_lock_excludes_another_process_path =
     (let directory = join temp_dir ''carbide-agent-lock-test-7''
      in bind (fs_remove_dir_all directory) (\<lambda>_.
         bind (expect ''first lock'' (try_acquire_at directory)) (\<lambda>got.
         case got of
           None \<Rightarrow> stop (Panicked ''unlocked'')
         | Some first \<Rightarrow>
             bind (expect ''second lock attempt'' (try_acquire_at directory)) (\<lambda>second.
             bind (assert (second = None)) (\<lambda>_.
             bind (drop_lock first) (\<lambda>_.
             bind (expect ''lock after release'' (try_acquire_at directory)) (\<lambda>third.
             bind (assert (third \<noteq> None)) (\<lambda>_.
             bind (case third of Some l \<Rightarrow> drop_lock l | None \<Rightarrow> ret ()) (\<lambda>_.
             expect ''remove lock test directory'' (fs_remove_dir_all directory)))))))))) "

lemma record_tests:
  "a_refusal_does_not_survive_the_rollback_that_fixes_it" "a_refusal_survives_a_reboot_onto_the_same_image"
  "passes the_operation_lock_excludes_another_process_path"
  by code_simp+

section \<open>Images\<close>

definition a_version_may_not_escape_a_path :: bool where
  "a_version_may_not_escape_a_path =
     (version_valid ''0.1.58'' \<and> version_valid ''0.2.92'' \<and> version_valid ''rat-game-16'' \<and> \<not> version_valid [] \<and>
      \<not> version_valid ''../etc'' \<and> \<not> version_valid ''0.1/58'' \<and> \<not> version_valid ''.hidden'' \<and>
      \<not> version_valid ''has space'')"

definition a_scoped_image_reports_the_extension_it_contains :: bool where
  "a_scoped_image_reports_the_extension_it_contains =
     (extension_name ''watchtower_0.1.50'' = ''watchtower'' \<and> extension_name ''chrome_0.1.50'' = ''chrome'')"

definition an_unscoped_image_is_left_alone :: bool where
  "an_unscoped_image_is_left_alone =
     (extension_name ''watchtower'' = ''watchtower'' \<and> extension_name ''rat-game-16'' = ''rat-game-16'')"

definition transaction_space_covers_temporary_and_retained_images :: bool where
  "transaction_space_covers_temporary_and_retained_images =
     (let margin = 16 * 1024 * 1024
      in activation_space 32 0 = 32 + margin \<and> activation_space 32 64 = 96 + margin \<and>
         staging_space 32 64 = 128 + margin)"

definition durable_copy_replaces_only_after_the_source_is_complete :: "('e, unit) io" where
  "durable_copy_replaces_only_after_the_source_is_complete =
     bind (temporary_directory ''durable-copy'') (\<lambda>directory.
       let src = join directory ''source''; target = join directory ''extension.raw'';
           gone = join directory ''missing''
       in bind (expect ''write source'' (fs_write src ''new complete image'')) (\<lambda>_.
          bind (expect ''write target'' (fs_write target ''old complete image'')) (\<lambda>_.
          bind (expect ''replace target'' (durable_copy src target)) (\<lambda>_.
          bind (expect ''read target'' (fs_read target)) (\<lambda>b.
          bind (assert (b = ''new complete image'')) (\<lambda>_.
          bind (missing (join directory ''.extension.raw.new'')) (\<lambda>cleared.
          bind (assert cleared) (\<lambda>_.
          bind (durable_copy gone target) (\<lambda>r.
          bind (assert (ok r = None)) (\<lambda>_.
          bind (expect ''read old target'' (fs_read target)) (\<lambda>b'.
          bind (assert (b' = ''new complete image'')) (\<lambda>_.
          expect ''remove test directory'' (fs_remove_dir_all directory)))))))))))))"

definition durable_copy_never_exceeds_the_budgeted_inode_size :: "('e, unit) io" where
  "durable_copy_never_exceeds_the_budgeted_inode_size =
     bind (temporary_directory ''bounded-copy'') (\<lambda>directory.
       let src = join directory ''source''; target = join directory ''extension.raw''
       in bind (expect ''write source'' (fs_write src ''oversized'')) (\<lambda>_.
          bind (expect ''open source'' (fs_open src)) (\<lambda>f.
          bind (durable_copy_file f target 4) (\<lambda>r.
          bind (assert (ok r = None)) (\<lambda>_.
          bind (missing target) (\<lambda>none.
          bind (assert none) (\<lambda>_.
          bind (missing (join directory ''.extension.raw.new'')) (\<lambda>cleared.
          bind (assert cleared) (\<lambda>_.
          expect ''remove test directory'' (fs_remove_dir_all directory))))))))))"

fun write_images :: "path list \<Rightarrow> ('e, unit) io" where
  "write_images [] = ret ()"
| "write_images (p # ps) = bind (expect ''write image'' (fs_write p ''image'')) (\<lambda>_. write_images ps)"

fun assert_missing :: "(path \<times> bool) list \<Rightarrow> ('e, unit) io" where
  "assert_missing [] = ret ()"
| "assert_missing ((p, none) # ps) = bind (missing p) (\<lambda>m. bind (assert (m = none)) (\<lambda>_. assert_missing ps))"

definition pruning_keeps_one_slot_and_never_crosses_base_scopes :: "('e, unit) io" where
  "pruning_keeps_one_slot_and_never_crosses_base_scopes =
     bind (temporary_directory ''prune'') (\<lambda>directory.
       let keep = join directory ''watchtower_0.3.4.raw.2.rollback'';
           remove = join directory ''watchtower_0.3.4.raw.1.rollback'';
           other_base = join directory ''watchtower_0.3.3.raw.1.rollback'';
           other_extension = join directory ''chrome_0.3.4.raw.1.rollback''
       in bind (write_images [keep, remove, other_base, other_extension]) (\<lambda>_.
          bind (expect ''prune rollbacks''
            (prune_matching_in directory ''watchtower_0.3.4.raw.'' ''.rollback'' (Some keep))) (\<lambda>_.
          bind (assert_missing [(keep, False), (remove, True), (other_base, False), (other_extension, False)]) (\<lambda>_.
          expect ''remove test directory'' (fs_remove_dir_all directory)))))"

definition interrupted_private_files_are_pruned :: "('e, unit) io" where
  "interrupted_private_files_are_pruned =
     bind (temporary_directory ''transaction-prune'') (\<lambda>directory.
       let staging = join directory ''.carbide-staging''; active = join directory ''watchtower_0.3.4.raw'';
           unfinished = join directory ''.watchtower_0.3.4.raw.new''; copied = join staging ''watchtower.raw''
       in bind (expect ''create staging directory'' (fs_create_dir staging)) (\<lambda>_.
          bind (write_images [active, unfinished, copied]) (\<lambda>_.
          bind (expect ''prune transaction files'' (prune_transaction_files_in directory staging)) (\<lambda>_.
          bind (assert_missing [(active, False), (unfinished, True), (copied, True)]) (\<lambda>_.
          expect ''remove test directory'' (fs_remove_dir_all directory))))))"

lemma image_tests:
  "a_version_may_not_escape_a_path" "a_scoped_image_reports_the_extension_it_contains"
  "an_unscoped_image_is_left_alone" "transaction_space_covers_temporary_and_retained_images"
  "passes durable_copy_replaces_only_after_the_source_is_complete"
  "passes durable_copy_never_exceeds_the_budgeted_inode_size"
  "passes pruning_keeps_one_slot_and_never_crosses_base_scopes"
  "passes interrupted_private_files_are_pruned"
  by code_simp+

section \<open>The feed and the supervisor\<close>

definition an_unrevisioned_image_is_chosen_when_it_is_the_only_one :: bool where
  "an_unrevisioned_image_is_chosen_when_it_is_the_only_one =
     (newest_for_base ''0.3.5'' [''0.3.4'', ''0.3.5'', ''0.3.6''] = Some ''0.3.5'')"

definition the_highest_revision_for_the_base_wins :: bool where
  "the_highest_revision_for_the_base_wins =
     (newest_for_base ''0.3.5'' [''0.3.5-2'', ''0.3.5'', ''0.3.5-10'', ''0.3.6-11''] = Some ''0.3.5-10'' \<and>
      newest_for_base ''0.3.5'' [''0.3.5-1''] = Some ''0.3.5-1'')"

definition a_longer_base_sharing_the_prefix_does_not_match :: bool where
  "a_longer_base_sharing_the_prefix_does_not_match =
     (newest_for_base ''0.3.5'' [''0.3.50-1'', ''0.3.50'', ''0.3.5''] = Some ''0.3.5'' \<and>
      newest_for_base ''0.3.5'' [''0.3.50-1'', ''0.3.6''] = None)"

definition a_suffix_that_is_not_a_revision_is_ignored :: bool where
  "a_suffix_that_is_not_a_revision_is_ignored =
     (newest_for_base ''0.3.5'' [''0.3.5'', ''0.3.5-x'', ''0.3.5-'', ''0.3.5-0'', ''0.3.5-01'', ''0.3.5-1a'',
        ''0.3.5-1-2'', ''0.3.5+1'', ''0.3.5-1.1''] = Some ''0.3.5'' \<and>
      newest_for_base ''0.3.5'' [] = None)"

definition an_image_without_a_ruleset_is_reported_as_such :: "('e, 'v) platform \<Rightarrow> ('e, unit) io" where
  "an_image_without_a_ruleset_is_reported_as_such P =
     bind (adopt_active P default_state ''carbide-agent-test-no-such-extension'' ''1'') (\<lambda>(outcome, s).
     bind (assert (case outcome of Inl (NoRuleset _) \<Rightarrow> True | _ \<Rightarrow> False)) (\<lambda>_.
     assert (extensions s = [])))"

lemma feed_tests:
  "an_unrevisioned_image_is_chosen_when_it_is_the_only_one" "the_highest_revision_for_the_base_wins"
  "a_longer_base_sharing_the_prefix_does_not_match" "a_suffix_that_is_not_a_revision_is_ignored"
  by code_simp+

text \<open>The last one runs no program: it passes on every platform.\<close>

lemma supervisor_test: "passes (an_image_without_a_ruleset_is_reported_as_such P)"
proof -
  have "bytes_at fresh_world p = None" "faults fresh_world = []" for p
    by (simp_all add: bytes_at_def now_def fresh_world_def)
  then show ?thesis
    by (simp add: passes_def an_image_without_a_ruleset_is_reported_as_such_def adopt_active_def load_named_def
        load_ruleset_def fs_read_def fs_read_to_string_def prim_def bind_def and_then_def mapping_err_def ret_def map_err_def assert_def
        default_state_def split: if_splits)
qed

end
